(* ===== verification/Prelude.thy ===== *)
theory Prelude
  imports Main "HOL-Library.AList"
begin

text \<open>
  What the component theories share.

  \<^item> Names for Go's time types: an instant and a duration are integers that count
    nanoseconds. \<^verbatim>\<open>time.Now()\<close> is an argument of the operation that reads the clock.
  \<^item> \<open>go_defs\<close>, the collection of definitions that a proof may unfold, and
    \<open>inv_intros\<close>, the collection of invariant-preservation rules.
  \<^item> \<open>run\<close> and \<open>run_out\<close>: a deterministic machine run over a list of events,
    without and with outputs.
  \<^item> The locales \<open>invariant_machine\<close> (an invariant that every step keeps) and
    \<open>simulation\<close> (a concrete machine that answers like an abstract one). Every
    component interprets them on its own operations.
\<close>

named_theorems go_defs "definitions of the model that proofs unfold"
named_theorems inv_intros "preservation of the invariants of the model"

type_synonym time = int
type_synonym duration = int

abbreviation Millisecond :: duration where
  "Millisecond \<equiv> 1000000"

abbreviation Second :: duration where
  "Second \<equiv> 1000000000"

abbreviation Minute :: duration where
  "Minute \<equiv> 60000000000"

definition zeroTime :: time where
  "zeroTime = - 62135596800 * Second"

text \<open>Go's integer division, which rounds towards zero.\<close>

definition goDiv :: "int \<Rightarrow> int \<Rightarrow> int" where
  "goDiv a b = sgn a * sgn b * (\<bar>a\<bar> div \<bar>b\<bar>)"

primrec run :: "('s \<Rightarrow> 'e \<Rightarrow> 's) \<Rightarrow> 's \<Rightarrow> 'e list \<Rightarrow> 's" where
  "run step s [] = s"
| "run step s (e # es) = run step (step s e) es"

primrec run_out :: "('s \<Rightarrow> 'e \<Rightarrow> 'o \<times> 's) \<Rightarrow> 's \<Rightarrow> 'e list \<Rightarrow> 'o list \<times> 's" where
  "run_out step s [] = ([], s)"
| "run_out step s (e # es) =
     (let (out, s1) = step s e; (outs, s2) = run_out step s1 es in (out # outs, s2))"

lemma run_append [simp]: "run step s (xs @ ys) = run step (run step s xs) ys"
  by (induction xs arbitrary: s) auto

lemma count_list_replicate [simp]: "count_list (replicate n x) y = (if x = y then n else 0)"
  by (induction n) auto

text \<open>The weight of an association list under a measure of its values.\<close>

definition weight :: "('v \<Rightarrow> int) \<Rightarrow> ('k \<times> 'v) list \<Rightarrow> int" where
  "weight f al = sum_list (map (f \<circ> snd) al)"

lemma weight_simps [simp]:
  "weight f [] = 0" "weight f ((k, v) # al) = f v + weight f al"
  "weight f (xs @ ys) = weight f xs + weight f ys"
  by (simp_all add: weight_def)

lemma weight_delete:
  "distinct (map fst al) \<Longrightarrow> map_of al k = Some v \<Longrightarrow> weight f (AList.delete k al) = weight f al - f v"
proof (induction al)
  case (Cons kv al)
  obtain l w where kv: "kv = (l, w)" by fastforce
  show ?case
  proof (cases "l = k")
    case True
    with Cons.prems kv have "AList.delete k al = al" "v = w" by auto
    with True kv show ?thesis by simp
  next
    case False
    with Cons kv show ?thesis by simp
  qed
qed simp

lemma weight_update:
  assumes "distinct (map fst al)"
  shows "weight f (AList.update k v al) =
    f v + weight f al - (case map_of al k of Some w \<Rightarrow> f w | None \<Rightarrow> 0)"
  using assms by (induction al) auto

lemma set_update_subset: "set (AList.update k v al) \<subseteq> insert (k, v) (set al)"
  by (induction al) auto

lemma length_delete:
  "distinct (map fst al) \<Longrightarrow> map_of al k = Some v \<Longrightarrow> Suc (length (AList.delete k al)) = length al"
proof (induction al)
  case (Cons kv al)
  obtain l w where kv: "kv = (l, w)" by fastforce
  show ?case
  proof (cases "l = k")
    case True
    with Cons.prems kv have "AList.delete k al = al" by auto
    with True kv show ?thesis by simp
  next
    case False
    with Cons kv show ?thesis by simp
  qed
qed simp

lemma length_update:
  "length (AList.update k v al) = (if k \<in> fst ` set al then length al else Suc (length al))"
  by (induction al) auto

lemma weight_nonneg: "(\<And>k v. (k, v) \<in> set al \<Longrightarrow> 0 \<le> f v) \<Longrightarrow> 0 \<le> weight f al"
  unfolding weight_def by (rule sum_list_nonneg) auto

lemma weight_sum: "distinct (map fst al) \<Longrightarrow> weight f al = (\<Sum>kv \<in> set al. f (snd kv))"
proof (induction al)
  case (Cons kv al)
  then have "kv \<notin> set al" by auto
  with Cons show ?case by (simp add: weight_def)
qed simp

text \<open>A part of a map, with its keys distinct, weighs no more and is no longer.\<close>

lemma submap_subset:
  assumes "map_of as \<subseteq>\<^sub>m map_of bs" "distinct (map fst as)"
  shows "set as \<subseteq> set bs"
proof
  fix kv assume kv: "kv \<in> set as"
  obtain k v where [simp]: "kv = (k, v)" by fastforce
  from kv assms(2) have "map_of as k = Some v" by simp
  with assms(1) have "map_of bs k = Some v" by (fastforce simp: map_le_def dom_def)
  then show "kv \<in> set bs" by (simp add: map_of_SomeD)
qed

lemma submap_weight:
  assumes "map_of as \<subseteq>\<^sub>m map_of bs" "distinct (map fst as)" "distinct (map fst bs)"
    and "\<And>k v. (k, v) \<in> set bs \<Longrightarrow> 0 \<le> f v"
  shows "weight f as \<le> weight f bs" "length as \<le> length bs"
proof -
  have sub: "set as \<subseteq> set bs" by (rule submap_subset [OF assms(1,2)])
  then show "weight f as \<le> weight f bs"
    using assms(4) by (auto simp: weight_sum assms(2,3) intro!: sum_mono2)
  show "length as \<le> length bs"
    using sub assms(2,3) by (metis List.finite_set card_mono distinct_card distinct_map)
qed

lemma goDiv_nonneg: "0 \<le> a \<Longrightarrow> 0 < b \<Longrightarrow> goDiv a b = a div b"
  by (auto simp: goDiv_def sgn_if)

lemma removeAll_last: "distinct xs \<Longrightarrow> xs \<noteq> [] \<Longrightarrow> removeAll (last xs) xs = butlast xs"
  by (induction xs rule: rev_induct) auto

locale invariant_machine =
  fixes step :: "'s \<Rightarrow> 'e \<Rightarrow> 's"
    and inv :: "'s \<Rightarrow> bool"
  assumes step_inv: "inv s \<Longrightarrow> inv (step s e)"
begin

lemma run_inv: "inv s \<Longrightarrow> inv (run step s es)"
  by (induction es arbitrary: s) (auto intro: step_inv)

end

locale simulation =
  fixes cstep :: "'c \<Rightarrow> 'e \<Rightarrow> 'o \<times> 'c"
    and astep :: "'a \<Rightarrow> 'e \<Rightarrow> 'o \<times> 'a"
    and rel :: "'g \<Rightarrow> 'c \<Rightarrow> 'a \<Rightarrow> bool"
    and admissible :: "'g \<Rightarrow> 'e \<Rightarrow> bool"
    and advance :: "'g \<Rightarrow> 'e \<Rightarrow> 'g"
  assumes sim_out: "rel g c a \<Longrightarrow> admissible g e \<Longrightarrow> fst (cstep c e) = fst (astep a e)"
    and sim_rel: "rel g c a \<Longrightarrow> admissible g e \<Longrightarrow>
      rel (advance g e) (snd (cstep c e)) (snd (astep a e))"
begin

primrec admissible_all :: "'g \<Rightarrow> 'e list \<Rightarrow> bool" where
  "admissible_all g [] = True"
| "admissible_all g (e # es) = (admissible g e \<and> admissible_all (advance g e) es)"

lemma sim_run:
  "rel g c a \<Longrightarrow> admissible_all g es \<Longrightarrow>
    fst (run_out cstep c es) = fst (run_out astep a es) \<and>
    rel (foldl advance g es) (snd (run_out cstep c es)) (snd (run_out astep a es))"
proof (induction es arbitrary: g c a)
  case Nil
  then show ?case by simp
next
  case (Cons e es)
  then have "fst (cstep c e) = fst (astep a e)"
    and "rel (advance g e) (snd (cstep c e)) (snd (astep a e))"
    and "admissible_all (advance g e) es"
    by (auto intro: sim_out sim_rel)
  with Cons.IH [of "advance g e" "snd (cstep c e)" "snd (astep a e)"] show ?case
    by (simp add: split_beta Let_def)
qed

end

end
