(* ===== verification/CircuitBreaker.thy ===== *)
theory CircuitBreaker
  imports Prelude
begin

text \<open>
  The circuit breaker in front of the backend, \<^verbatim>\<open>internal/middleware/circuitbreaker.go\<close>.

  The record has the fields of the struct; the mutex is left out because each operation
  below is one critical section, and \<open>atomicState\<close>, the copy of the state that the fast
  paths of \<open>Allow\<close> and \<open>RecordSuccess\<close> read without the mutex, is kept apart from
  \<open>cb_state\<close>. The readings of the clock inside one critical section are one argument
  \<open>now\<close>. Counters are mathematical integers: they count requests and cannot reach the
  width of a Go \<open>int\<close>.
\<close>

datatype cbState = CbClosed | CbOpen | CbHalfOpen

record circuitBreaker =
  atomicState :: cbState
  cb_state :: cbState
  failureTimes :: "time list"
  successes :: int
  halfOpenProbes :: int
  openUntil :: time
  failureThreshold :: int
  windowDuration :: duration
  successThreshold :: int
  openDuration :: duration
  TripsTotal :: int

definition NewCircuitBreaker :: "int \<Rightarrow> int \<Rightarrow> duration \<Rightarrow> duration \<Rightarrow> circuitBreaker" where
  "NewCircuitBreaker ft st od wd =
     (let wd' = (if wd \<le> 0 then 30 * Second else wd)
      in \<lparr>atomicState = CbClosed, cb_state = CbClosed, failureTimes = [], successes = 0,
          halfOpenProbes = 0, openUntil = zeroTime, failureThreshold = ft,
          windowDuration = wd', successThreshold = st, openDuration = od, TripsTotal = 0\<rparr>)"

text \<open>The part of \<open>Allow\<close> that runs with the mutex held.\<close>

definition Allow_locked :: "circuitBreaker \<Rightarrow> time \<Rightarrow> bool \<times> circuitBreaker" where
  "Allow_locked cb now =
     (case cb_state cb of
        CbClosed \<Rightarrow> (True, cb)
      | CbOpen \<Rightarrow>
          if now > openUntil cb
          then (True, cb\<lparr>cb_state := CbHalfOpen, atomicState := CbHalfOpen,
                         successes := 0, halfOpenProbes := 1\<rparr>)
          else (False, cb)
      | CbHalfOpen \<Rightarrow>
          if halfOpenProbes cb < successThreshold cb
          then (True, cb\<lparr>halfOpenProbes := halfOpenProbes cb + 1\<rparr>)
          else (False, cb))"

definition Allow :: "circuitBreaker \<Rightarrow> time \<Rightarrow> bool \<times> circuitBreaker" where
  "Allow cb now = (if atomicState cb = CbClosed then (True, cb) else Allow_locked cb now)"

definition RecordSuccess_locked :: "circuitBreaker \<Rightarrow> circuitBreaker" where
  "RecordSuccess_locked cb =
     (case cb_state cb of
        CbHalfOpen \<Rightarrow>
          (let cb1 = cb\<lparr>successes := successes cb + 1\<rparr>
           in if successes cb1 \<ge> successThreshold cb1
              then cb1\<lparr>cb_state := CbClosed, atomicState := CbClosed, failureTimes := []\<rparr>
              else cb1)
      | CbClosed \<Rightarrow> cb
      | CbOpen \<Rightarrow> cb)"

definition RecordSuccess :: "circuitBreaker \<Rightarrow> circuitBreaker" where
  "RecordSuccess cb = (if atomicState cb = CbClosed then cb else RecordSuccess_locked cb)"

definition pruneWindow :: "circuitBreaker \<Rightarrow> time \<Rightarrow> circuitBreaker" where
  "pruneWindow cb now =
     (let cutoff = now - windowDuration cb
      in cb\<lparr>failureTimes := dropWhile (\<lambda>t. t < cutoff) (failureTimes cb)\<rparr>)"

definition RecordFailure :: "circuitBreaker \<Rightarrow> time \<Rightarrow> circuitBreaker" where
  "RecordFailure cb now =
     (case cb_state cb of
        CbClosed \<Rightarrow>
          (let cb1 = pruneWindow cb now;
               cb2 = cb1\<lparr>failureTimes := failureTimes cb1 @ [now]\<rparr>
           in if int (length (failureTimes cb2)) \<ge> failureThreshold cb2
              then cb2\<lparr>cb_state := CbOpen, atomicState := CbOpen,
                       openUntil := now + openDuration cb2, TripsTotal := TripsTotal cb2 + 1\<rparr>
              else cb2)
      | CbHalfOpen \<Rightarrow>
          cb\<lparr>cb_state := CbOpen, atomicState := CbOpen,
             openUntil := now + openDuration cb, TripsTotal := TripsTotal cb + 1\<rparr>
      | CbOpen \<Rightarrow> cb)"

fun State :: "circuitBreaker \<Rightarrow> string" where
  "State cb = (case cb_state cb of
      CbClosed \<Rightarrow> ''closed'' | CbOpen \<Rightarrow> ''open'' | CbHalfOpen \<Rightarrow> ''half_open'')"

text \<open>
  The breaker as a machine: the events are the calls its clients make, and the output of a
  step is the answer of \<open>Allow\<close> (\<open>True\<close> for the recording calls, which answer nothing).
\<close>

datatype cbEvent = EvAllow time | EvSuccess | EvFailure time

definition cb_step :: "circuitBreaker \<Rightarrow> cbEvent \<Rightarrow> bool \<times> circuitBreaker" where
  "cb_step cb e =
     (case e of
        EvAllow t \<Rightarrow> Allow cb t
      | EvSuccess \<Rightarrow> (True, RecordSuccess cb)
      | EvFailure t \<Rightarrow> (True, RecordFailure cb t))"

text \<open>
  What the breaker promises, stated without pruning: the specification remembers every
  failure recorded since the breaker last closed, and trips when the number of those inside
  the window that ends now reaches the threshold.
\<close>

record cbSpec =
  sp_mode :: cbState
  sp_failures :: "time list"
  sp_successes :: int
  sp_probes :: int
  sp_until :: time

definition in_window :: "duration \<Rightarrow> time \<Rightarrow> time list \<Rightarrow> time list" where
  "in_window w now ts = filter (\<lambda>t. now - w \<le> t) ts"

definition cb_spec_step ::
    "int \<Rightarrow> int \<Rightarrow> duration \<Rightarrow> duration \<Rightarrow> cbSpec \<Rightarrow> cbEvent \<Rightarrow> bool \<times> cbSpec" where
  "cb_spec_step ft st od w sp e =
     (case e of
        EvAllow t \<Rightarrow>
          (case sp_mode sp of
             CbClosed \<Rightarrow> (True, sp)
           | CbOpen \<Rightarrow> if t > sp_until sp
                       then (True, sp\<lparr>sp_mode := CbHalfOpen, sp_successes := 0, sp_probes := 1\<rparr>)
                       else (False, sp)
           | CbHalfOpen \<Rightarrow> if sp_probes sp < st
                           then (True, sp\<lparr>sp_probes := sp_probes sp + 1\<rparr>) else (False, sp))
      | EvSuccess \<Rightarrow>
          (True, if sp_mode sp \<noteq> CbHalfOpen then sp
                 else if sp_successes sp + 1 \<ge> st
                 then sp\<lparr>sp_mode := CbClosed, sp_failures := [], sp_successes := sp_successes sp + 1\<rparr>
                 else sp\<lparr>sp_successes := sp_successes sp + 1\<rparr>)
      | EvFailure t \<Rightarrow>
          (True, case sp_mode sp of
             CbClosed \<Rightarrow>
               (let ts = sp_failures sp @ [t]
                in if int (length (in_window w t ts)) \<ge> ft
                   then sp\<lparr>sp_mode := CbOpen, sp_failures := ts, sp_until := t + od\<rparr>
                   else sp\<lparr>sp_failures := ts\<rparr>)
           | CbHalfOpen \<Rightarrow> sp\<lparr>sp_mode := CbOpen, sp_until := t + od\<rparr>
           | CbOpen \<Rightarrow> sp))"

definition cb_spec_init :: cbSpec where
  "cb_spec_init = \<lparr>sp_mode = CbClosed, sp_failures = [], sp_successes = 0, sp_probes = 0,
                   sp_until = zeroTime\<rparr>"

text \<open>The times the clock showed, in the order of the events, from a first reading on.\<close>

primrec event_time :: "time \<Rightarrow> cbEvent \<Rightarrow> time" where
  "event_time g (EvAllow t) = t"
| "event_time g EvSuccess = g"
| "event_time g (EvFailure t) = t"

primrec clock_monotone :: "time \<Rightarrow> cbEvent list \<Rightarrow> bool" where
  "clock_monotone g [] = True"
| "clock_monotone g (e # es) = (g \<le> event_time g e \<and> clock_monotone (event_time g e) es)"

text \<open>The invariant of the breaker.\<close>

definition cb_inv :: "circuitBreaker \<Rightarrow> bool" where
  "cb_inv cb \<longleftrightarrow>
     atomicState cb = cb_state cb \<and> 0 < windowDuration cb \<and>
     (cb_state cb = CbClosed \<longrightarrow>
        failureTimes cb = [] \<or> int (length (failureTimes cb)) < failureThreshold cb) \<and>
     (cb_state cb = CbHalfOpen \<longrightarrow>
        1 \<le> halfOpenProbes cb \<and> halfOpenProbes cb \<le> max 1 (successThreshold cb) \<and>
        0 \<le> successes cb \<and> (successes cb = 0 \<or> successes cb < successThreshold cb))"

text \<open>
  What pruning may have removed from the list of failures: only entries that were outside
  the window at some reading of the clock not later than \<open>g\<close>.
\<close>

definition pruned_upto :: "duration \<Rightarrow> time \<Rightarrow> time list \<Rightarrow> time list \<Rightarrow> bool" where
  "pruned_upto w g hist ts \<longleftrightarrow>
     sorted hist \<and> (\<forall>t \<in> set hist. t \<le> g) \<and> (\<exists>c \<le> g - w. ts = filter (\<lambda>t. c \<le> t) hist)"

definition cb_rel ::
    "int \<Rightarrow> int \<Rightarrow> duration \<Rightarrow> duration \<Rightarrow> time \<Rightarrow> circuitBreaker \<Rightarrow> cbSpec \<Rightarrow> bool" where
  "cb_rel ft st od w g cb sp \<longleftrightarrow>
     cb_inv cb \<and> failureThreshold cb = ft \<and> successThreshold cb = st \<and>
     openDuration cb = od \<and> windowDuration cb = w \<and>
     sp_mode sp = cb_state cb \<and>
     (cb_state cb = CbOpen \<longrightarrow> sp_until sp = openUntil cb) \<and>
     (cb_state cb = CbHalfOpen \<longrightarrow>
        sp_successes sp = successes cb \<and> sp_probes sp = halfOpenProbes cb) \<and>
     (cb_state cb = CbClosed \<longrightarrow> pruned_upto w g (sp_failures sp) (failureTimes cb))"

lemmas cb_op_defs =
  Allow_def Allow_locked_def RecordSuccess_def RecordSuccess_locked_def RecordFailure_def
  pruneWindow_def

lemma dropWhile_sorted_filter:
  "sorted (ts :: time list) \<Longrightarrow> dropWhile (\<lambda>t. t < c) ts = filter (\<lambda>t. c \<le> t) ts"
  by (induction ts) (auto simp: filter_id_conv intro!: filter_True [symmetric])

lemma cb_inv_new: "cb_inv (NewCircuitBreaker ft st od wd)"
  by (simp add: cb_inv_def NewCircuitBreaker_def Let_def)

lemma cb_inv_Allow [inv_intros]: "cb_inv cb \<Longrightarrow> cb_inv (snd (Allow cb t))"
  by (auto simp: cb_inv_def cb_op_defs split: cbState.splits)

lemma cb_inv_RecordSuccess [inv_intros]: "cb_inv cb \<Longrightarrow> cb_inv (RecordSuccess cb)"
  by (auto simp: cb_inv_def cb_op_defs Let_def split: cbState.splits)

lemma cb_inv_RecordFailure [inv_intros]: "cb_inv cb \<Longrightarrow> cb_inv (RecordFailure cb t)"
  by (auto simp: cb_inv_def cb_op_defs Let_def split: cbState.splits)

interpretation cb_machine: invariant_machine "\<lambda>cb e. snd (cb_step cb e)" cb_inv
  by unfold_locales (auto simp: cb_step_def inv_intros split: cbEvent.splits)


subsection \<open>The breaker implements its specification\<close>

lemma in_window_append: "in_window w t (ts @ [t]) = (if 0 \<le> w then in_window w t ts @ [t] else in_window w t ts)"
  by (simp add: in_window_def)

lemma pruned_upto_later: "pruned_upto w g hist ts \<Longrightarrow> g \<le> u \<Longrightarrow> pruned_upto w u hist ts"
  unfolding pruned_upto_def by (elim conjE exE, intro conjI exI) auto

lemma pruned_upto_Nil [simp]: "pruned_upto w g [] []"
  unfolding pruned_upto_def by auto

lemma pruned_upto_window:
  assumes "pruned_upto w g hist ts" and "g \<le> t"
  shows "dropWhile (\<lambda>u. u < t - w) ts = in_window w t hist"
proof -
  from assms obtain c where c: "c \<le> g - w" "ts = filter (\<lambda>t. c \<le> t) hist" and "sorted hist"
    by (auto simp: pruned_upto_def)
  then have "dropWhile (\<lambda>u. u < t - w) ts = filter (\<lambda>u. t - w \<le> u) ts"
    by (simp add: dropWhile_sorted_filter sorted_wrt_filter)
  also have "\<dots> = in_window w t hist"
    unfolding c(2) in_window_def filter_filter using c(1) assms(2) by (intro filter_cong) auto
  finally show ?thesis .
qed

lemma pruned_upto_snoc:
  assumes "pruned_upto w g hist ts" and "g \<le> t" and "0 < w"
  shows "pruned_upto w t (hist @ [t]) (in_window w t hist @ [t])"
proof -
  have "in_window w t hist @ [t] = filter (\<lambda>u. t - w \<le> u) (hist @ [t])"
    using assms(3) by (simp add: in_window_def)
  moreover have "sorted (hist @ [t])" and "\<forall>u \<in> set (hist @ [t]). u \<le> t"
    using assms by (auto simp: pruned_upto_def sorted_append)
  ultimately show ?thesis
    unfolding pruned_upto_def by blast
qed

lemma cb_rel_later: "cb_rel ft st od w g cb sp \<Longrightarrow> g \<le> u \<Longrightarrow> cb_rel ft st od w u cb sp"
  unfolding cb_rel_def using pruned_upto_later by blast

lemma cb_rel_Failure_closed:
  assumes rel: "cb_rel ft st od w g cb sp" and closed: "cb_state cb = CbClosed" and t: "g \<le> t"
  shows "cb_rel ft st od w t (RecordFailure cb t) (snd (cb_spec_step ft st od w sp (EvFailure t)))"
proof -
  from rel closed have pr: "pruned_upto w g (sp_failures sp) (failureTimes cb)"
    and w: "0 < w" "windowDuration cb = w" and inv: "cb_inv (RecordFailure cb t)"
    and cfg: "failureThreshold cb = ft" "successThreshold cb = st" "openDuration cb = od"
    and md: "sp_mode sp = CbClosed"
    by (auto simp: cb_rel_def cb_inv_def [of cb] intro: cb_inv_RecordFailure)
  have win: "dropWhile (\<lambda>u. u < t - w) (failureTimes cb) = in_window w t (sp_failures sp)"
    using pr t by (rule pruned_upto_window)
  have pr': "pruned_upto w t (sp_failures sp @ [t]) (in_window w t (sp_failures sp) @ [t])"
    using pr t w(1) by (rule pruned_upto_snoc)
  have eq: "RecordFailure cb t =
      (if ft \<le> int (length (in_window w t (sp_failures sp) @ [t]))
       then cb\<lparr>failureTimes := in_window w t (sp_failures sp) @ [t], cb_state := CbOpen,
               atomicState := CbOpen, openUntil := t + od, TripsTotal := TripsTotal cb + 1\<rparr>
       else cb\<lparr>failureTimes := in_window w t (sp_failures sp) @ [t]\<rparr>)"
    using closed cfg w by (simp add: RecordFailure_def pruneWindow_def Let_def win)
  show ?thesis
    using inv pr' w(1) unfolding eq
    by (cases "ft \<le> int (length (in_window w t (sp_failures sp) @ [t]))")
      (simp_all add: cb_rel_def cfg w(2) md closed cb_spec_step_def in_window_append Let_def)
qed

lemma cb_rel_Failure:
  assumes rel: "cb_rel ft st od w g cb sp" and t: "g \<le> t"
  shows "cb_rel ft st od w t (RecordFailure cb t) (snd (cb_spec_step ft st od w sp (EvFailure t)))"
proof (cases "cb_state cb = CbClosed")
  case True
  with assms show ?thesis by (intro cb_rel_Failure_closed)
next
  case False
  have "cb_inv (RecordFailure cb t)"
    using rel by (auto simp: cb_rel_def intro: cb_inv_RecordFailure)
  then show ?thesis
    using False cb_rel_later [OF assms]
    by (cases "cb_state cb") (simp_all add: cb_spec_step_def cb_rel_def RecordFailure_def)
qed

lemma cb_rel_Allow:
  assumes rel: "cb_rel ft st od w g cb sp" and t: "g \<le> t"
  shows "cb_rel ft st od w t (snd (Allow cb t)) (snd (cb_spec_step ft st od w sp (EvAllow t)))"
proof -
  have "cb_inv (snd (Allow cb t))" and "atomicState cb = cb_state cb"
    using rel by (auto simp: cb_rel_def cb_inv_def [of cb] intro: cb_inv_Allow)
  then show ?thesis
    using cb_rel_later [OF assms]
    by (cases "cb_state cb") (simp_all add: cb_spec_step_def cb_rel_def Allow_def Allow_locked_def)
qed

lemma cb_rel_Success:
  assumes rel: "cb_rel ft st od w g cb sp"
  shows "cb_rel ft st od w g (RecordSuccess cb) (snd (cb_spec_step ft st od w sp EvSuccess))"
proof -
  have "cb_inv (RecordSuccess cb)" and "atomicState cb = cb_state cb"
    using rel by (auto simp: cb_rel_def cb_inv_def [of cb] intro: cb_inv_RecordSuccess)
  then show ?thesis
    using rel
    by (cases "cb_state cb")
      (simp_all add: cb_spec_step_def cb_rel_def RecordSuccess_def RecordSuccess_locked_def Let_def)
qed

interpretation cb_sim: simulation cb_step "cb_spec_step ft st od w" "cb_rel ft st od w"
    "\<lambda>g e. g \<le> event_time g e" event_time for ft st od w
proof unfold_locales
  fix g cb sp e
  assume rel: "cb_rel ft st od w g cb sp" and t: "g \<le> event_time g e"
  show "fst (cb_step cb e) = fst (cb_spec_step ft st od w sp e)"
    using rel by (cases e; cases "cb_state cb")
      (simp_all add: cb_step_def cb_spec_step_def cb_rel_def cb_inv_def Allow_def Allow_locked_def)
  show "cb_rel ft st od w (event_time g e) (snd (cb_step cb e)) (snd (cb_spec_step ft st od w sp e))"
    using rel t by (cases e)
      (simp_all add: cb_step_def cb_rel_Allow cb_rel_Success cb_rel_Failure)
qed

lemma clock_monotone_admissible:
  "cb_sim.admissible_all g es = clock_monotone g es"
  by (induction es arbitrary: g) auto

lemma cb_rel_init:
  "cb_rel ft st od (if wd \<le> 0 then 30 * Second else wd) g (NewCircuitBreaker ft st od wd) cb_spec_init"
  using cb_inv_new [of ft st od wd]
  by (simp add: cb_rel_def NewCircuitBreaker_def cb_spec_init_def Let_def)

subsection \<open>Probing and recovery\<close>

lemma half_open_rejects:
  assumes "cb_inv cb" "cb_state cb = CbHalfOpen" "successThreshold cb \<le> halfOpenProbes cb"
  shows "run_out cb_step cb (map EvAllow ts) = (replicate (length ts) False, cb)"
proof (induction ts)
  case (Cons t ts)
  have "cb_step cb (EvAllow t) = (False, cb)"
    using assms by (simp add: cb_step_def cb_inv_def Allow_def Allow_locked_def)
  with Cons.IH show ?case by simp
qed simp

lemma half_open_admits:
  assumes "cb_inv cb" "cb_state cb = CbHalfOpen"
  shows "int (count_list (fst (run_out cb_step cb (map EvAllow ts))) True)
    \<le> max 0 (successThreshold cb - halfOpenProbes cb)"
  using assms
proof (induction ts arbitrary: cb)
  case (Cons t ts)
  show ?case
  proof (cases "halfOpenProbes cb < successThreshold cb")
    case True
    let ?cb = "cb\<lparr>halfOpenProbes := halfOpenProbes cb + 1\<rparr>"
    have st: "cb_step cb (EvAllow t) = (True, ?cb)"
      using Cons.prems True by (simp add: cb_step_def cb_inv_def Allow_def Allow_locked_def)
    have "cb_inv ?cb" using cb_inv_Allow [OF Cons.prems(1), of t] st by (simp add: cb_step_def)
    from Cons.IH [OF this] Cons.prems(2) True st show ?thesis
      by (simp add: split_beta Let_def)
  next
    case False
    then show ?thesis
      using half_open_rejects [OF Cons.prems, of "t # ts"] by (simp del: run_out.simps)
  qed
qed simp

lemma half_open_fills:
  assumes "cb_inv cb" "cb_state cb = CbHalfOpen" "halfOpenProbes cb + int k \<le> successThreshold cb"
  shows "snd (run_out cb_step cb (replicate k (EvAllow t))) =
    cb\<lparr>halfOpenProbes := halfOpenProbes cb + int k\<rparr>"
  using assms
proof (induction k arbitrary: cb)
  case (Suc k)
  let ?cb = "cb\<lparr>halfOpenProbes := halfOpenProbes cb + 1\<rparr>"
  have st: "cb_step cb (EvAllow t) = (True, ?cb)"
    using Suc.prems by (simp add: cb_step_def cb_inv_def Allow_def Allow_locked_def)
  have "cb_inv ?cb" using cb_inv_Allow [OF Suc.prems(1), of t] st by (simp add: cb_step_def)
  from Suc.IH [OF this] Suc.prems st show ?case by (simp add: split_beta Let_def)
qed simp

lemma breaker_reach_inv: "cb_inv (snd (run_out cb_step cb es))" if "cb_inv cb"
  using that by (induction es arbitrary: cb)
    (auto simp: split_beta Let_def intro: cb_machine.step_inv)

text \<open>
  C1. The sliding window. Over every run of calls on a fresh breaker whose clock never goes
  back, the answers of \<open>Allow\<close> and the final state are those of the specification that
  keeps the whole failure history: pruning the timestamps and the lock-free copy of the state
  change nothing that a client can see, and the breaker opens exactly when the failures inside
  the window reach the threshold.
\<close>

theorem breaker_refines_window_spec:
  fixes ft st :: int and od wd :: duration
  defines "w \<equiv> (if wd \<le> 0 then 30 * Second else wd)"
  assumes "clock_monotone g es"
  shows "fst (run_out cb_step (NewCircuitBreaker ft st od wd) es)
           = fst (run_out (cb_spec_step ft st od w) cb_spec_init es)
       \<and> cb_state (snd (run_out cb_step (NewCircuitBreaker ft st od wd) es))
           = sp_mode (snd (run_out (cb_spec_step ft st od w) cb_spec_init es))"
proof -
  have rel: "cb_rel ft st od w g (NewCircuitBreaker ft st od wd) cb_spec_init"
    unfolding w_def by (rule cb_rel_init)
  show ?thesis
    using cb_sim.sim_run [OF rel] assms(2) unfolding clock_monotone_admissible
    by (auto simp: cb_rel_def)
qed

theorem breaker_refines_window_spec_witness:
  "fst (run_out cb_step (NewCircuitBreaker 2 1 (5 * Second) Second)
     [EvFailure 0, EvFailure (3 * Second), EvAllow (3 * Second), EvFailure (3 * Second + 1),
      EvAllow (4 * Second), EvAllow (9 * Second)]) = [True, True, True, True, False, True]"
proof -
  have "clock_monotone 0 [EvFailure 0, EvFailure (3 * Second), EvAllow (3 * Second),
      EvFailure (3 * Second + 1), EvAllow (4 * Second), EvAllow (9 * Second)]"
    by simp
  from breaker_refines_window_spec [OF this, of 2 1 "5 * Second" Second] show ?thesis
    by (simp add: cb_spec_step_def cb_spec_init_def in_window_def)
qed

text \<open>
  C7. Probing is bounded. A breaker that is not closed, in any state that calls can reach,
  lets at most \<open>max 1 successThreshold\<close> requests through until the outcome of one of them
  is recorded, however many clients ask and whenever they ask.
\<close>

theorem breaker_probes_bounded:
  assumes "cb = snd (run_out cb_step (NewCircuitBreaker ft st od wd) es)"
    and "cb_state cb \<noteq> CbClosed"
  shows "int (count_list (fst (run_out cb_step cb (map EvAllow ts))) True) \<le> max 1 (successThreshold cb)"
proof (cases "cb_state cb")
  case CbHalfOpen
  have inv: "cb_inv cb" unfolding assms(1) by (intro breaker_reach_inv cb_inv_new)
  then have "1 \<le> halfOpenProbes cb" using CbHalfOpen by (simp add: cb_inv_def)
  with half_open_admits [OF inv CbHalfOpen, of ts] show ?thesis by linarith
next
  case CbOpen
  have inv: "cb_inv cb" unfolding assms(1) by (intro breaker_reach_inv cb_inv_new)
  then show ?thesis using CbOpen
  proof (induction ts)
    case (Cons t ts)
    let ?h = "cb\<lparr>cb_state := CbHalfOpen, atomicState := CbHalfOpen, successes := 0, halfOpenProbes := 1\<rparr>"
    show ?case
    proof (cases "openUntil cb < t")
      case True
      with Cons.prems have st: "cb_step cb (EvAllow t) = (True, ?h)"
        by (simp add: cb_step_def cb_inv_def Allow_def Allow_locked_def)
      have "cb_inv ?h" using cb_inv_Allow [OF Cons.prems(1), of t] st by (simp add: cb_step_def)
      from half_open_admits [OF this, of ts] st show ?thesis
        by (simp add: split_beta Let_def)
    next
      case False
      with Cons.prems have "cb_step cb (EvAllow t) = (False, cb)"
        by (simp add: cb_step_def cb_inv_def Allow_def Allow_locked_def)
      with Cons.IH [OF Cons.prems] show ?thesis by (simp add: split_beta Let_def)
    qed
  qed simp
qed (use assms in simp)

theorem breaker_probes_bounded_witness:
  "int (count_list (fst (run_out cb_step
      (snd (run_out cb_step (NewCircuitBreaker 1 2 Second Second) [EvFailure 0]))
      (map EvAllow [Second, Second + 1, Second + 2, Second + 3]))) True) \<le> 2"
  using breaker_probes_bounded [OF refl, of 1 2 Second Second "[EvFailure 0]"
      "[Second, Second + 1, Second + 2, Second + 3]"]
  by (simp add: cb_step_def cb_op_defs NewCircuitBreaker_def Let_def)



end
