(* ===== verification/GoStrings.thy ===== *)
theory GoStrings
  imports Prelude
begin

text \<open>
  The functions of Go's \<^verbatim>\<open>strings\<close>, \<^verbatim>\<open>strconv\<close> and \<^verbatim>\<open>net\<close>
  packages that the modelled code calls, on byte strings: a Go \<open>string\<close> is a list of bytes,
  and a \<open>char\<close> is a byte. \<open>TrimSpace\<close> knows the Unicode spaces by their UTF-8 encodings;
  \<open>ToLower\<close> maps the ASCII letters and the two code points above ASCII whose lower case is an
  ASCII letter (U+0130 and U+212A); the code compares its result with ASCII strings only.
\<close>

type_synonym bytes = "char list"

definition is_ascii_space :: "char \<Rightarrow> bool" where
  "is_ascii_space c \<longleftrightarrow>
     c = CHR '' '' \<or> c = CHR 0x09 \<or> c = CHR 0x0A \<or> c = CHR 0x0B \<or> c = CHR 0x0C \<or> c = CHR 0x0D"

text \<open>The code points above ASCII for which \<^verbatim>\<open>unicode.IsSpace\<close> holds, in UTF-8.\<close>

definition unicode_spaces :: "bytes list" where
  "unicode_spaces =
     [[CHR 0xC2, CHR 0x85], [CHR 0xC2, CHR 0xA0], [CHR 0xE1, CHR 0x9A, CHR 0x80],
      [CHR 0xE2, CHR 0x80, CHR 0x80], [CHR 0xE2, CHR 0x80, CHR 0x81], [CHR 0xE2, CHR 0x80, CHR 0x82],
      [CHR 0xE2, CHR 0x80, CHR 0x83], [CHR 0xE2, CHR 0x80, CHR 0x84], [CHR 0xE2, CHR 0x80, CHR 0x85],
      [CHR 0xE2, CHR 0x80, CHR 0x86], [CHR 0xE2, CHR 0x80, CHR 0x87], [CHR 0xE2, CHR 0x80, CHR 0x88],
      [CHR 0xE2, CHR 0x80, CHR 0x89], [CHR 0xE2, CHR 0x80, CHR 0x8A], [CHR 0xE2, CHR 0x80, CHR 0xA8],
      [CHR 0xE2, CHR 0x80, CHR 0xA9], [CHR 0xE2, CHR 0x80, CHR 0xAF], [CHR 0xE2, CHR 0x81, CHR 0x9F],
      [CHR 0xE3, CHR 0x80, CHR 0x80]]"

definition HasPrefix :: "string \<Rightarrow> string \<Rightarrow> bool" where
  "HasPrefix s p \<longleftrightarrow> take (length p) s = p"

definition HasSuffix :: "string \<Rightarrow> string \<Rightarrow> bool" where
  "HasSuffix s p \<longleftrightarrow> length p \<le> length s \<and> drop (length s - length p) s = p"

definition TrimPrefix :: "string \<Rightarrow> string \<Rightarrow> string" where
  "TrimPrefix s p = (if HasPrefix s p then drop (length p) s else s)"

definition TrimSuffix :: "string \<Rightarrow> string \<Rightarrow> string" where
  "TrimSuffix s p = (if HasSuffix s p then take (length s - length p) s else s)"

text \<open>How many bytes of space a string begins with: none, one, or the space's UTF-8 length.\<close>

definition space_prefix :: "bytes list \<Rightarrow> string \<Rightarrow> nat" where
  "space_prefix sps s =
     (case s of [] \<Rightarrow> 0
      | c # _ \<Rightarrow> if is_ascii_space c then 1
                else (case List.find (HasPrefix s) sps of None \<Rightarrow> 0 | Some p \<Rightarrow> length p))"

function trim_left_with :: "bytes list \<Rightarrow> string \<Rightarrow> string" where
  "trim_left_with sps s =
     (let n = space_prefix sps s in if n = 0 \<or> s = [] then s else trim_left_with sps (drop n s))"
  by pat_completeness auto
termination
  by (relation "measure (\<lambda>(sps, s). length s)") auto

definition TrimSpace :: "string \<Rightarrow> string" where
  "TrimSpace s = rev (trim_left_with (map rev unicode_spaces) (rev (trim_left_with unicode_spaces s)))"

fun ToLowerByte :: "char \<Rightarrow> char" where
  "ToLowerByte c = (let n = (of_char c :: nat) in if 65 \<le> n \<and> n \<le> 90 then char_of (n + 32) else c)"

fun ToLower :: "string \<Rightarrow> string" where
  "ToLower [] = []"
| "ToLower (c # s) =
     (if c = CHR 0xC4 \<and> take 1 s = [CHR 0xB0] then CHR ''i'' # ToLower (drop 1 s)
      else if c = CHR 0xE2 \<and> take 2 s = [CHR 0x84, CHR 0xAA] then CHR ''k'' # ToLower (drop 2 s)
      else ToLowerByte c # ToLower s)"

primrec Split :: "string \<Rightarrow> char \<Rightarrow> string list" where
  "Split [] sep = [[]]"
| "Split (c # cs) sep =
     (if c = sep then [] # Split cs sep
      else (case Split cs sep of [] \<Rightarrow> [[c]] | w # ws \<Rightarrow> (c # w) # ws))"

text \<open>The part before the first separator, and the part after it when there is one.\<close>

primrec Cut :: "string \<Rightarrow> char \<Rightarrow> string \<times> string option" where
  "Cut [] sep = ([], None)"
| "Cut (c # cs) sep =
     (if c = sep then ([], Some cs) else (let (w, rest) = Cut cs sep in (c # w, rest)))"

text \<open>\<open>SplitN s sep n\<close> for \<open>n > 0\<close>: at most \<open>n\<close> pieces, the last one unsplit.\<close>

fun SplitN :: "string \<Rightarrow> char \<Rightarrow> nat \<Rightarrow> string list" where
  "SplitN s sep 0 = []"
| "SplitN s sep (Suc 0) = [s]"
| "SplitN s sep (Suc (Suc n)) =
     (case Cut s sep of (w, None) \<Rightarrow> [w] | (w, Some rest) \<Rightarrow> w # SplitN rest sep (Suc n))"

primrec Join :: "string list \<Rightarrow> string \<Rightarrow> string" where
  "Join [] sep = []"
| "Join (w # ws) sep = (if ws = [] then w else w @ sep @ Join ws sep)"

fun IndexByte :: "string \<Rightarrow> char \<Rightarrow> nat option" where
  "IndexByte [] c = None"
| "IndexByte (x # xs) c = (if x = c then Some 0 else map_option Suc (IndexByte xs c))"

definition LastIndexByte :: "string \<Rightarrow> char \<Rightarrow> nat option" where
  "LastIndexByte s c = map_option (\<lambda>i. length s - Suc i) (IndexByte (rev s) c)"

text \<open>Decimal digits, \<^verbatim>\<open>strconv.Itoa\<close> and the verb \<^verbatim>\<open>%d\<close>.\<close>

definition digit_char :: "nat \<Rightarrow> char" where
  "digit_char d = char_of (48 + d)"

fun nat_digits :: "nat \<Rightarrow> string" where
  "nat_digits n = (if n < 10 then [digit_char n] else nat_digits (n div 10) @ [digit_char (n mod 10)])"

declare nat_digits.simps [simp del]

definition Itoa :: "int \<Rightarrow> string" where
  "Itoa i = (if i < 0 then ''-'' @ nat_digits (nat (- i)) else nat_digits (nat i))"

text \<open>The number that decimal digits denote.\<close>

definition digits_val :: "string \<Rightarrow> int" where
  "digits_val s = foldl (\<lambda>a c. 10 * a + (of_char c - 48)) 0 s"

text \<open>
  Big-endian encodings of \<^verbatim>\<open>encoding/binary\<close>: the bytes of a number, the most significant
  first, and the number of some bytes. \<open>int64\<close> wraps a number around to 64 signed bits.
\<close>

definition be_bytes :: "nat \<Rightarrow> int \<Rightarrow> bytes" where
  "be_bytes n x = map (\<lambda>i. char_of (x div 256 ^ (n - 1 - i))) [0..<n]"

definition be_uint :: "bytes \<Rightarrow> int" where
  "be_uint bs = foldl (\<lambda>a b. 256 * a + of_char b) 0 bs"

definition int64 :: "int \<Rightarrow> int" where
  "int64 x = (x + 2 ^ 63) mod 2 ^ 64 - 2 ^ 63"

text \<open>
  \<^verbatim>\<open>net.SplitHostPort\<close>: the host and the port of \<open>host:port\<close> or \<open>[host]:port\<close>,
  and \<open>None\<close> for each of its errors.
\<close>

definition SplitHostPort :: "string \<Rightarrow> (string \<times> string) option" where
  "SplitHostPort hp =
     (case LastIndexByte hp (CHR '':'') of
        None \<Rightarrow> None
      | Some i \<Rightarrow>
          (let port = drop (Suc i) hp
           in if HasPrefix hp ''['' then
                (case IndexByte hp (CHR '']'') of
                   None \<Rightarrow> None
                 | Some e \<Rightarrow>
                     if Suc e = length hp \<or> Suc e \<noteq> i then None
                     else if CHR ''['' \<in> set (drop 1 hp) \<or> CHR '']'' \<in> set (drop (Suc e) hp) then None
                     else Some (take (e - 1) (drop 1 hp), port))
              else if CHR '':'' \<in> set (take i hp) \<or> CHR ''['' \<in> set hp \<or> CHR '']'' \<in> set hp then None
              else Some (take i hp, port)))"

lemma be_bytes_Suc: "be_bytes (Suc n) x = be_bytes n (x div 256) @ [char_of x]"
proof -
  have "char_of (x div 256 ^ (n - i)) = (char_of (x div 256 div 256 ^ (n - 1 - i)) :: char)" if "i < n" for i
  proof -
    have "256 ^ (n - i) = (256 :: int) * 256 ^ (n - 1 - i)"
      using that by (metis Suc_diff_Suc diff_Suc_eq_diff_pred power_Suc minus_nat.diff_0 diff_commute)
    then show ?thesis by (simp add: zdiv_zmult2_eq)
  qed
  then show ?thesis by (simp add: be_bytes_def)
qed

lemma be_uint_snoc: "be_uint (bs @ [b]) = 256 * be_uint bs + of_char b"
  by (simp add: be_uint_def)

lemma be_roundtrip: "be_uint (be_bytes n x) = x mod 256 ^ n"
proof (induction n arbitrary: x)
  case (Suc n)
  then show ?case by (simp add: be_bytes_Suc be_uint_snoc zmod_zmult2_eq)
qed (simp add: be_bytes_def be_uint_def)

lemma length_be_bytes [simp]: "length (be_bytes n x) = n"
  by (simp add: be_bytes_def)

lemma int64_id: "- (2 ^ 63) \<le> x \<Longrightarrow> x < 2 ^ 63 \<Longrightarrow> int64 x = x"
  by (simp add: int64_def)

lemma int64_mod [simp]: "int64 (x mod 18446744073709551616) = int64 x"
  by (simp add: int64_def mod_simps)

lemma digit_char_props:
  "d < 10 \<Longrightarrow> of_char (digit_char d) = (48 + d :: nat)" "d < 10 \<Longrightarrow> of_char (digit_char d) = (48 + int d)"
proof -
  assume "d < 10"
  then show n: "of_char (digit_char d) = (48 + d :: nat)"
    by (simp add: digit_char_def)
  show "of_char (digit_char d) = (48 + int d)"
    by (simp only: of_nat_of_char [symmetric, of "digit_char d", where 'a = int] n of_nat_add of_nat_numeral)
qed

lemma nat_digits_nonempty [simp]: "nat_digits n \<noteq> []"
  by (subst nat_digits.simps) simp

lemma nat_digits_digits: "c \<in> set (nat_digits n) \<Longrightarrow> of_char c \<in> {48..57 :: nat}"
proof (induction n rule: nat_digits.induct)
  case (1 n)
  then show ?case
    by (cases "n < 10") (simp_all add: nat_digits.simps [of n] digit_char_props, auto simp: digit_char_props)
qed

lemma digits_val_snoc: "digits_val (s @ [c]) = 10 * digits_val s + (of_char c - 48)"
  by (simp add: digits_val_def)

lemma digits_val_nat_digits [simp]: "digits_val (nat_digits n) = int n"
proof (induction n rule: nat_digits.induct)
  case (1 n)
  show ?case
  proof (cases "n < 10")
    case True
    then show ?thesis by (simp add: nat_digits.simps [of n] digits_val_def digit_char_props)
  next
    case False
    with 1 show ?thesis
      by (simp add: nat_digits.simps [of n] digits_val_snoc digit_char_props zdiv_int zmod_int)
  qed
qed

lemma Itoa_inj: "Itoa a = Itoa b \<Longrightarrow> a = b"
proof -
  have hd: "hd (nat_digits n) \<noteq> CHR ''-''" for n
    using nat_digits_digits [of "hd (nat_digits n)" n] by (auto dest: arg_cong [where f = "of_char :: char \<Rightarrow> nat"])
  assume "Itoa a = Itoa b"
  moreover have "CHR ''-'' # s \<noteq> nat_digits n" "nat_digits n \<noteq> CHR ''-'' # s" for s n using hd [of n] by (metis list.sel(1))+
  ultimately have "(a < 0) = (b < 0) \<and> nat_digits (nat \<bar>a\<bar>) = nat_digits (nat \<bar>b\<bar>)"
    by (auto simp: Itoa_def split: if_splits)
  then show "a = b"
    using digits_val_nat_digits [of "nat \<bar>a\<bar>"] by auto
qed

end
