(* ===== verification/RateLimiter.thy ===== *)
theory RateLimiter
  imports GoStrings Complex_Main
begin

text \<open>
  The request limiter, \<^verbatim>\<open>internal/middleware/ratelimiter.go\<close>: a token bucket per client
  and a counter of the requests in flight.

  The \<open>sync.Map\<close> of buckets is a map, and a bucket's \<open>float64\<close> fields are exact rationals:
  the model has no rounding. A handler's two readings of the clock are one argument. The
  operations on the buckets are critical sections of the bucket's mutex; the two atomic additions
  of \<open>AcquireConcurrent\<close> are separate steps of the relation \<open>acq_step\<close>, because other
  requests run between them.
\<close>

record tokenBucket =
  tokens :: rat
  lastTime :: time
  rate :: rat
  bk_burstSize :: int

record rateLimiter =
  clients :: "string \<rightharpoonup> tokenBucket"
  maxConcurrent :: int
  active :: int
  ratePerSecond :: rat
  rl_burstSize :: int
  cleanupInterval :: duration
  staleAfter :: duration
  RejectedTotal :: int
  ThrottledTotal :: int

definition rateLimiterCleanupInterval :: duration where
  "rateLimiterCleanupInterval = 5 * Minute"

definition rateLimiterStaleAfter :: duration where
  "rateLimiterStaleAfter = 10 * Minute"

definition NewRateLimiter :: "int \<Rightarrow> rat \<Rightarrow> int \<Rightarrow> rateLimiter" where
  "NewRateLimiter mc rps burst =
     \<lparr>clients = Map.empty, maxConcurrent = mc, active = 0, ratePerSecond = rps,
      rl_burstSize = burst, cleanupInterval = rateLimiterCleanupInterval,
      staleAfter = rateLimiterStaleAfter, RejectedTotal = 0, ThrottledTotal = 0\<rparr>"

definition AcquireConcurrent :: "rateLimiter \<Rightarrow> bool \<times> rateLimiter" where
  "AcquireConcurrent rl =
     (if maxConcurrent rl \<le> 0 then (True, rl)
      else let rl1 = rl\<lparr>active := active rl + 1\<rparr>
           in if active rl1 > maxConcurrent rl1
              then (False, rl1\<lparr>active := active rl1 - 1, ThrottledTotal := ThrottledTotal rl1 + 1\<rparr>)
              else (True, rl1))"

definition ReleaseConcurrent :: "rateLimiter \<Rightarrow> rateLimiter" where
  "ReleaseConcurrent rl = rl\<lparr>active := active rl - 1\<rparr>"

definition seconds :: "duration \<Rightarrow> rat" where
  "seconds d = of_int d / of_int Second"

text \<open>The bucket part of \<open>AllowClient\<close>: refill, cap, and take one token if there is one.\<close>

definition takeToken :: "tokenBucket \<Rightarrow> time \<Rightarrow> bool \<times> tokenBucket" where
  "takeToken b now =
     (let t1 = tokens b + seconds (now - lastTime b) * rate b;
          t2 = (if t1 > of_int (bk_burstSize b) then of_int (bk_burstSize b) else t1);
          b1 = b\<lparr>tokens := t2, lastTime := now\<rparr>
      in if t2 < 1 then (False, b1) else (True, b1\<lparr>tokens := t2 - 1\<rparr>))"

definition newBucket :: "rateLimiter \<Rightarrow> time \<Rightarrow> tokenBucket" where
  "newBucket rl now =
     \<lparr>tokens = of_int (rl_burstSize rl), lastTime = now, rate = ratePerSecond rl,
      bk_burstSize = rl_burstSize rl\<rparr>"

definition AllowClient :: "rateLimiter \<Rightarrow> string \<Rightarrow> time \<Rightarrow> bool \<times> rateLimiter" where
  "AllowClient rl clientID now =
     (if ratePerSecond rl \<le> 0 then (True, rl)
      else let bucket = (case clients rl clientID of Some b \<Rightarrow> b | None \<Rightarrow> newBucket rl now);
               (ok, bucket1) = takeToken bucket now;
               rl1 = rl\<lparr>clients := (clients rl)(clientID \<mapsto> bucket1)\<rparr>
           in if ok then (True, rl1) else (False, rl1\<lparr>RejectedTotal := RejectedTotal rl1 + 1\<rparr>))"

definition ClientID :: "string \<Rightarrow> string" where
  "ClientID remoteAddr = (case SplitHostPort remoteAddr of Some (host, _) \<Rightarrow> host | None \<Rightarrow> remoteAddr)"

text \<open>
  \<open>Middleware\<close>: what a request meets before the wrapped handler runs, and what runs after it.
  The result is the status and body the middleware answers with, or that the handler is called.
\<close>

datatype mwResult = CallNext | Reply int string

definition Middleware_enter :: "rateLimiter \<Rightarrow> string \<Rightarrow> time \<Rightarrow> mwResult \<times> rateLimiter" where
  "Middleware_enter rl remoteAddr now =
     (if maxConcurrent rl \<le> 0 \<and> ratePerSecond rl \<le> 0 then (CallNext, rl)
      else let (ok, rl1) = AllowClient rl (ClientID remoteAddr) now
           in if \<not> ok then (Reply 429 ''{\"status\":\"error\",\"error\":\"rate limit exceeded\"}'', rl1)
              else let (got, rl2) = AcquireConcurrent rl1
                   in if \<not> got
                      then (Reply 503 ''{\"status\":\"error\",\"error\":\"too many concurrent queries\"}'', rl2)
                      else (CallNext, rl2))"

definition Middleware_leave :: "rateLimiter \<Rightarrow> rateLimiter" where
  "Middleware_leave rl =
     (if maxConcurrent rl \<le> 0 \<and> ratePerSecond rl \<le> 0 then rl else ReleaseConcurrent rl)"

text \<open>One tick of \<open>cleanupStaleClients\<close>.\<close>

definition cleanupStaleClients :: "rateLimiter \<Rightarrow> time \<Rightarrow> rateLimiter" where
  "cleanupStaleClients rl now =
     (let cutoff = now - staleAfter rl
      in rl\<lparr>clients := (\<lambda>k. case clients rl k of
            None \<Rightarrow> None | Some b \<Rightarrow> if lastTime b < cutoff then None else Some b)\<rparr>)"

text \<open>The limiter as a machine; the output of a step is whether a request was admitted.\<close>

datatype rlEvent = EvRequest string time | EvCleanup time

definition rl_step :: "rateLimiter \<Rightarrow> rlEvent \<Rightarrow> bool \<times> rateLimiter" where
  "rl_step rl e = (case e of
      EvRequest c t \<Rightarrow> AllowClient rl c t | EvCleanup t \<Rightarrow> (False, cleanupStaleClients rl t))"

primrec rl_time :: "rlEvent \<Rightarrow> time" where
  "rl_time (EvRequest c t) = t"
| "rl_time (EvCleanup t) = t"

text \<open>How many requests of one client a run admitted.\<close>

fun admitted :: "string \<Rightarrow> rlEvent list \<Rightarrow> bool list \<Rightarrow> nat" where
  "admitted c (EvRequest d t # es) (ok # oks) = (if c = d \<and> ok then 1 else 0) + admitted c es oks"
| "admitted c (EvCleanup t # es) (ok # oks) = admitted c es oks"
| "admitted c es oks = 0"

text \<open>
  The credit of a client at a time: the tokens its bucket would hold after a refill, and a full
  bucket for a client that has none.
\<close>

definition credit :: "rateLimiter \<Rightarrow> string \<Rightarrow> time \<Rightarrow> rat" where
  "credit rl c now =
     (case clients rl c of
        None \<Rightarrow> of_int (rl_burstSize rl)
      | Some b \<Rightarrow> min (of_int (rl_burstSize rl)) (tokens b + seconds (now - lastTime b) * ratePerSecond rl))"

definition rl_inv :: "rateLimiter \<Rightarrow> time \<Rightarrow> bool" where
  "rl_inv rl now \<longleftrightarrow>
     0 < ratePerSecond rl \<and> 0 \<le> rl_burstSize rl \<and>
     (\<forall>c b. clients rl c = Some b \<longrightarrow>
        rate b = ratePerSecond rl \<and> bk_burstSize b = rl_burstSize rl \<and> lastTime b \<le> now \<and>
        0 \<le> tokens b \<and> tokens b \<le> of_int (rl_burstSize rl))"

text \<open>
  The concurrency counter under interleaving. A request inside \<open>AcquireConcurrent\<close> has added
  one to \<open>active\<close> and holds the value it saw; it has not yet compared it with the limit.
\<close>

record acqState =
  aq_active :: int
  aq_pending :: "int list"
  aq_holders :: nat

inductive acq_step :: "int \<Rightarrow> acqState \<Rightarrow> acqState \<Rightarrow> bool" for maxc where
  acq_add: "acq_step maxc s
     (s\<lparr>aq_active := aq_active s + 1, aq_pending := (aq_active s + 1) # aq_pending s\<rparr>)"
| acq_reject: "aq_pending s = xs @ cur # ys \<Longrightarrow> cur > maxc \<Longrightarrow>
     acq_step maxc s (s\<lparr>aq_active := aq_active s - 1, aq_pending := xs @ ys\<rparr>)"
| acq_accept: "aq_pending s = xs @ cur # ys \<Longrightarrow> \<not> cur > maxc \<Longrightarrow>
     acq_step maxc s (s\<lparr>aq_pending := xs @ ys, aq_holders := Suc (aq_holders s)\<rparr>)"
| acq_release: "aq_holders s = Suc n \<Longrightarrow>
     acq_step maxc s (s\<lparr>aq_active := aq_active s - 1, aq_holders := n\<rparr>)"

inductive acq_reach :: "int \<Rightarrow> acqState \<Rightarrow> bool" for maxc where
  acq_start: "acq_reach maxc \<lparr>aq_active = 0, aq_pending = [], aq_holders = 0\<rparr>"
| acq_next: "acq_reach maxc s \<Longrightarrow> acq_step maxc s t \<Longrightarrow> acq_reach maxc t"

definition acq_inv :: "int \<Rightarrow> acqState \<Rightarrow> bool" where
  "acq_inv maxc s \<longleftrightarrow>
     aq_active s = int (aq_holders s) + int (length (aq_pending s)) \<and>
     int (aq_holders s) + int (length (filter (\<lambda>c. c \<le> maxc) (aq_pending s))) \<le> maxc"

lemma seconds_simps [simp]: "seconds 0 = 0" "seconds (a + b) = seconds a + seconds b"
  "seconds (a - b) = seconds a - seconds b"
  by (simp_all add: seconds_def add_divide_distrib diff_divide_distrib)

lemma seconds_mono: "a \<le> b \<Longrightarrow> seconds a \<le> seconds b"
  by (simp add: seconds_def divide_right_mono)

lemma acq_step_inv: "acq_step maxc s t \<Longrightarrow> acq_inv maxc s \<Longrightarrow> acq_inv maxc t"
proof (induction rule: acq_step.induct)
  case (acq_add s)
  define k where "k = length (filter (\<lambda>c. c \<le> maxc) (aq_pending s))"
  have "k \<le> length (aq_pending s)" unfolding k_def by (rule length_filter_le)
  with acq_add show ?case by (auto simp: acq_inv_def simp flip: k_def)
qed (auto simp: acq_inv_def)

lemma acq_reach_inv: "acq_reach maxc s \<Longrightarrow> 0 \<le> maxc \<Longrightarrow> acq_inv maxc s"
  by (induction rule: acq_reach.induct) (auto simp: acq_inv_def [of _ "\<lparr>aq_active = 0, aq_pending = [], aq_holders = 0\<rparr>"] intro: acq_step_inv)

subsection \<open>Token buckets\<close>

lemma takeToken_spec:
  assumes "takeToken b now = (ok, b1)" "rate b = r" "bk_burstSize b = n" "0 \<le> r" "0 \<le> n"
    "lastTime b \<le> now" "0 \<le> tokens b" "tokens b \<le> of_int n"
  shows "rate b1 = r" "bk_burstSize b1 = n" "lastTime b1 = now" "0 \<le> tokens b1" "tokens b1 \<le> of_int n"
    and "tokens b1 + (if ok then 1 else 0) = min (of_int n) (tokens b + seconds (now - lastTime b) * r)"
proof -
  have "0 \<le> seconds (now - lastTime b) * r"
    using assms(4,6) seconds_mono [of "lastTime b" now] by simp
  with assms show "rate b1 = r" "bk_burstSize b1 = n" "lastTime b1 = now" "0 \<le> tokens b1"
    "tokens b1 \<le> of_int n"
    "tokens b1 + (if ok then 1 else 0) = min (of_int n) (tokens b + seconds (now - lastTime b) * r)"
    by (auto simp: takeToken_def Let_def min_def split: if_splits)
qed

lemma rl_inv_later: "rl_inv rl g \<Longrightarrow> g \<le> t \<Longrightarrow> rl_inv rl t"
  unfolding rl_inv_def by (meson order_trans)

lemma rl_inv_bucket:
  assumes "rl_inv rl g" "g \<le> t" "b = (case clients rl c of Some b \<Rightarrow> b | None \<Rightarrow> newBucket rl t)"
  shows "rate b = ratePerSecond rl" "bk_burstSize b = rl_burstSize rl" "lastTime b \<le> t"
    "0 \<le> tokens b" "tokens b \<le> of_int (rl_burstSize rl)"
    "credit rl c t = min (of_int (rl_burstSize rl)) (tokens b + seconds (t - lastTime b) * ratePerSecond rl)"
  using rl_inv_later [OF assms(1,2)] assms(3)
  by (auto simp: rl_inv_def newBucket_def credit_def split: option.splits)

lemma AllowClient_credit:
  assumes inv: "rl_inv rl g" and t: "g \<le> t" and st: "AllowClient rl d t = (ok, rl1)"
  shows "rl_inv rl1 t" and "ratePerSecond rl1 = ratePerSecond rl" "rl_burstSize rl1 = rl_burstSize rl"
    "staleAfter rl1 = staleAfter rl"
    and "credit rl1 c t + (if c = d \<and> ok then 1 else 0) = credit rl c t"
proof -
  let ?b = "case clients rl d of Some b \<Rightarrow> b | None \<Rightarrow> newBucket rl t"
  obtain b1 where b1: "takeToken ?b t = (ok, b1)" and rl1: "clients rl1 = (clients rl)(d \<mapsto> b1)"
    and cfg: "ratePerSecond rl1 = ratePerSecond rl" "rl_burstSize rl1 = rl_burstSize rl" "staleAfter rl1 = staleAfter rl"
    using st inv by (auto simp: AllowClient_def rl_inv_def Let_def split: prod.splits if_splits)
  note bk = rl_inv_bucket [OF inv t refl, of d]
  have pos: "0 \<le> ratePerSecond rl" "0 \<le> rl_burstSize rl" using inv by (auto simp: rl_inv_def)
  note tk = takeToken_spec [OF b1 bk(1,2) pos bk(3-5)]
  show "ratePerSecond rl1 = ratePerSecond rl" "rl_burstSize rl1 = rl_burstSize rl" "staleAfter rl1 = staleAfter rl"
    by (fact cfg)+
  show "rl_inv rl1 t"
    unfolding rl_inv_def cfg rl1 using rl_inv_later [OF inv t] tk by (auto simp: rl_inv_def)
  show "credit rl1 c t + (if c = d \<and> ok then 1 else 0) = credit rl c t"
  proof (cases "c = d")
    case True
    then have "credit rl1 c t = tokens b1"
      using tk(3,5) by (simp add: credit_def rl1 cfg min_def)
    with True tk(6) bk(6) show ?thesis by simp
  next
    case False
    then show ?thesis by (simp add: credit_def rl1 cfg split: option.split)
  qed
qed

lemma cleanup_credit:
  assumes inv: "rl_inv rl g" and t: "g \<le> t"
    and refill: "of_int (rl_burstSize rl) \<le> seconds (staleAfter rl) * ratePerSecond rl"
  shows "rl_inv (cleanupStaleClients rl t) t" "credit (cleanupStaleClients rl t) c t = credit rl c t"
proof -
  show "rl_inv (cleanupStaleClients rl t) t"
    using rl_inv_later [OF inv t]
    by (auto simp: rl_inv_def cleanupStaleClients_def Let_def split: option.splits if_splits)
  show "credit (cleanupStaleClients rl t) c t = credit rl c t"
  proof (cases "clients rl c")
    case (Some b)
    show ?thesis
    proof (cases "lastTime b < t - staleAfter rl")
      case True
      then have "staleAfter rl \<le> t - lastTime b" by simp
      then have "seconds (staleAfter rl) * ratePerSecond rl \<le> seconds (t - lastTime b) * ratePerSecond rl"
        using inv by (intro mult_right_mono seconds_mono) (auto simp: rl_inv_def)
      moreover have "0 \<le> tokens b" using inv Some by (auto simp: rl_inv_def)
      ultimately have "of_int (rl_burstSize rl) \<le> tokens b + seconds (t - lastTime b) * ratePerSecond rl"
        using refill by linarith
      with True Some show ?thesis
        by (simp add: credit_def cleanupStaleClients_def Let_def min_def)
    qed (simp add: Some credit_def cleanupStaleClients_def Let_def)
  qed (simp add: credit_def cleanupStaleClients_def Let_def)
qed

lemma credit_refill:
  assumes "rl_inv rl g" "g \<le> t"
  shows "credit rl c t \<le> credit rl c g + ratePerSecond rl * seconds (t - g)"
    and "credit rl c t \<le> of_int (rl_burstSize rl)" and "0 \<le> credit rl c t"
proof -
  have r: "0 \<le> ratePerSecond rl * seconds (t - g)"
    using assms seconds_mono [of g t] by (simp add: rl_inv_def)
  show "credit rl c t \<le> credit rl c g + ratePerSecond rl * seconds (t - g)"
    using r by (auto simp: credit_def min_def algebra_simps split: option.splits)
  show "credit rl c t \<le> of_int (rl_burstSize rl)"
    by (simp add: credit_def split: option.splits)
  show "0 \<le> credit rl c t"
  proof (cases "clients rl c")
    case (Some b)
    with assms have "0 \<le> tokens b" "lastTime b \<le> t" "0 \<le> ratePerSecond rl" "0 \<le> rl_burstSize rl"
      using rl_inv_later [OF assms] by (auto simp: rl_inv_def)
    with Some seconds_mono [of "lastTime b" t] show ?thesis by (simp add: credit_def)
  qed (use assms in \<open>simp add: credit_def rl_inv_def\<close>)
qed

definition same_config :: "rateLimiter \<Rightarrow> rateLimiter \<Rightarrow> bool" where
  "same_config rl1 rl \<longleftrightarrow> ratePerSecond rl1 = ratePerSecond rl \<and>
     rl_burstSize rl1 = rl_burstSize rl \<and> staleAfter rl1 = staleAfter rl"

text \<open>A stale bucket would be full again: then removing it gives its client no extra tokens.\<close>

definition refills_when_stale :: "rateLimiter \<Rightarrow> bool" where
  "refills_when_stale rl \<longleftrightarrow> of_int (rl_burstSize rl) \<le> seconds (staleAfter rl) * ratePerSecond rl"

lemma rl_step_credit:
  assumes inv: "rl_inv rl g" and t: "g \<le> rl_time e" and refill: "refills_when_stale rl"
    and st: "rl_step rl e = (ok, rl1)"
  shows "rl_inv rl1 (rl_time e) \<and> same_config rl1 rl \<and>
    of_nat (admitted c [e] [ok]) + credit rl1 c (rl_time e) = credit rl c (rl_time e)"
proof (cases e)
  case (EvRequest d u)
  with AllowClient_credit(1-4) [OF inv, of u d ok rl1] AllowClient_credit(5) [OF inv, of u d ok rl1 c] t st
  show ?thesis
    by (auto simp: rl_step_def same_config_def)
next
  case (EvCleanup u)
  moreover have "same_config (cleanupStaleClients rl u) rl"
    by (simp add: same_config_def cleanupStaleClients_def Let_def)
  ultimately show ?thesis
    using cleanup_credit [OF inv _ refill [unfolded refills_when_stale_def], of u] t st
    by (auto simp: rl_step_def)
qed

lemma admitted_Cons: "admitted c (e # es) (ok # oks) = admitted c [e] [ok] + admitted c es oks"
  by (cases e) auto

lemma rl_run_credit:
  assumes "rl_inv rl g" and "sorted (g # map rl_time es)" and "refills_when_stale rl"
  shows "of_nat (admitted c es (fst (run_out rl_step rl es)))
      \<le> credit rl c g + ratePerSecond rl * seconds (last (g # map rl_time es) - g)
    \<and> rl_inv (snd (run_out rl_step rl es)) (last (g # map rl_time es))
    \<and> same_config (snd (run_out rl_step rl es)) rl"
  using assms
proof (induction es arbitrary: rl g)
  case Nil
  then show ?case using credit_refill(3) [of rl g g] by (simp add: same_config_def)
next
  case (Cons e es)
  obtain ok rl1 where st: "rl_step rl e = (ok, rl1)" by fastforce
  have split: "run_out rl_step rl (e # es) = (ok # fst (run_out rl_step rl1 es), snd (run_out rl_step rl1 es))"
    using st by (simp add: split_beta Let_def)
  from Cons.prems have t: "g \<le> rl_time e" and srt: "sorted (rl_time e # map rl_time es)" by auto
  from rl_step_credit [OF Cons.prems(1) t Cons.prems(3) st, of c]
  have s: "rl_inv rl1 (rl_time e)" "same_config rl1 rl" "refills_when_stale rl1"
    and cr: "of_nat (admitted c [e] [ok]) + credit rl1 c (rl_time e) = credit rl c (rl_time e)"
    using Cons.prems(3) by (auto simp: same_config_def refills_when_stale_def)
  from Cons.IH [OF s(1) srt s(3)] s(2) cr credit_refill(1) [OF Cons.prems(1) t, of c]
  show ?case unfolding split
    by (auto simp: admitted_Cons [of c e es] same_config_def algebra_simps)
qed

lemma sorted_split_last:
  "sorted (xs @ y # ys) \<Longrightarrow>
    sorted (hd (xs @ [y]) # xs) \<and> last (hd (xs @ [y]) # xs) \<le> (y :: time) \<and> sorted (y # ys)"
  by (cases xs) (simp_all add: sorted_append)

lemma rl_inv_new: "0 < rps \<Longrightarrow> 0 \<le> burst \<Longrightarrow> rl_inv (NewRateLimiter mc rps burst) g"
  by (simp add: rl_inv_def NewRateLimiter_def)



text \<open>
  C10. The concurrency limit under every interleaving. However the additions, comparisons and
  releases of concurrent requests interleave, no more than \<open>maxConcurrent\<close> requests hold a
  slot, and the counter is exactly the holders plus the requests that are between their addition
  and their comparison.
\<close>

theorem concurrency_limit_holds:
  assumes "acq_reach maxc s" and "0 < maxc"
  shows "int (aq_holders s) \<le> maxc \<and> aq_active s = int (aq_holders s) + int (length (aq_pending s))"
  using acq_reach_inv [OF assms(1)] assms(2) by (simp add: acq_inv_def)

theorem concurrency_limit_holds_witness:
  "int (aq_holders \<lparr>aq_active = 2, aq_pending = [2], aq_holders = 1\<rparr>) \<le> 1"
proof -
  have "acq_reach 1 \<lparr>aq_active = 1, aq_pending = [1], aq_holders = 0\<rparr>"
    using acq_next [OF acq_start acq_add, of 1] by simp
  then have "acq_reach 1 \<lparr>aq_active = 1, aq_pending = [], aq_holders = 1\<rparr>"
    using acq_next [OF _ acq_accept [of _ "[]" 1 "[]"]] by fastforce
  then have "acq_reach 1 \<lparr>aq_active = 2, aq_pending = [2], aq_holders = 1\<rparr>"
    using acq_next [OF _ acq_add] by fastforce
  from concurrency_limit_holds [OF this] show ?thesis by simp
qed

text \<open>
  C11. The slot counter and \<open>Middleware\<close>. A request that the middleware lets through and that
  then finishes leaves the counter as it found it when a concurrency limit is set. With a rate
  limit only, \<open>AcquireConcurrent\<close> does not count but the deferred \<open>ReleaseConcurrent\<close>
  does, and each request lowers the counter by one for good.
\<close>

theorem middleware_counter_balance:
  assumes "Middleware_enter rl addr now = (CallNext, rl1)"
  shows "active (Middleware_leave rl1) =
    (if 0 < maxConcurrent rl \<or> ratePerSecond rl \<le> 0 then active rl else active rl - 1)"
proof -
  have "active rl1 = active rl" "maxConcurrent rl1 = maxConcurrent rl" "ratePerSecond rl1 = ratePerSecond rl"
    if "AllowClient rl c t = (ok, rl1)" for c t ok rl1
    using that by (auto simp: AllowClient_def Let_def split: if_splits prod.splits)
  with assms show ?thesis
    by (fastforce simp: Middleware_enter_def Middleware_leave_def AcquireConcurrent_def
        ReleaseConcurrent_def Let_def split: if_splits prod.splits)
qed

theorem middleware_counter_balance_witness:
  "active (Middleware_leave (snd (Middleware_enter (NewRateLimiter 0 1 1) ''10.0.1.42:5678'' 0))) = -1"
proof -
  have "Middleware_enter (NewRateLimiter 0 1 1) ''10.0.1.42:5678'' 0 =
      (CallNext, snd (Middleware_enter (NewRateLimiter 0 1 1) ''10.0.1.42:5678'' 0))"
    by (simp add: Middleware_enter_def AllowClient_def NewRateLimiter_def takeToken_def newBucket_def
        AcquireConcurrent_def Let_def)
  from middleware_counter_balance [OF this] show ?thesis by (simp add: NewRateLimiter_def)
qed

end

