(* ===== verification/Coalescer.thy ===== *)
theory Coalescer
  imports CircuitBreaker GoStrings
begin

text \<open>
  The request coalescer, \<^verbatim>\<open>internal/middleware/coalescer.go\<close>.

  \<open>DoWithGuard\<close> is modelled by its critical sections: \<open>DoWithGuard_enter\<close> up to the
  first unlock of \<open>inflightMu\<close>, and \<open>DoWithGuard_leave\<close> after \<open>Do\<close> has returned.
  \<open>Do\<close> itself is the \<open>singleflight\<close> group of \<^verbatim>\<open>golang.org/x/sync\<close>, which
  is not part of the repository: the model takes its operations as the arguments \<open>sf_join\<close>
  (does a caller become the one that runs the function?) and \<open>sf_done\<close> (that caller's
  function has returned), and \<open>singleflight_ok\<close> is what its documentation promises.
\<close>

datatype doError = ErrGuardRejected | ErrTooLarge nat | ErrBackend string

record coalescer =
  inflight :: "string \<rightharpoonup> int"
  disabled :: bool
  ActiveShared :: int
  CoalescedTotal :: int

definition NewCoalescer :: coalescer where
  "NewCoalescer = \<lparr>inflight = Map.empty, disabled = False, ActiveShared = 0, CoalescedTotal = 0\<rparr>"

definition NewCoalescerDisabled :: coalescer where
  "NewCoalescerDisabled = \<lparr>inflight = Map.empty, disabled = True, ActiveShared = 0, CoalescedTotal = 0\<rparr>"

text \<open>\<open>readBodyPooled\<close> on the bytes that the reader delivers: it reads one byte past the limit.\<close>

definition readBodyPooled :: "bytes \<Rightarrow> nat \<Rightarrow> doError + bytes" where
  "readBodyPooled r limit =
     (let buf = take (limit + 1) r
      in if length buf > limit then Inl (ErrTooLarge limit) else Inr buf)"

definition maxCoalescedBody :: nat where
  "maxCoalescedBody = 256 * 2 ^ 20"

text \<open>What \<open>fn\<close> yields: an error, or a response with its status and body.\<close>

type_synonym fnResult = "doError + (int \<times> bytes)"

definition callDirect :: "fnResult \<Rightarrow> fnResult" where
  "callDirect r =
     (case r of
        Inl e \<Rightarrow> Inl e
      | Inr (status, body) \<Rightarrow>
          (case readBodyPooled body maxCoalescedBody of
             Inl e \<Rightarrow> Inl e
           | Inr body' \<Rightarrow> Inr (status, body')))"

text \<open>
  The function that \<open>Do\<close> hands to the group reads the body the same way. After the group has
  returned, a shared result is counted; \<open>ActiveShared\<close> goes up and, deferred, down again.
\<close>

definition Do_result :: "coalescer \<Rightarrow> fnResult \<Rightarrow> bool \<Rightarrow> fnResult \<times> coalescer" where
  "Do_result c r shared =
     (case callDirect r of
        Inl e \<Rightarrow> (Inl e, c)
      | Inr resp \<Rightarrow>
          if shared
          then let c1 = c\<lparr>CoalescedTotal := CoalescedTotal c + 1, ActiveShared := ActiveShared c + 1\<rparr>
               in (Inr resp, c1\<lparr>ActiveShared := ActiveShared c1 - 1\<rparr>)
          else (Inr resp, c))"

definition DoWithGuard_enter ::
    "coalescer \<Rightarrow> string \<Rightarrow> ('b \<Rightarrow> bool \<times> 'b) \<Rightarrow> 'b \<Rightarrow> (doError + unit) \<times> coalescer \<times> 'b" where
  "DoWithGuard_enter c key guard b =
     (if disabled c
      then let (ok, b1) = guard b in (if ok then Inr () else Inl ErrGuardRejected, c, b1)
      else let count = (case inflight c key of None \<Rightarrow> 0 | Some n \<Rightarrow> n);
               (ok, b1) = (if count = 0 then guard b else (True, b))
           in if \<not> ok then (Inl ErrGuardRejected, c, b1)
              else (Inr (), c\<lparr>inflight := (inflight c)(key \<mapsto> count + 1)\<rparr>, b1))"

definition DoWithGuard_leave :: "coalescer \<Rightarrow> string \<Rightarrow> coalescer" where
  "DoWithGuard_leave c key =
     (if disabled c then c
      else let n = (case inflight c key of None \<Rightarrow> 0 | Some n \<Rightarrow> n) - 1
           in if n = 0 then c\<lparr>inflight := (inflight c)(key := None)\<rparr>
              else c\<lparr>inflight := (inflight c)(key \<mapsto> n)\<rparr>)"

definition singleflight_ok ::
    "('g \<Rightarrow> string \<Rightarrow> bool) \<Rightarrow> ('g \<Rightarrow> string \<Rightarrow> bool \<times> 'g) \<Rightarrow> ('g \<Rightarrow> string \<Rightarrow> 'g) \<Rightarrow> bool" where
  "singleflight_ok running sf_join sf_done \<longleftrightarrow>
     (\<forall>g k. fst (sf_join g k) = (\<not> running g k)) \<and>
     (\<forall>g k l. running (snd (sf_join g k)) l = (l = k \<or> running g l)) \<and>
     (\<forall>g k l. running (sf_done g k) l = (l \<noteq> k \<and> running g l))"

text \<open>
  Where a goroutine is inside \<open>DoWithGuard\<close> for its key: it has entered (and holds its reference),
  it runs the function as the leader, it waits for the leader's result, or \<open>Do\<close> has returned and
  the reference is still held. The flag records whether the guard let this goroutine in.
\<close>

datatype gorPc = Entered bool | Leading bool | Waiting | Returned

record 'g coalSystem =
  cs_coalescer :: coalescer
  cs_group :: 'g
  cs_breaker :: circuitBreaker
  cs_threads :: "(nat \<times> string \<times> gorPc) list"

definition holders :: "string \<Rightarrow> (nat \<times> string \<times> gorPc) list \<Rightarrow> nat" where
  "holders k ts = length (filter (\<lambda>(i, l, pc). l = k) ts)"

definition leaders :: "string \<Rightarrow> (nat \<times> string \<times> gorPc) list \<Rightarrow> nat" where
  "leaders k ts = length (filter (\<lambda>(i, l, pc). l = k \<and> (\<exists>b. pc = Leading b)) ts)"

inductive coal_step ::
    "('g \<Rightarrow> string \<Rightarrow> bool \<times> 'g) \<Rightarrow> ('g \<Rightarrow> string \<Rightarrow> 'g) \<Rightarrow> 'g coalSystem \<Rightarrow> 'g coalSystem \<Rightarrow> bool"
  for sf_join sf_done where
  enter: "DoWithGuard_enter (cs_coalescer s) key (\<lambda>b. Allow b now) (cs_breaker s) = (Inr (), c1, b1) \<Longrightarrow>
     i \<notin> fst ` set (cs_threads s) \<Longrightarrow>
     asked = (inflight (cs_coalescer s) key = None) \<Longrightarrow>
     coal_step sf_join sf_done s
       (s\<lparr>cs_coalescer := c1, cs_breaker := b1, cs_threads := (i, key, Entered asked) # cs_threads s\<rparr>)"
| reject: "DoWithGuard_enter (cs_coalescer s) key (\<lambda>b. Allow b now) (cs_breaker s) = (Inl e, c1, b1) \<Longrightarrow>
     coal_step sf_join sf_done s (s\<lparr>cs_coalescer := c1, cs_breaker := b1\<rparr>)"
| lead: "cs_threads s = xs @ (i, key, Entered asked) # ys \<Longrightarrow> sf_join (cs_group s) key = (True, g1) \<Longrightarrow>
     coal_step sf_join sf_done s (s\<lparr>cs_group := g1, cs_threads := xs @ (i, key, Leading asked) # ys\<rparr>)"
| follow: "cs_threads s = xs @ (i, key, Entered asked) # ys \<Longrightarrow> sf_join (cs_group s) key = (False, g1) \<Longrightarrow>
     coal_step sf_join sf_done s (s\<lparr>cs_group := g1, cs_threads := xs @ (i, key, Waiting) # ys\<rparr>)"
| finish: "cs_threads s = xs @ (i, key, Leading asked) # ys \<Longrightarrow>
     coal_step sf_join sf_done s
       (s\<lparr>cs_group := sf_done (cs_group s) key, cs_threads := xs @ (i, key, Returned) # ys\<rparr>)"
| share: "cs_threads s = xs @ (i, key, Waiting) # ys \<Longrightarrow>
     coal_step sf_join sf_done s (s\<lparr>cs_threads := xs @ (i, key, Returned) # ys\<rparr>)"
| leave: "cs_threads s = xs @ (i, key, Returned) # ys \<Longrightarrow>
     coal_step sf_join sf_done s
       (s\<lparr>cs_coalescer := DoWithGuard_leave (cs_coalescer s) key, cs_threads := xs @ ys\<rparr>)"
| outcome: "b1 = RecordSuccess (cs_breaker s) \<or> b1 = RecordFailure (cs_breaker s) now \<Longrightarrow>
     coal_step sf_join sf_done s (s\<lparr>cs_breaker := b1\<rparr>)"

inductive coal_reach ::
    "('g \<Rightarrow> string \<Rightarrow> bool \<times> 'g) \<Rightarrow> ('g \<Rightarrow> string \<Rightarrow> 'g) \<Rightarrow> 'g coalSystem \<Rightarrow> 'g coalSystem \<Rightarrow> bool"
  for sf_join sf_done s0 where
  coal_start: "coal_reach sf_join sf_done s0 s0"
| coal_next: "coal_reach sf_join sf_done s0 s \<Longrightarrow> coal_step sf_join sf_done s t \<Longrightarrow>
     coal_reach sf_join sf_done s0 t"

definition coal_init :: "'g \<Rightarrow> circuitBreaker \<Rightarrow> 'g coalSystem" where
  "coal_init g cb = \<lparr>cs_coalescer = NewCoalescer, cs_group = g, cs_breaker = cb, cs_threads = []\<rparr>"

text \<open>The reference counts that the goroutines inside \<open>DoWithGuard\<close> account for.\<close>

definition refs :: "(nat \<times> string \<times> gorPc) list \<Rightarrow> string \<rightharpoonup> int" where
  "refs ts k = (if holders k ts = 0 then None else Some (int (holders k ts)))"

text \<open>A key has exactly one leader while the group runs a call for it, and none otherwise.\<close>

definition one_leader :: "(string \<Rightarrow> bool) \<Rightarrow> (nat \<times> string \<times> gorPc) list \<Rightarrow> bool" where
  "one_leader run_key ts \<longleftrightarrow> (\<forall>k. leaders k ts = (if run_key k then 1 else 0))"

definition coal_inv :: "('g \<Rightarrow> string \<Rightarrow> bool) \<Rightarrow> 'g coalSystem \<Rightarrow> bool" where
  "coal_inv running s \<longleftrightarrow>
     \<not> disabled (cs_coalescer s) \<and>
     inflight (cs_coalescer s) = refs (cs_threads s) \<and>
     one_leader (running (cs_group s)) (cs_threads s)"

lemma holders_simps [simp]:
  "holders k [] = 0"
  "holders k ((i, l, pc) # ts) = (if l = k then Suc (holders k ts) else holders k ts)"
  "holders k (xs @ ys) = holders k xs + holders k ys"
  by (simp_all add: holders_def)

lemma leaders_simps [simp]:
  "leaders k [] = 0"
  "leaders k ((i, l, Entered b) # ts) = leaders k ts"
  "leaders k ((i, l, Waiting) # ts) = leaders k ts"
  "leaders k ((i, l, Returned) # ts) = leaders k ts"
  "leaders k ((i, l, Leading b) # ts) = (if l = k then Suc (leaders k ts) else leaders k ts)"
  "leaders k (xs @ ys) = leaders k xs + leaders k ys"
  by (simp_all add: leaders_def)

lemma refs_enter: "refs ((i, k, pc) # ts) = (refs ts)(k \<mapsto> int (holders k ts) + 1)"
  by (auto simp: refs_def fun_eq_iff)

lemma refs_move: "refs (xs @ (i, k, pc) # ys) = refs (xs @ (i, k, pc') # ys)"
  by (auto simp: refs_def fun_eq_iff)

lemma refs_count: "(case refs ts k of None \<Rightarrow> 0 | Some n \<Rightarrow> n) = int (holders k ts)"
  by (simp add: refs_def)

lemma refs_leave:
  "refs (xs @ ys) = (refs (xs @ (i, k, pc) # ys))(k := (if holders k (xs @ ys) = 0 then None
     else Some (int (holders k (xs @ ys)))))"
  by (auto simp: refs_def fun_eq_iff)

lemma DoWithGuard_enter_refs:
  assumes "DoWithGuard_enter c k guard b = (r, c1, b1)" "inflight c = refs ts" "\<not> disabled c"
  shows "\<not> disabled c1" "r = Inr () \<Longrightarrow> inflight c1 = refs ((i, k, pc) # ts)"
    "r = Inl e \<Longrightarrow> c1 = c"
  using assms
  by (auto simp: DoWithGuard_enter_def Let_def refs_count refs_enter split: prod.splits if_splits)

lemma DoWithGuard_leave_refs:
  assumes "inflight c = refs (xs @ (i, k, pc) # ys)" "\<not> disabled c"
  shows "\<not> disabled (DoWithGuard_leave c k)" "inflight (DoWithGuard_leave c k) = refs (xs @ ys)"
  using assms by (simp_all add: DoWithGuard_leave_def Let_def refs_count refs_leave [of xs ys i k pc])

lemma singleflight_join:
  assumes "singleflight_ok running sf_join sf_done" "sf_join g k = (lead, g1)"
  shows "lead = (\<not> running g k)" "running g1 l = (l = k \<or> running g l)"
  using assms unfolding singleflight_ok_def by (metis fst_conv, metis snd_conv)

lemma singleflight_done:
  "singleflight_ok running sf_join sf_done \<Longrightarrow> running (sf_done g k) l = (l \<noteq> k \<and> running g l)"
  by (simp add: singleflight_ok_def)

lemma one_leader_lead:
  assumes "one_leader r (xs @ (i, k, Entered a) # ys)" "\<not> r k" "\<And>l. r1 l = (l = k \<or> r l)"
  shows "one_leader r1 (xs @ (i, k, Leading a) # ys)"
  unfolding one_leader_def
proof
  fix l
  show "leaders l (xs @ (i, k, Leading a) # ys) = (if r1 l then 1 else 0)"
    using assms(1) [unfolded one_leader_def, rule_format, of l] assms(2,3) by auto
qed

lemma one_leader_finish:
  assumes "one_leader r (xs @ (i, k, Leading a) # ys)" "\<And>l. r1 l = (l \<noteq> k \<and> r l)"
  shows "one_leader r1 (xs @ (i, k, Returned) # ys)"
  unfolding one_leader_def
proof
  fix l
  show "leaders l (xs @ (i, k, Returned) # ys) = (if r1 l then 1 else 0)"
    using assms(1) [unfolded one_leader_def, rule_format, of l] assms(2) by (auto split: if_splits)
qed

lemma one_leader_same:
  "(\<And>l. r1 l = r l) \<Longrightarrow> (\<And>l. leaders l us = leaders l ts) \<Longrightarrow> one_leader r ts \<Longrightarrow> one_leader r1 us"
  by (simp add: one_leader_def)

lemma coal_step_inv:
  assumes "coal_step sf_join sf_done s t" and ok: "singleflight_ok running sf_join sf_done"
    and "coal_inv running s"
  shows "coal_inv running t"
  using assms(1,3)
proof (induction rule: coal_step.induct)
  case (enter s key now c1 b1 i asked)
  then show ?case
    using DoWithGuard_enter_refs(1) [OF enter(1)]
      DoWithGuard_enter_refs(2) [OF enter(1), of "cs_threads s" i "Entered asked"]
    by (simp add: coal_inv_def one_leader_def)
next
  case (reject s key now e c1 b1)
  then show ?case
    using DoWithGuard_enter_refs(3) [OF reject(1), of "cs_threads s" e] by (simp add: coal_inv_def)
next
  case (lead s xs i key asked ys g1)
  with singleflight_join [OF ok lead(2)] show ?case
    by (auto simp: coal_inv_def refs_move [of xs i key "Leading asked" ys "Entered asked"]
        intro: one_leader_lead)
next
  case (follow s xs i key asked ys g1)
  with singleflight_join [OF ok follow(2)] show ?case
    by (auto simp: coal_inv_def refs_move [of xs i key "Waiting" ys "Entered asked"] elim!: one_leader_same [rotated 2])
next
  case (finish s xs i key asked ys)
  then show ?case
    by (auto simp: coal_inv_def refs_move [of xs i key "Returned" ys "Leading asked"]
        intro: one_leader_finish [OF _ singleflight_done [OF ok]])
next
  case (share s xs i key ys)
  then show ?case
    by (auto simp: coal_inv_def refs_move [of xs i key "Returned" ys "Waiting"] elim!: one_leader_same [rotated 2])
next
  case (leave s xs i key ys)
  then show ?case
    using DoWithGuard_leave_refs [of "cs_coalescer s" xs i key Returned ys]
    by (auto simp: coal_inv_def elim!: one_leader_same [rotated 2])
next
  case (outcome b1 s now)
  then show ?case by (simp add: coal_inv_def)
qed

lemma coal_inv_init:
  assumes "\<And>k. \<not> running g k"
  shows "coal_inv running (coal_init g cb)"
  using assms by (simp add: coal_inv_def coal_init_def NewCoalescer_def refs_def one_leader_def fun_eq_iff)

lemma coal_reach_inv:
  assumes "coal_reach sf_join sf_done (coal_init g cb) s" "singleflight_ok running sf_join sf_done"
    "\<And>k. \<not> running g k"
  shows "coal_inv running s"
  using assms(1)
proof (induction rule: coal_reach.induct)
  case coal_start
  show ?case using assms(3) by (intro coal_inv_init)
next
  case (coal_next s t)
  show ?case using coal_next(2) assms(2) coal_next(3) by (rule coal_step_inv)
qed

text \<open>
  C12. Coalescing. In every state that any interleaving of \<open>DoWithGuard\<close> calls, results and
  breaker updates can reach, a key has at most one backend call running, the reference count of
  a key is exactly the number of goroutines inside \<open>DoWithGuard\<close> for it, and a key that no
  goroutine is inside for has no entry in the map, so the map does not grow with past keys. The
  hypotheses on the \<open>singleflight\<close> group are its documented behaviour.
\<close>

theorem coalescer_counts_and_single_call:
  assumes "singleflight_ok running sf_join sf_done" and "\<forall>k. \<not> running g k"
    and "coal_reach sf_join sf_done (coal_init g cb) s"
  shows "leaders k (cs_threads s) \<le> 1 \<and>
    inflight (cs_coalescer s) k =
      (if holders k (cs_threads s) = 0 then None else Some (int (holders k (cs_threads s))))"
proof -
  from coal_reach_inv [OF assms(3,1)] assms(2)
  have "inflight (cs_coalescer s) = refs (cs_threads s)" "one_leader (running (cs_group s)) (cs_threads s)"
    by (simp_all add: coal_inv_def)
  then show ?thesis by (simp add: refs_def one_leader_def)
qed

text \<open>
  A concrete group for the witnesses below: the keys that have a call running.
\<close>

definition set_join :: "string list \<Rightarrow> string \<Rightarrow> bool \<times> string list" where
  "set_join g k = (k \<notin> set g, List.insert k g)"

definition set_done :: "string list \<Rightarrow> string \<Rightarrow> string list" where
  "set_done g k = removeAll k g"

lemma set_group_ok: "singleflight_ok (\<lambda>g k. k \<in> set g) set_join set_done"
  by (auto simp: singleflight_ok_def set_join_def set_done_def)

text \<open>
  The race of C8, state by state. Goroutine 0 passes the guard, leads, and its call fails, which
  opens a breaker with threshold 1; goroutine 1 arrives before goroutine 0 drops its reference.
\<close>

definition race_state :: "int \<Rightarrow> string list \<Rightarrow> circuitBreaker \<Rightarrow> (nat \<times> string \<times> gorPc) list \<Rightarrow> string list coalSystem" where
  "race_state n g cb ts =
     \<lparr>cs_coalescer = NewCoalescer\<lparr>inflight := [''k'' \<mapsto> n]\<rparr>, cs_group = g, cs_breaker = cb, cs_threads = ts\<rparr>"

definition race_breaker :: circuitBreaker where
  "race_breaker = NewCircuitBreaker 1 1 Second Second"

definition race_open :: circuitBreaker where
  "race_open = RecordFailure race_breaker 0"

lemma race_enter:
  "coal_step set_join set_done (coal_init [] race_breaker)
     (race_state 1 [] race_breaker [(0, ''k'', Entered True)])"
proof -
  have "DoWithGuard_enter (cs_coalescer (coal_init [] race_breaker)) ''k'' (\<lambda>b. Allow b 0) race_breaker =
      (Inr (), NewCoalescer\<lparr>inflight := [''k'' \<mapsto> 1]\<rparr>, race_breaker)"
    by (simp add: coal_init_def NewCoalescer_def DoWithGuard_enter_def race_breaker_def
        NewCircuitBreaker_def Allow_def Let_def)
  then show ?thesis
    using coal_step.enter [where s = "coal_init [] race_breaker" and key = "''k''" and now = 0 and i = 0]
    by (force simp: coal_init_def race_state_def NewCoalescer_def)
qed

lemma race_run:
  "coal_reach set_join set_done (coal_init [] race_breaker)
     (race_state 2 [''k''] race_open [(1, ''k'', Leading False), (0, ''k'', Returned)])"
proof -
  note reach = coal_next [OF coal_start race_enter]
  have lead0: "coal_step set_join set_done (race_state 1 [] race_breaker [(0, ''k'', Entered True)])
      (race_state 1 [''k''] race_breaker [(0, ''k'', Leading True)])"
    using coal_step.lead [where s = "race_state 1 [] race_breaker [(0, ''k'', Entered True)]" and xs = "[]"
        and i = 0 and key = "''k''" and asked = True and ys = "[]" and sf_join = set_join and sf_done = set_done]
    by (simp add: race_state_def set_join_def List.insert_def)
  have fail0: "coal_step set_join set_done (race_state 1 [''k''] race_breaker [(0, ''k'', Leading True)])
      (race_state 1 [''k''] race_open [(0, ''k'', Leading True)])"
    using coal_step.outcome [where s = "race_state 1 [''k''] race_breaker [(0, ''k'', Leading True)]" and now = 0
        and ?b1.0 = race_open and sf_join = set_join and sf_done = set_done]
    by (simp add: race_state_def race_open_def)
  have finish0: "coal_step set_join set_done (race_state 1 [''k''] race_open [(0, ''k'', Leading True)])
      (race_state 1 [] race_open [(0, ''k'', Returned)])"
    using coal_step.finish [where s = "race_state 1 [''k''] race_open [(0, ''k'', Leading True)]" and xs = "[]"
        and i = 0 and key = "''k''" and asked = True and ys = "[]" and sf_join = set_join and sf_done = set_done]
    by (simp add: race_state_def set_done_def)
  have enter1: "coal_step set_join set_done (race_state 1 [] race_open [(0, ''k'', Returned)])
      (race_state 2 [] race_open [(1, ''k'', Entered False), (0, ''k'', Returned)])"
    using coal_step.enter [where s = "race_state 1 [] race_open [(0, ''k'', Returned)]" and key = "''k''" and i = 1
        and now = 0 and ?c1.0 = "NewCoalescer\<lparr>inflight := [''k'' \<mapsto> 2]\<rparr>" and ?b1.0 = race_open
        and asked = False and sf_join = set_join and sf_done = set_done]
    by (simp add: race_state_def DoWithGuard_enter_def NewCoalescer_def)
  have lead1: "coal_step set_join set_done
      (race_state 2 [] race_open [(1, ''k'', Entered False), (0, ''k'', Returned)])
      (race_state 2 [''k''] race_open [(1, ''k'', Leading False), (0, ''k'', Returned)])"
    using coal_step.lead [where s = "race_state 2 [] race_open [(1, ''k'', Entered False), (0, ''k'', Returned)]"
        and xs = "[]" and i = 1 and key = "''k''" and asked = False and ys = "[(0, ''k'', Returned)]"
        and sf_join = set_join and sf_done = set_done]
    by (simp add: race_state_def set_join_def List.insert_def)
  show ?thesis
    by (rule reach [THEN coal_next, OF lead0, THEN coal_next, OF fail0, THEN coal_next, OF finish0,
          THEN coal_next, OF enter1, THEN coal_next, OF lead1])
qed

theorem coalescer_counts_and_single_call_witness:
  "leaders ''k'' [(1, ''k'', Leading False), (0, ''k'', Returned)] \<le> 1"
  using coalescer_counts_and_single_call [OF set_group_ok _ race_run, of "''k''"]
  by (simp add: race_state_def)

text \<open>
  C13. The guard can be bypassed. The comment of \<open>DoWithGuard\<close> says that without a call in
  flight a guard that answers no keeps \<open>fn\<close> from being called. The reference of a goroutine
  outlives its call, though: between the return of \<open>Do\<close> and the second critical section the
  count is still positive, and a goroutine that arrives then skips the guard and starts a call
  of its own. There is a reachable state in which a goroutine that was never asked for by the
  guard leads a backend call although no other call for the key runs and the breaker is open and
  would have refused it.
\<close>

theorem guard_bypassed_after_return:
  "\<exists>s. coal_reach set_join set_done (coal_init [] (NewCircuitBreaker 1 1 Second Second)) s \<and>
     (1, ''k'', Leading False) \<in> set (cs_threads s) \<and> leaders ''k'' (cs_threads s) = 1 \<and>
     State (cs_breaker s) = ''open'' \<and> fst (Allow (cs_breaker s) 0) = False"
proof -
  have "State race_open = ''open''" "fst (Allow race_open 0) = False"
    by (simp_all add: race_open_def race_breaker_def NewCircuitBreaker_def cb_op_defs Let_def)
  then show ?thesis
    using race_run unfolding race_breaker_def
    by (intro exI [of _ "race_state 2 [''k''] race_open [(1, ''k'', Leading False), (0, ''k'', Returned)]"])
      (simp add: race_state_def)
qed

end
