(* ===== verification/LruCache.thy ===== *)
theory LruCache
  imports GoStrings "HOL-Library.Product_Lexorder" "HOL-Library.Multiset"
begin

text \<open>
  The in-memory tier of the cache, \<^verbatim>\<open>internal/cache/cache.go\<close>: entries with a time to
  live, bounded in number and in bytes, evicted in the order of last use, and the hot-key index.

  \<^item> Go maps are association lists with distinct keys. The order of the list stands for the
    order in which \<open>range\<close> visits the map, which Go leaves open: the theorems hold for every
    order.
  \<^item> \<open>lruList\<close> is the doubly linked list, most recently used key first. \<open>lruIndex\<close>, which
    maps a key to its list element and is always updated together with the list, is membership in
    the list.
  \<^item> \<open>sort.Slice\<close>, which is not stable, is a stable sort: as the list it sorts comes from a
    map in an arbitrary order, so does the order of equal elements.
  \<^item> A \<open>nil\<close> cache behaves like a disabled one. The tiers \<open>l2\<close> and \<open>l3\<close> are in
    \<open>DiskCache\<close> and \<open>PeerCache\<close>.
  \<^item> The clock readings of one operation are one argument; counters are unbounded.
\<close>

record entry =
  val :: bytes
  expiresAt :: time
  sizeBytes :: int

record hotStat =
  score :: nat
  lastAccess :: int
  hs_tenant :: string

record tierStats =
  ts_requests :: int
  ts_hits :: int
  ts_misses :: int
  ts_staleHits :: int

record cache =
  entries :: "(string \<times> entry) list"
  defaultTTL :: duration
  maxEntries :: int
  maxBytes :: int
  curBytes :: int
  c_disabled :: bool
  lruList :: "string list"
  hot :: "(string \<times> hotStat) list"
  hotMax :: int
  hotOn :: bool
  promoteBuf :: "string list"
  Hits :: int
  Misses :: int
  Evictions :: int
  l0Stats :: tierStats
  l1Stats :: tierStats
  l2Stats :: tierStats
  l3Stats :: tierStats
  backendFallthrough :: int

record hotKeySnapshot =
  hk_key :: string
  hk_tenant :: string
  hk_score :: nat
  hk_sizeBytes :: int
  hk_remainingTTLMS :: int

definition noStats :: tierStats where
  "noStats = \<lparr>ts_requests = 0, ts_hits = 0, ts_misses = 0, ts_staleHits = 0\<rparr>"

definition nonOwnerShadowMaxTTL :: duration where
  "nonOwnerShadowMaxTTL = 30 * Second"

definition defaultHotIndexMaxEntries :: int where
  "defaultHotIndexMaxEntries = 50000"

definition maxHotIndexQueryLimit :: int where
  "maxHotIndexQueryLimit = 2000"

definition promoteBufCap :: nat where
  "promoteBufCap = 512"

definition NewWithMaxBytes :: "duration \<Rightarrow> int \<Rightarrow> int \<Rightarrow> cache" where
  "NewWithMaxBytes ttl maxe maxb =
     \<lparr>entries = [], defaultTTL = ttl, maxEntries = maxe, maxBytes = maxb, curBytes = 0,
      c_disabled = False, lruList = [], hot = [], hotMax = defaultHotIndexMaxEntries,
      hotOn = False, promoteBuf = [], Hits = 0, Misses = 0, Evictions = 0,
      l0Stats = noStats, l1Stats = noStats, l2Stats = noStats, l3Stats = noStats,
      backendFallthrough = 0\<rparr>"

definition New :: "duration \<Rightarrow> int \<Rightarrow> cache" where
  "New ttl maxe = NewWithMaxBytes ttl maxe (256 * 1024 * 1024)"

definition NewDisabled :: cache where
  "NewDisabled = (NewWithMaxBytes 0 0 0)\<lparr>c_disabled := True, hotMax := 0\<rparr>"

definition MaxEntrySizeBytes :: "cache \<Rightarrow> int" where
  "MaxEntrySizeBytes c = (if c_disabled c \<or> maxBytes c \<le> 0 then 0 else goDiv (maxBytes c) 10)"

text \<open>\<open>MoveToFront\<close> of the element that the index finds, if it finds one.\<close>

definition moveToFront :: "string \<Rightarrow> cache \<Rightarrow> cache" where
  "moveToFront key c =
     (if key \<in> set (lruList c) then c\<lparr>lruList := key # removeAll key (lruList c)\<rparr> else c)"

text \<open>The statements that drop an entry, the same in \<open>Invalidate\<close>, \<open>InvalidatePrefix\<close>,
  \<open>cleanup\<close> and \<open>evictIfNeeded\<close>.\<close>

definition dropEntry :: "string \<Rightarrow> entry \<Rightarrow> cache \<Rightarrow> cache" where
  "dropEntry key e c =
     c\<lparr>curBytes := curBytes c - sizeBytes e, entries := AList.delete key (entries c),
       hot := AList.delete key (hot c), lruList := removeAll key (lruList c)\<rparr>"

definition overLimit :: "cache \<Rightarrow> int \<Rightarrow> bool" where
  "overLimit c incoming \<longleftrightarrow>
     int (length (entries c)) \<ge> maxEntries c \<or> curBytes c + incoming > maxBytes c"

text \<open>One iteration of \<open>for k, v := range c.entries\<close> that drops expired entries.\<close>

definition dropIfExpired :: "time \<Rightarrow> cache \<Rightarrow> string \<times> entry \<Rightarrow> cache" where
  "dropIfExpired now c kv = (if now > expiresAt (snd kv) then dropEntry (fst kv) (snd kv) c else c)"

definition evictExpired :: "time \<Rightarrow> cache \<Rightarrow> string \<times> entry \<Rightarrow> cache" where
  "evictExpired now c kv =
     (if now > expiresAt (snd kv)
      then (dropEntry (fst kv) (snd kv) c)\<lparr>Evictions := Evictions c + 1\<rparr> else c)"

text \<open>The second pass of \<open>evictIfNeeded\<close>: drop from the back of the list until it fits.\<close>

definition evictBack :: "cache \<Rightarrow> cache" where
  "evictBack c =
     (let key = last (lruList c);
          c1 = (case map_of (entries c) key of
                  Some e \<Rightarrow> c\<lparr>curBytes := curBytes c - sizeBytes e, entries := AList.delete key (entries c),
                              hot := AList.delete key (hot c), Evictions := Evictions c + 1\<rparr>
                | None \<Rightarrow> c)
      in c1\<lparr>lruList := butlast (lruList c1)\<rparr>)"

function evictLoop :: "cache \<Rightarrow> int \<Rightarrow> cache" where
  "evictLoop c incoming =
     (if overLimit c incoming \<and> lruList c \<noteq> [] then evictLoop (evictBack c) incoming else c)"
  by pat_completeness auto
termination
  by (relation "measure (\<lambda>(c, n). length (lruList c))")
    (auto simp: evictBack_def Let_def split: option.splits)

declare evictLoop.simps [simp del]

definition evictIfNeeded :: "cache \<Rightarrow> int \<Rightarrow> time \<Rightarrow> cache" where
  "evictIfNeeded c incoming now =
     (let c1 = (if overLimit c incoming then foldl (evictExpired now) c (entries c) else c)
      in evictLoop c1 incoming)"

definition storeLocalLocked :: "cache \<Rightarrow> string \<Rightarrow> bytes \<Rightarrow> duration \<Rightarrow> int \<Rightarrow> time \<Rightarrow> cache" where
  "storeLocalLocked c key v ttl sz now =
     (let c1 = (case map_of (entries c) key of
                  Some old \<Rightarrow> moveToFront key (c\<lparr>curBytes := curBytes c - sizeBytes old\<rparr>)
                | None \<Rightarrow> c);
          c2 = evictIfNeeded c1 sz now;
          c3 = c2\<lparr>entries := AList.update key \<lparr>val = v, expiresAt = now + ttl, sizeBytes = sz\<rparr> (entries c2),
                   curBytes := curBytes c2 + sz\<rparr>
      in if key \<in> set (lruList c3) then c3 else c3\<lparr>lruList := key # lruList c3\<rparr>)"

definition SetLocalOnlyWithTTL :: "cache \<Rightarrow> string \<Rightarrow> bytes \<Rightarrow> duration \<Rightarrow> time \<Rightarrow> cache" where
  "SetLocalOnlyWithTTL c key v ttl now =
     (if c_disabled c then c
      else let sz = int (length v)
           in if sz > goDiv (maxBytes c) 10 then c else storeLocalLocked c key v ttl sz now)"

definition skipL2WriteForKey :: "string \<Rightarrow> bool" where
  "skipL2WriteForKey key \<longleftrightarrow>
     length key \<ge> length ''patterns:'' \<and> take (length ''patterns:'') key = ''patterns:''"

definition Invalidate :: "cache \<Rightarrow> string \<Rightarrow> cache" where
  "Invalidate c key = (case map_of (entries c) key of Some e \<Rightarrow> dropEntry key e c | None \<Rightarrow> c)"

definition InvalidatePrefix :: "cache \<Rightarrow> string \<Rightarrow> cache" where
  "InvalidatePrefix c prefix =
     foldl (\<lambda>c (k, e). if length k \<ge> length prefix \<and> take (length prefix) k = prefix
                       then dropEntry k e c else c) c (entries c)"

definition Size :: "cache \<Rightarrow> int \<times> int" where
  "Size c = (int (length (entries c)), curBytes c)"

text \<open>One tick of the background goroutine \<open>cleanup\<close>.\<close>

definition cleanup :: "cache \<Rightarrow> time \<Rightarrow> cache" where
  "cleanup c now = foldl (dropIfExpired now) c (entries c)"

text \<open>The non-blocking send to the promotion buffer: a full buffer drops the key.\<close>

definition sendPromote :: "string \<Rightarrow> cache \<Rightarrow> cache" where
  "sendPromote key c =
     (if length (promoteBuf c) < promoteBufCap then c\<lparr>promoteBuf := promoteBuf c @ [key]\<rparr> else c)"

definition GetWithTTL :: "cache \<Rightarrow> string \<Rightarrow> time \<Rightarrow> (bytes \<times> duration) option \<times> cache" where
  "GetWithTTL c key now =
     (if c_disabled c then (None, c)
      else case map_of (entries c) key of
             Some e \<Rightarrow>
               (let remaining = expiresAt e - now
                in if remaining > 0 then (Some (val e, remaining), sendPromote key (c\<lparr>Hits := Hits c + 1\<rparr>))
                   else (None, c))
           | None \<Rightarrow> (None, c))"

definition getL1WithTTL :: "cache \<Rightarrow> string \<Rightarrow> time \<Rightarrow> (bytes \<times> duration) option \<times> cache" where
  "getL1WithTTL c key now =
     (case map_of (entries c) key of
        Some e \<Rightarrow>
          (let remaining = expiresAt e - now
           in if remaining > 0 then (Some (val e, remaining), sendPromote key c) else (None, c))
      | None \<Rightarrow> (None, c))"

definition GetStaleWithTTL :: "cache \<Rightarrow> string \<Rightarrow> time \<Rightarrow> (bytes \<times> duration) option" where
  "GetStaleWithTTL c key now =
     (if c_disabled c then None
      else map_option (\<lambda>e. (val e, expiresAt e - now)) (map_of (entries c) key))"

definition tenantKinds :: "string list" where
  "tenantKinds =
     [''query_range'', ''query_range_window'', ''query_range_window_has_hits'', ''query'', ''series'',
      ''labels'', ''label_values'', ''volume'', ''volume_range'', ''detected_fields'',
      ''detected_labels'', ''detected_field_values'', ''patterns'', ''label_inventory'']"

definition tenantFromCacheKey :: "string \<Rightarrow> string" where
  "tenantFromCacheKey key =
     (if HasPrefix key ''__'' then []
      else let parts = SplitN key (CHR '':'') 3
           in if length parts < 3 then []
              else if parts ! 0 \<in> set tenantKinds then parts ! 1 else [])"

definition pruneHotLocked :: "cache \<Rightarrow> int \<Rightarrow> cache" where
  "pruneHotLocked c dropN =
     (if dropN \<le> 0 \<or> hot c = [] then c
      else let cands = sort_key (\<lambda>(k, h). (score h, lastAccess h)) (hot c);
               d = (if dropN > int (length cands) then int (length cands) else dropN)
           in c\<lparr>hot := foldl (\<lambda>m (k, h). AList.delete k m) (hot c) (take (nat d) cands)\<rparr>)"

definition recordHotLocked :: "cache \<Rightarrow> string \<Rightarrow> time \<Rightarrow> cache" where
  "recordHotLocked c key now =
     (let st = (l0Stats c)\<lparr>ts_requests := ts_requests (l0Stats c) + 1\<rparr>;
          (hs, st1) = (case map_of (hot c) key of
               Some h \<Rightarrow> (h, st\<lparr>ts_hits := ts_hits st + 1\<rparr>)
             | None \<Rightarrow> (\<lparr>score = 0, lastAccess = 0, hs_tenant = []\<rparr>, st\<lparr>ts_misses := ts_misses st + 1\<rparr>));
          hs1 = hs\<lparr>score := score hs + 1, lastAccess := now\<rparr>;
          hs2 = (if hs_tenant hs1 = [] then hs1\<lparr>hs_tenant := tenantFromCacheKey key\<rparr> else hs1);
          c1 = c\<lparr>l0Stats := st1, hot := AList.update key hs2 (hot c)\<rparr>
      in if int (length (hot c1)) \<le> hotMax c1 then c1
         else pruneHotLocked c1 (int (length (hot c1)) - hotMax c1))"

text \<open>\<open>applyKey\<close> of \<open>runPromoter\<close>, for the key at the head of the buffer.\<close>

definition applyKey :: "cache \<Rightarrow> string \<Rightarrow> time \<Rightarrow> cache" where
  "applyKey c key now =
     (let c1 = moveToFront key c in if hotOn c1 then recordHotLocked c1 key now else c1)"

definition runPromoter_step :: "cache \<Rightarrow> time \<Rightarrow> cache" where
  "runPromoter_step c now =
     (case promoteBuf c of [] \<Rightarrow> c | key # rest \<Rightarrow> applyKey (c\<lparr>promoteBuf := rest\<rparr>) key now)"

definition TopHotKeys :: "cache \<Rightarrow> int \<Rightarrow> duration \<Rightarrow> int \<Rightarrow> time \<Rightarrow> hotKeySnapshot list" where
  "TopHotKeys c limit minRemainingTTL maxObjectBytes now =
     (if limit \<le> 0 then []
      else let limit1 = (if limit > maxHotIndexQueryLimit then maxHotIndexQueryLimit else limit)
           in if \<not> hotOn c then []
              else let out = List.map_filter (\<lambda>(key, st).
                         case map_of (entries c) key of
                           None \<Rightarrow> None
                         | Some e \<Rightarrow>
                             (let remaining = expiresAt e - now
                              in if remaining \<le> 0 \<or> now > expiresAt e then None
                                 else if minRemainingTTL > 0 \<and> remaining < minRemainingTTL then None
                                 else if maxObjectBytes > 0 \<and> sizeBytes e > maxObjectBytes then None
                                 else Some \<lparr>hk_key = key, hk_tenant = hs_tenant st, hk_score = score st,
                                            hk_sizeBytes = sizeBytes e,
                                            hk_remainingTTLMS = goDiv remaining Millisecond\<rparr>)) (hot c);
                       sorted_out = sort_key (\<lambda>h. (- int (hk_score h), - hk_remainingTTLMS h)) out
                   in take (nat limit1) sorted_out)"

text \<open>
  Well-formedness: a key occurs once, the list of uses holds exactly the cached keys, and an entry
  records the length of its value. The \<open>drift\<close> is by how much \<open>curBytes\<close> is below the
  number of bytes that the cache really holds.
\<close>

definition total_size :: "cache \<Rightarrow> int" where
  "total_size c = weight sizeBytes (entries c)"

definition drift :: "cache \<Rightarrow> int" where
  "drift c = total_size c - curBytes c"

definition cache_wf :: "cache \<Rightarrow> bool" where
  "cache_wf c \<longleftrightarrow>
     distinct (map fst (entries c)) \<and> distinct (lruList c) \<and>
     set (lruList c) = fst ` set (entries c) \<and>
     (\<forall>(k, e) \<in> set (entries c). sizeBytes e = int (length (val e)))"

lemma cache_wf_simps [simp]:
  "cache_wf (c\<lparr>curBytes := n\<rparr>) = cache_wf c" "cache_wf (c\<lparr>Evictions := m\<rparr>) = cache_wf c"
  "cache_wf (c\<lparr>Hits := m\<rparr>) = cache_wf c" "cache_wf (c\<lparr>Misses := m\<rparr>) = cache_wf c"
  "cache_wf (c\<lparr>promoteBuf := b\<rparr>) = cache_wf c" "cache_wf (c\<lparr>hot := h\<rparr>) = cache_wf c"
  "cache_wf (c\<lparr>l0Stats := st\<rparr>) = cache_wf c" "cache_wf (c\<lparr>l1Stats := st\<rparr>) = cache_wf c"
  "cache_wf (c\<lparr>l2Stats := st\<rparr>) = cache_wf c" "cache_wf (c\<lparr>l3Stats := st\<rparr>) = cache_wf c"
  "cache_wf (c\<lparr>backendFallthrough := m\<rparr>) = cache_wf c"
  by (simp_all add: cache_wf_def)

lemma drift_simps [simp]:
  "drift (c\<lparr>curBytes := n\<rparr>) = total_size c - n" "drift (c\<lparr>Evictions := m\<rparr>) = drift c"
  "drift (c\<lparr>lruList := l\<rparr>) = drift c" "drift (c\<lparr>Hits := m\<rparr>) = drift c"
  "drift (c\<lparr>promoteBuf := b\<rparr>) = drift c" "drift (c\<lparr>hot := h\<rparr>) = drift c"
  "drift (c\<lparr>l0Stats := st\<rparr>) = drift c"
  by (simp_all add: drift_def total_size_def)

lemma wf_map_of: "cache_wf c \<Longrightarrow> k \<in> set (lruList c) \<longleftrightarrow> (\<exists>e. map_of (entries c) k = Some e)"
  unfolding cache_wf_def by (metis map_of_eq_None_iff not_Some_eq)

lemma wf_size: "cache_wf c \<Longrightarrow> map_of (entries c) k = Some e \<Longrightarrow> sizeBytes e = int (length (val e))"
  unfolding cache_wf_def by (fastforce dest: map_of_SomeD)

lemma wf_total_nonneg: "cache_wf c \<Longrightarrow> 0 \<le> total_size c"
  unfolding cache_wf_def total_size_def by (rule weight_nonneg) fastforce

lemma wf_length: "cache_wf c \<Longrightarrow> length (lruList c) = length (entries c)"
  unfolding cache_wf_def by (metis distinct_card length_map list.set_map)

lemma wf_moveToFront [inv_intros]: "cache_wf c \<Longrightarrow> cache_wf (moveToFront k c)"
  by (auto simp: cache_wf_def moveToFront_def distinct_removeAll)

lemma moveToFront_simps [simp]:
  "entries (moveToFront k c) = entries c" "curBytes (moveToFront k c) = curBytes c"
  "drift (moveToFront k c) = drift c" "maxEntries (moveToFront k c) = maxEntries c"
  "maxBytes (moveToFront k c) = maxBytes c"
  by (simp_all add: moveToFront_def)

lemma dropEntry_simps [simp]:
  "entries (dropEntry k e c) = AList.delete k (entries c)" "lruList (dropEntry k e c) = removeAll k (lruList c)"
  "curBytes (dropEntry k e c) = curBytes c - sizeBytes e" "maxEntries (dropEntry k e c) = maxEntries c"
  "maxBytes (dropEntry k e c) = maxBytes c"
  by (simp_all add: dropEntry_def)

lemma wf_dropEntry [inv_intros]:
  assumes "cache_wf c"
  shows "cache_wf (dropEntry k e c)"
proof -
  have "fst ` set (AList.delete k (entries c)) = fst ` set (entries c) - {k}"
    unfolding list.set_map [symmetric] AList.delete_keys by auto
  moreover have "set (AList.delete k (entries c)) \<subseteq> set (entries c)"
    by (auto simp: AList.delete_eq)
  ultimately show ?thesis
    using assms by (auto simp: cache_wf_def distinct_removeAll AList.distinct_delete)
qed

lemma drift_dropEntry:
  "cache_wf c \<Longrightarrow> map_of (entries c) k = Some e \<Longrightarrow> drift (dropEntry k e c) = drift c"
  by (simp add: drift_def total_size_def cache_wf_def weight_delete)

lemma evictBack_eq:
  assumes "cache_wf c" "lruList c \<noteq> []"
  obtains e where "map_of (entries c) (last (lruList c)) = Some e"
    and "evictBack c = (dropEntry (last (lruList c)) e c)\<lparr>Evictions := Evictions c + 1\<rparr>"
proof -
  have "last (lruList c) \<in> set (lruList c)" using assms(2) by simp
  with wf_map_of [OF assms(1)] obtain e where e: "map_of (entries c) (last (lruList c)) = Some e" by blast
  moreover have "evictBack c = (dropEntry (last (lruList c)) e c)\<lparr>Evictions := Evictions c + 1\<rparr>"
    using assms e by (simp add: evictBack_def dropEntry_def Let_def cache_wf_def removeAll_last)
  ultimately show thesis by (rule that)
qed

subsection \<open>Loops that drop entries\<close>

text \<open>What \<open>dropEntry\<close> and the eviction loops leave alone.\<close>

definition same_limits :: "cache \<Rightarrow> cache \<Rightarrow> bool" where
  "same_limits c1 c \<longleftrightarrow> maxEntries c1 = maxEntries c \<and> maxBytes c1 = maxBytes c \<and>
     c_disabled c1 = c_disabled c \<and> defaultTTL c1 = defaultTTL c"

lemma same_limits_refl [simp]: "same_limits c c"
  by (simp add: same_limits_def)

lemma same_limits_trans: "same_limits a b \<Longrightarrow> same_limits b c \<Longrightarrow> same_limits a c"
  by (simp add: same_limits_def)

lemma same_limits_dropEntry [simp]: "same_limits (dropEntry k e c) d = same_limits c d"
  by (simp add: same_limits_def dropEntry_def)

lemma same_limits_upd [simp]:
  "same_limits (c\<lparr>Evictions := m\<rparr>) d = same_limits c d" "same_limits (c\<lparr>curBytes := n\<rparr>) d = same_limits c d"
  "same_limits (c\<lparr>lruList := l\<rparr>) d = same_limits c d" "same_limits (c\<lparr>entries := es\<rparr>) d = same_limits c d"
  "same_limits (c\<lparr>hot := h\<rparr>) d = same_limits c d" "same_limits (moveToFront k c) d = same_limits c d"
  by (simp_all add: same_limits_def moveToFront_def)

text \<open>
  A loop over the map that drops the entries which satisfy \<open>P\<close>. The four loops of
  \<^verbatim>\<open>cache.go\<close> have this shape; they differ in the condition and in whether they count.
\<close>

locale drop_loop =
  fixes P :: "string \<times> entry \<Rightarrow> bool"
    and f :: "cache \<Rightarrow> string \<times> entry \<Rightarrow> cache"
  assumes f_drop: "P kv \<Longrightarrow> \<exists>m. f c kv = (dropEntry (fst kv) (snd kv) c)\<lparr>Evictions := m\<rparr>"
    and f_keep: "\<not> P kv \<Longrightarrow> f c kv = c"
begin

definition dropped :: "(string \<times> entry) list \<Rightarrow> string \<Rightarrow> bool" where
  "dropped es k \<longleftrightarrow> (\<exists>e. (k, e) \<in> set es \<and> P (k, e))"

lemma dropped_simps [simp]:
  "dropped [] k = False" "dropped ((l, e) # es) k = ((k = l \<and> P (l, e)) \<or> dropped es k)"
  by (auto simp: dropped_def)

lemma foldl_drop:
  assumes "cache_wf c" "distinct (map fst es)" "\<And>k e. (k, e) \<in> set es \<Longrightarrow> map_of (entries c) k = Some e"
  shows "cache_wf (foldl f c es) \<and> drift (foldl f c es) = drift c \<and> same_limits (foldl f c es) c \<and>
    lruList (foldl f c es) = filter (\<lambda>k. \<not> dropped es k) (lruList c) \<and>
    map_of (entries (foldl f c es)) = (\<lambda>k. if dropped es k then None else map_of (entries c) k)"
  using assms
proof (induction es arbitrary: c)
  case Nil
  then show ?case by simp
next
  case (Cons kv es)
  obtain k e where kv: "kv = (k, e)" by fastforce
  have k: "map_of (entries c) k = Some e" using Cons.prems(3) kv by simp
  show ?case
  proof (cases "P (k, e)")
    case False
    with Cons.IH [of c] Cons.prems kv show ?thesis by (simp add: f_keep)
  next
    case True
    then obtain m where fc: "f c kv = (dropEntry k e c)\<lparr>Evictions := m\<rparr>"
      using f_drop [of kv c] kv by auto
    let ?c = "f c kv"
    have wf: "cache_wf ?c" and dr: "drift ?c = drift c" and lim: "same_limits ?c c"
      using Cons.prems(1) k by (simp_all add: fc wf_dropEntry drift_dropEntry)
    have lru: "lruList ?c = filter (\<lambda>x. x \<noteq> k) (lruList c)"
      by (simp add: fc removeAll_filter_not_eq) metis
    have mo: "map_of (entries ?c) = (map_of (entries c))(k := None)"
      by (simp add: fc delete_conv')
    have "\<And>k' e'. (k', e') \<in> set es \<Longrightarrow> map_of (entries ?c) k' = Some e'"
      using Cons.prems(2,3) kv mo by force
    note IH = Cons.IH [OF wf _ this]
    have fl: "filter (\<lambda>x. x \<noteq> k \<and> \<not> dropped es x) (lruList c) = filter (\<lambda>x. \<not> dropped (kv # es) x) (lruList c)"
      using True kv by (intro filter_cong) auto
    show ?thesis
      using IH Cons.prems(2) dr lim lru mo fl same_limits_trans True kv by (auto simp: fun_eq_iff)
  qed
qed

lemma loop_drop:
  assumes "cache_wf c"
  shows "cache_wf (foldl f c (entries c))" "drift (foldl f c (entries c)) = drift c"
    "same_limits (foldl f c (entries c)) c"
    "lruList (foldl f c (entries c)) = filter (\<lambda>k. \<not> dropped (entries c) k) (lruList c)"
    "map_of (entries (foldl f c (entries c))) k =
      (case map_of (entries c) k of None \<Rightarrow> None | Some e \<Rightarrow> if P (k, e) then None else Some e)"
    "dropped (entries c) k \<longleftrightarrow> (\<exists>e. map_of (entries c) k = Some e \<and> P (k, e))"
proof -
  have d: "distinct (map fst (entries c))" using assms by (simp add: cache_wf_def)
  then have m: "(k, e) \<in> set (entries c) \<longleftrightarrow> map_of (entries c) k = Some e" for k e by simp
  then show dr: "dropped (entries c) k \<longleftrightarrow> (\<exists>e. map_of (entries c) k = Some e \<and> P (k, e))"
    by (simp add: dropped_def)
  note fd = foldl_drop [OF assms d m [THEN iffD1]]
  then show "cache_wf (foldl f c (entries c))" "drift (foldl f c (entries c)) = drift c"
    "same_limits (foldl f c (entries c)) c"
    "lruList (foldl f c (entries c)) = filter (\<lambda>k. \<not> dropped (entries c) k) (lruList c)"
    by simp_all
  show "map_of (entries (foldl f c (entries c))) k =
      (case map_of (entries c) k of None \<Rightarrow> None | Some e \<Rightarrow> if P (k, e) then None else Some e)"
    using fd dr by (auto split: option.split)
qed

end

interpretation expired_evict: drop_loop "\<lambda>kv. now > expiresAt (snd kv)" "evictExpired now" for now
  by unfold_locales (auto simp: evictExpired_def)

interpretation expired_clean: drop_loop "\<lambda>kv. now > expiresAt (snd kv)" "dropIfExpired now" for now
proof unfold_locales
  fix kv :: "string \<times> entry" and c assume "now > expiresAt (snd kv)"
  then have "dropIfExpired now c kv = (dropEntry (fst kv) (snd kv) c)\<lparr>Evictions := Evictions c\<rparr>"
    by (simp add: dropIfExpired_def dropEntry_def)
  then show "\<exists>m. dropIfExpired now c kv = (dropEntry (fst kv) (snd kv) c)\<lparr>Evictions := m\<rparr>" ..
qed (simp add: dropIfExpired_def)

interpretation prefix_drop: drop_loop
    "\<lambda>kv. length (fst kv) \<ge> length prefix \<and> take (length prefix) (fst kv) = prefix"
    "\<lambda>c (k, e). if length k \<ge> length prefix \<and> take (length prefix) k = prefix then dropEntry k e c else c"
  for prefix
proof unfold_locales
  fix kv :: "string \<times> entry" and c
  obtain k e where kv: "kv = (k, e)" by fastforce
  have "dropEntry k e c = (dropEntry k e c)\<lparr>Evictions := Evictions c\<rparr>" by (simp add: dropEntry_def)
  then show "length (fst kv) \<ge> length prefix \<and> take (length prefix) (fst kv) = prefix \<Longrightarrow>
      \<exists>m. (case kv of (k, e) \<Rightarrow> if length k \<ge> length prefix \<and> take (length prefix) k = prefix
             then dropEntry k e c else c) = (dropEntry (fst kv) (snd kv) c)\<lparr>Evictions := m\<rparr>"
    unfolding kv by auto
qed auto

subsection \<open>Eviction\<close>

lemma evictLoop_spec:
  assumes "cache_wf c"
  shows "cache_wf (evictLoop c n) \<and> drift (evictLoop c n) = drift c \<and> same_limits (evictLoop c n) c \<and>
    (\<exists>m. lruList (evictLoop c n) = take m (lruList c)) \<and>
    (\<forall>k. map_of (entries (evictLoop c n)) k =
       (if k \<in> set (lruList (evictLoop c n)) then map_of (entries c) k else None)) \<and>
    (lruList (evictLoop c n) = [] \<or> \<not> overLimit (evictLoop c n) n)"
  using assms
proof (induction c n rule: evictLoop.induct)
  case (1 c n)
  show ?case
  proof (cases "overLimit c n \<and> lruList c \<noteq> []")
    case False
    have "map_of (entries c) k = (if k \<in> set (lruList c) then map_of (entries c) k else None)" for k
      using wf_map_of [OF 1(2), of k] by (cases "map_of (entries c) k") auto
    with False 1(2) show ?thesis
      unfolding evictLoop.simps [of c n] by (auto intro: exI [of _ "length (lruList c)"])
  next
    case True
    obtain e where e: "map_of (entries c) (last (lruList c)) = Some e"
      and eb: "evictBack c = (dropEntry (last (lruList c)) e c)\<lparr>Evictions := Evictions c + 1\<rparr>"
      using evictBack_eq [OF 1(2)] True by blast
    have lru: "lruList (evictBack c) = butlast (lruList c)"
      using True 1(2) by (simp add: eb cache_wf_def removeAll_last)
    have mo: "map_of (entries (evictBack c)) = (map_of (entries c))(last (lruList c) := None)"
      by (simp add: eb delete_conv')
    have base: "cache_wf (evictBack c)" "drift (evictBack c) = drift c" "same_limits (evictBack c) c"
      using 1(2) e by (simp_all add: eb wf_dropEntry drift_dropEntry)
    have unf: "evictLoop c n = evictLoop (evictBack c) n"
      using True by (simp add: evictLoop.simps [of c n])
    note IH = 1(1) [OF True base(1)]
    then obtain m where m: "lruList (evictLoop (evictBack c) n) = take m (butlast (lruList c))"
      using lru by auto
    then have sub: "set (lruList (evictLoop (evictBack c) n)) \<subseteq> set (butlast (lruList c))"
      by (simp add: set_take_subset)
    have "last (lruList c) \<notin> set (butlast (lruList c))"
      using True 1(2) unfolding cache_wf_def by (metis append_butlast_last_id distinct_append disjoint_iff list.set_intros(1))
    then have "map_of (entries (evictLoop c n)) k =
        (if k \<in> set (lruList (evictLoop c n)) then map_of (entries c) k else None)" for k
      using IH sub mo unf by auto
    moreover have "\<exists>m. lruList (evictLoop c n) = take m (lruList c)"
      unfolding unf m butlast_conv_take take_take by blast
    ultimately show ?thesis
      using IH base same_limits_trans unf by auto
  qed
qed

text \<open>A key at the front survives the loop: everything else is evicted first, and then it fits.\<close>

lemma evictLoop_keeps_front:
  assumes "cache_wf c" "lruList c = key # rest" "map_of (entries c) key = Some old"
    "sizeBytes old \<le> drift c" "2 \<le> maxEntries c" "n \<le> maxBytes c"
  shows "key \<in> set (lruList (evictLoop c n))"
  using assms
proof (induction c n arbitrary: rest rule: evictLoop.induct)
  case (1 c n)
  show ?case
  proof (cases "overLimit c n \<and> lruList c \<noteq> []")
    case False
    with 1(3) show ?thesis unfolding evictLoop.simps [of c n] by auto
  next
    case True
    have "rest \<noteq> []"
    proof
      assume "rest = []"
      with wf_length [OF 1(2)] 1(3) have len: "length (entries c) = 1" by simp
      then obtain l e where ent: "entries c = [(l, e)]" by (cases "entries c"; cases "hd (entries c)") auto
      with 1(4) have "total_size c = sizeBytes old" by (simp add: total_size_def split: if_splits)
      with 1(5) have "curBytes c \<le> 0" by (simp add: drift_def)
      with len True 1(6,7) show False by (simp add: overLimit_def)
    qed
    obtain e where e: "map_of (entries c) (last (lruList c)) = Some e"
      and eb: "evictBack c = (dropEntry (last (lruList c)) e c)\<lparr>Evictions := Evictions c + 1\<rparr>"
      using evictBack_eq [OF 1(2)] True by blast
    have "removeAll (last (lruList c)) (lruList c) = butlast (lruList c)"
      using True 1(2) by (simp add: cache_wf_def removeAll_last)
    then have lru: "lruList (evictBack c) = key # butlast rest"
      using \<open>rest \<noteq> []\<close> 1(3) by (simp add: eb)
    have "key \<noteq> last (lruList c)"
      using \<open>rest \<noteq> []\<close> 1(2,3) by (auto simp: cache_wf_def)
    then have "map_of (entries (evictBack c)) key = Some old"
      using 1(4) by (simp add: eb delete_conv')
    moreover have "cache_wf (evictBack c)" "drift (evictBack c) = drift c"
      "maxEntries (evictBack c) = maxEntries c" "maxBytes (evictBack c) = maxBytes c"
      using 1(2) e by (simp_all add: eb wf_dropEntry drift_dropEntry)
    ultimately have "key \<in> set (lruList (evictLoop (evictBack c) n))"
      using 1(1) [OF True _ lru] 1(5-7) by simp
    with True show ?thesis unfolding evictLoop.simps [of c n] by simp
  qed
qed

text \<open>What an eviction leaves: a well-formed cache with the same drift, in which a subset of the
  entries is unchanged, and which has room unless it is empty.\<close>

definition evicted_to :: "cache \<Rightarrow> cache \<Rightarrow> int \<Rightarrow> bool" where
  "evicted_to c c' n \<longleftrightarrow> cache_wf c' \<and> drift c' = drift c \<and> same_limits c' c \<and>
     map_of (entries c') \<subseteq>\<^sub>m map_of (entries c) \<and> (lruList c' = [] \<or> \<not> overLimit c' n)"

lemma evictLoop_evicted:
  assumes "cache_wf c"
  shows "evicted_to c (evictLoop c n) n"
proof -
  note spec = evictLoop_spec [OF assms, of n]
  then have "map_of (entries (evictLoop c n)) \<subseteq>\<^sub>m map_of (entries c)"
    by (auto simp: map_le_def dom_def split: if_splits)
  with spec show ?thesis by (simp add: evicted_to_def)
qed

lemma evictIfNeeded_evicted:
  assumes "cache_wf c"
  shows "evicted_to c (evictIfNeeded c n now) n"
proof (cases "overLimit c n")
  case False
  with evictLoop_evicted [OF assms] show ?thesis by (simp add: evictIfNeeded_def)
next
  case True
  let ?d = "foldl (evictExpired now) c (entries c)"
  note l = expired_evict.loop_drop [OF assms, of now]
  have "map_of (entries ?d) \<subseteq>\<^sub>m map_of (entries c)"
    by (auto simp: map_le_def dom_def l(5) split: option.splits if_splits)
  moreover have "evicted_to ?d (evictLoop ?d n) n"
    by (rule evictLoop_evicted [OF l(1)])
  ultimately show ?thesis
    using True l(2,3) same_limits_trans map_le_trans
    by (auto simp: evictIfNeeded_def evicted_to_def Let_def)
qed

text \<open>A live key at the front of the list stays.\<close>

lemma evictIfNeeded_keeps_front:
  assumes "cache_wf c" "lruList c = key # rest" "map_of (entries c) key = Some old"
    "sizeBytes old \<le> drift c" "2 \<le> maxEntries c" "n \<le> maxBytes c" "now \<le> expiresAt old"
  shows "key \<in> set (lruList (evictIfNeeded c n now))"
proof (cases "overLimit c n")
  case False
  with evictLoop_keeps_front [OF assms(1-6)] show ?thesis by (simp add: evictIfNeeded_def)
next
  case True
  let ?d = "foldl (evictExpired now) c (entries c)"
  note l = expired_evict.loop_drop [OF assms(1), of now]
  have "\<not> expired_evict.dropped now (entries c) key"
    using assms(3,7) by (simp add: l(6))
  then have "lruList ?d = key # filter (\<lambda>k. \<not> expired_evict.dropped now (entries c) k) rest"
    using assms(2) by (simp add: l(4))
  from evictLoop_keeps_front [OF l(1) this, of old n] show ?thesis
    using True assms l(2,3) l(5) [of key] by (simp add: evictIfNeeded_def same_limits_def Let_def)
qed

text \<open>The cache that \<open>storeLocalLocked\<close> hands to \<open>evictIfNeeded\<close>, and what comes back.\<close>

definition store_released :: "cache \<Rightarrow> string \<Rightarrow> cache" where
  "store_released c key =
     (case map_of (entries c) key of
        Some old \<Rightarrow> moveToFront key (c\<lparr>curBytes := curBytes c - sizeBytes old\<rparr>)
      | None \<Rightarrow> c)"

definition store_room :: "cache \<Rightarrow> string \<Rightarrow> int \<Rightarrow> time \<Rightarrow> cache" where
  "store_room c key sz now = evictIfNeeded (store_released c key) sz now"

lemma store_released_props:
  assumes "cache_wf c"
  shows "cache_wf (store_released c key)"
    "drift (store_released c key) =
      drift c + (case map_of (entries c) key of Some old \<Rightarrow> sizeBytes old | None \<Rightarrow> 0)"
    "same_limits (store_released c key) c"
    "entries (store_released c key) = entries c"
proof -
  show "cache_wf (store_released c key)"
    using assms by (simp add: store_released_def wf_moveToFront split: option.split)
qed (auto simp: store_released_def drift_def total_size_def same_limits_def moveToFront_def split: option.split)

lemma wf_insert:
  assumes "cache_wf c" "sizeBytes e = int (length (val e))"
  shows "cache_wf (c\<lparr>entries := AList.update key e (entries c), curBytes := n,
    lruList := (if key \<in> set (lruList c) then lruList c else key # lruList c)\<rparr>)"
  using assms set_update_subset [of key e "entries c"]
  by (auto simp: cache_wf_def AList.distinct_update AList.dom_update)

lemma storeLocalLocked_eq:
  "storeLocalLocked c key v ttl sz now =
    (let c2 = store_room c key sz now
     in c2\<lparr>entries := AList.update key \<lparr>val = v, expiresAt = now + ttl, sizeBytes = sz\<rparr> (entries c2),
           curBytes := curBytes c2 + sz,
           lruList := (if key \<in> set (lruList c2) then lruList c2 else key # lruList c2)\<rparr>)"
  by (simp add: storeLocalLocked_def store_room_def store_released_def Let_def)

lemma store_room_evicted:
  "cache_wf c \<Longrightarrow> evicted_to (store_released c key) (store_room c key sz now) sz"
  unfolding store_room_def by (intro evictIfNeeded_evicted store_released_props)

text \<open>
  One store. The size of the old value is released twice when the eviction removes the key
  itself, so the drift grows by that size exactly then.
\<close>

lemma store_props:
  fixes c key v ttl sz now
  assumes "cache_wf c" "sz = int (length v)"
  defines "c' \<equiv> storeLocalLocked c key v ttl sz now" and "r \<equiv> store_room c key sz now"
  shows "cache_wf c'" "same_limits c' c"
    "map_of (entries c') = (map_of (entries r))(key \<mapsto> \<lparr>val = v, expiresAt = now + ttl, sizeBytes = sz\<rparr>)"
    "map_of (entries r) \<subseteq>\<^sub>m map_of (entries c)"
    "drift c' = drift c + (case map_of (entries c) key of
        Some old \<Rightarrow> if key \<in> set (lruList r) then 0 else sizeBytes old | None \<Rightarrow> 0)"
proof -
  have e: "evicted_to (store_released c key) r sz"
    unfolding r_def by (rule store_room_evicted [OF assms(1)])
  note rel = store_released_props [OF assms(1), of key]
  show le: "map_of (entries r) \<subseteq>\<^sub>m map_of (entries c)"
    using e by (simp add: evicted_to_def rel(4))
  have c': "c' = r\<lparr>entries := AList.update key \<lparr>val = v, expiresAt = now + ttl, sizeBytes = sz\<rparr> (entries r),
      curBytes := curBytes r + sz, lruList := (if key \<in> set (lruList r) then lruList r else key # lruList r)\<rparr>"
    unfolding c'_def r_def storeLocalLocked_eq Let_def ..
  have wr: "cache_wf r" using e by (simp add: evicted_to_def)
  show "cache_wf c'"
    unfolding c' by (rule wf_insert [OF wr]) (simp add: assms(2))
  show "same_limits c' c"
    using e rel(3) same_limits_trans
    by (auto simp: c' evicted_to_def)
  show "map_of (entries c') = (map_of (entries r))(key \<mapsto> \<lparr>val = v, expiresAt = now + ttl, sizeBytes = sz\<rparr>)"
    by (simp add: c' AList.update_conv')
  have d: "drift c' = drift r - (case map_of (entries r) key of Some w \<Rightarrow> sizeBytes w | None \<Rightarrow> 0)"
    using wr by (simp add: c' drift_def total_size_def weight_update cache_wf_def)
  have m: "map_of (entries r) key = (if key \<in> set (lruList r) then map_of (entries c) key else None)"
    using le wf_map_of [OF wr, of key] by (cases "map_of (entries r) key") (auto simp: map_le_def dom_def)
  show "drift c' = drift c + (case map_of (entries c) key of
        Some old \<Rightarrow> if key \<in> set (lruList r) then 0 else sizeBytes old | None \<Rightarrow> 0)"
    using d m e rel(2) by (auto simp: evicted_to_def split: option.split)
qed

lemma store_exact:
  assumes "cache_wf c" "sz = int (length v)" "0 \<le> drift c" "2 \<le> maxEntries c" "sz \<le> maxBytes c"
    and live: "\<And>old. map_of (entries c) key = Some old \<Longrightarrow> now \<le> expiresAt old"
  shows "drift (storeLocalLocked c key v ttl sz now) = drift c"
proof (cases "map_of (entries c) key")
  case None
  then show ?thesis by (simp add: store_props(5) [OF assms(1,2)])
next
  case (Some old)
  then have "key \<in> set (lruList c)" using wf_map_of [OF assms(1)] by blast
  with Some have "lruList (store_released c key) = key # removeAll key (lruList c)"
    by (simp add: store_released_def moveToFront_def)
  from evictIfNeeded_keeps_front [OF store_released_props(1) [OF assms(1)] this, of old sz now]
  have "key \<in> set (lruList (store_room c key sz now))"
    using Some live assms store_released_props [OF assms(1), of key]
    by (simp add: store_room_def same_limits_def)
  with Some show ?thesis by (simp add: store_props(5) [OF assms(1,2)])
qed

lemma store_bounds:
  assumes "cache_wf c" "sz = int (length v)" "0 \<le> drift c" "1 \<le> maxEntries c" "sz \<le> maxBytes c"
  shows "curBytes (storeLocalLocked c key v ttl sz now) \<le> maxBytes c"
    "int (length (entries (storeLocalLocked c key v ttl sz now))) \<le> maxEntries c"
proof -
  let ?r = "store_room c key sz now"
  have e: "evicted_to (store_released c key) ?r sz" by (rule store_room_evicted [OF assms(1)])
  note rel = store_released_props [OF assms(1), of key]
  have lim: "maxEntries ?r = maxEntries c" "maxBytes ?r = maxBytes c"
    using e rel(3) by (auto simp: evicted_to_def same_limits_def)
  have "0 \<le> drift ?r"
    using e rel(2) assms(3) wf_size [OF assms(1)] by (auto simp: evicted_to_def split: option.splits)
  then have "lruList ?r = [] \<Longrightarrow> curBytes ?r \<le> 0 \<and> entries ?r = []"
    using e wf_length [of ?r] by (auto simp: evicted_to_def drift_def total_size_def)
  then have "curBytes ?r + sz \<le> maxBytes c" "int (length (entries ?r)) < maxEntries c"
    using e assms(4,5) lim by (auto simp: evicted_to_def overLimit_def)
  moreover have "length (AList.update key x (entries ?r)) \<le> Suc (length (entries ?r))" for x
    using e by (simp add: length_update evicted_to_def cache_wf_def split: option.split)
  ultimately show "curBytes (storeLocalLocked c key v ttl sz now) \<le> maxBytes c"
    "int (length (entries (storeLocalLocked c key v ttl sz now))) \<le> maxEntries c"
    by (auto simp: storeLocalLocked_eq Let_def) (smt (verit) of_nat_Suc of_nat_le_iff)
qed

subsection \<open>Runs of the cache\<close>

datatype cacheOp =
    CSet string bytes duration time
  | CGet string time
  | CInvalidate string
  | CInvalidatePrefix string
  | CCleanup time
  | CPromote time

fun cache_step :: "cache \<Rightarrow> cacheOp \<Rightarrow> cache" where
  "cache_step c (CSet key v ttl now) = SetLocalOnlyWithTTL c key v ttl now"
| "cache_step c (CGet key now) = snd (GetWithTTL c key now)"
| "cache_step c (CInvalidate key) = Invalidate c key"
| "cache_step c (CInvalidatePrefix prefix) = InvalidatePrefix c prefix"
| "cache_step c (CCleanup now) = cleanup c now"
| "cache_step c (CPromote now) = runPromoter_step c now"

text \<open>The operations that store nothing: they leave a part of the map, the drift and the limits.\<close>

definition shrinks :: "cache \<Rightarrow> cache \<Rightarrow> bool" where
  "shrinks c c' \<longleftrightarrow> cache_wf c' \<and> drift c' = drift c \<and> same_limits c' c \<and>
     map_of (entries c') \<subseteq>\<^sub>m map_of (entries c)"

lemma shrinks_bounds:
  assumes "cache_wf c" "shrinks c c'"
  shows "curBytes c' \<le> curBytes c" "length (entries c') \<le> length (entries c)"
proof -
  have "0 \<le> sizeBytes e" if "(k, e) \<in> set (entries c)" for k e
    using that assms(1) by (auto simp: cache_wf_def)
  note sub = submap_weight [OF _ _ _ this, of "entries c'"]
  then show "length (entries c') \<le> length (entries c)"
    using assms by (simp add: shrinks_def cache_wf_def)
  have "total_size c' \<le> total_size c"
    using sub assms by (simp add: shrinks_def cache_wf_def total_size_def)
  then show "curBytes c' \<le> curBytes c"
    using assms(2) by (simp add: shrinks_def drift_def)
qed

lemma same_limits_misc [simp]:
  "same_limits (sendPromote k c) d = same_limits c d" "same_limits (c\<lparr>Hits := m\<rparr>) d = same_limits c d"
  "same_limits (c\<lparr>promoteBuf := b\<rparr>) d = same_limits c d" "same_limits (c\<lparr>l0Stats := st\<rparr>) d = same_limits c d"
  by (simp_all add: same_limits_def sendPromote_def)

lemma shrinks_refl_upd [simp]:
  "shrinks c (c\<lparr>hot := h\<rparr>) = shrinks c c" "shrinks c (c\<lparr>Hits := m\<rparr>) = shrinks c c"
  by (simp_all add: shrinks_def)

lemma shrinks_refl: "cache_wf c \<Longrightarrow> shrinks c c"
  by (simp add: shrinks_def)

lemma shrinks_trans: "shrinks a b \<Longrightarrow> shrinks b c \<Longrightarrow> shrinks a c"
  unfolding shrinks_def using same_limits_trans map_le_trans by metis

lemma shrinks_dropEntry:
  "cache_wf c \<Longrightarrow> map_of (entries c) k = Some e \<Longrightarrow> shrinks c (dropEntry k e c)"
  by (auto simp: shrinks_def wf_dropEntry drift_dropEntry delete_conv' map_le_def)

lemma shrinks_Invalidate: "cache_wf c \<Longrightarrow> shrinks c (Invalidate c key)"
  by (simp add: Invalidate_def shrinks_refl shrinks_dropEntry split: option.split)

lemma InvalidatePrefix_map:
  "cache_wf c \<Longrightarrow> map_of (entries (InvalidatePrefix c p)) k =
    (if length p \<le> length k \<and> take (length p) k = p then None else map_of (entries c) k)"
  unfolding InvalidatePrefix_def by (subst prefix_drop.loop_drop(5)) (auto split: option.split)

lemma shrinks_InvalidatePrefix:
  assumes "cache_wf c"
  shows "shrinks c (InvalidatePrefix c p)"
  using prefix_drop.loop_drop(1-3) [OF assms, of p] InvalidatePrefix_map [OF assms, of p]
  by (auto simp: shrinks_def map_le_def dom_def InvalidatePrefix_def [symmetric] split: if_splits)

lemma shrinks_cleanup:
  assumes "cache_wf c"
  shows "shrinks c (cleanup c now)"
  unfolding shrinks_def cleanup_def map_le_def dom_def
  using expired_clean.loop_drop(1-3,5) [OF assms, of now] by (auto split: option.splits if_splits)

lemma shrinks_Get: "cache_wf c \<Longrightarrow> shrinks c (snd (GetWithTTL c key now))"
  by (auto simp: GetWithTTL_def sendPromote_def shrinks_def Let_def split: option.split)

lemma prune_frame: "\<exists>h. pruneHotLocked c n = c\<lparr>hot := h\<rparr>"
proof (cases "n \<le> 0 \<or> hot c = []")
  case True
  then have "pruneHotLocked c n = c\<lparr>hot := hot c\<rparr>" by (simp add: pruneHotLocked_def)
  then show ?thesis ..
next
  case False
  then show ?thesis by (simp add: pruneHotLocked_def Let_def) blast
qed

lemma recordHot_frame: "\<exists>h st. recordHotLocked c key now = c\<lparr>l0Stats := st, hot := h\<rparr>"
proof -
  obtain st h where eq: "recordHotLocked c key now =
      (let c1 = c\<lparr>l0Stats := st, hot := h\<rparr>
       in if int (length (hot c1)) \<le> hotMax c1 then c1 else pruneHotLocked c1 (int (length (hot c1)) - hotMax c1))"
    unfolding recordHotLocked_def Let_def split_def by blast
  obtain h' where "pruneHotLocked (c\<lparr>l0Stats := st, hot := h\<rparr>) (int (length h) - hotMax c) = c\<lparr>l0Stats := st, hot := h'\<rparr>"
    using prune_frame [of "c\<lparr>l0Stats := st, hot := h\<rparr>"] by auto
  with eq show ?thesis by (auto simp: Let_def)
qed

lemma shrinks_promote:
  assumes "cache_wf c"
  shows "shrinks c (runPromoter_step c now)"
proof (cases "promoteBuf c")
  case (Cons key rest)
  let ?m = "moveToFront key (c\<lparr>promoteBuf := rest\<rparr>)"
  obtain h st where "recordHotLocked ?m key now = ?m\<lparr>l0Stats := st, hot := h\<rparr>"
    using recordHot_frame by blast
  then have "shrinks c (recordHotLocked ?m key now)" "shrinks c ?m"
    using assms by (simp_all add: shrinks_def wf_moveToFront)
  with Cons show ?thesis by (simp add: runPromoter_step_def applyKey_def Let_def)
qed (simp add: runPromoter_step_def shrinks_refl assms)

lemmas shrinks_ops = shrinks_Invalidate shrinks_InvalidatePrefix shrinks_cleanup shrinks_Get shrinks_promote

definition cache_ok :: "cache \<Rightarrow> bool" where
  "cache_ok c \<longleftrightarrow> cache_wf c \<and> 0 \<le> drift c \<and> 1 \<le> maxEntries c \<and> 0 \<le> maxBytes c \<and>
     int (length (entries c)) \<le> maxEntries c \<and> curBytes c \<le> maxBytes c"

lemma cache_ok_shrinks: "cache_ok c \<Longrightarrow> shrinks c c' \<Longrightarrow> cache_ok c'"
  using shrinks_bounds [of c c'] by (auto simp: cache_ok_def shrinks_def same_limits_def)

lemma SetLocalOnly_cases:
  obtains "SetLocalOnlyWithTTL c key v ttl now = c"
  | "int (length v) \<le> goDiv (maxBytes c) 10" "\<not> c_disabled c"
    "SetLocalOnlyWithTTL c key v ttl now = storeLocalLocked c key v ttl (int (length v)) now"
proof (cases "c_disabled c \<or> int (length v) > goDiv (maxBytes c) 10")
  case True
  then have "SetLocalOnlyWithTTL c key v ttl now = c" by (auto simp: SetLocalOnlyWithTTL_def)
  then show thesis by (rule that(1))
next
  case False
  then have "SetLocalOnlyWithTTL c key v ttl now = storeLocalLocked c key v ttl (int (length v)) now"
    by (simp add: SetLocalOnlyWithTTL_def)
  with False show thesis by (intro that(2)) simp_all
qed

lemma max_entry_fits: "0 \<le> m \<Longrightarrow> n \<le> goDiv m 10 \<Longrightarrow> n \<le> m"
  by (simp add: goDiv_nonneg)

lemma cache_ok_Set:
  assumes "cache_ok c"
  shows "cache_ok (SetLocalOnlyWithTTL c key v ttl now)"
proof (cases rule: SetLocalOnly_cases [of c key v ttl now])
  case 2
  let ?c = "storeLocalLocked c key v ttl (int (length v)) now"
  have wf: "cache_wf c" using assms by (simp add: cache_ok_def)
  have fit: "int (length v) \<le> maxBytes c"
    using 2(1) assms by (simp add: cache_ok_def max_entry_fits)
  have "drift c \<le> drift ?c"
    using wf_size [OF wf] by (auto simp: store_props(5) [OF wf refl] split: option.split)
  then show ?thesis
    using assms store_props(1,2) [OF wf refl, of key v ttl now] store_bounds [OF wf refl _ _ fit, of key ttl now]
    by (auto simp: 2(3) cache_ok_def same_limits_def)
qed (use assms in simp)

interpretation lru: invariant_machine cache_step cache_ok
proof
  fix c op assume ok: "cache_ok c"
  then have "cache_wf c" by (simp add: cache_ok_def)
  with ok show "cache_ok (cache_step c op)"
    by (cases op) (auto intro: cache_ok_Set cache_ok_shrinks shrinks_ops)
qed

lemma cache_ok_New: "1 \<le> me \<Longrightarrow> 0 \<le> mb \<Longrightarrow> cache_ok (NewWithMaxBytes ttl me mb)"
  by (simp add: cache_ok_def NewWithMaxBytes_def cache_wf_def drift_def total_size_def)

lemma limits_step: "cache_wf c \<Longrightarrow> same_limits (cache_step c op) c"
proof (cases op)
  case (CSet key v ttl now)
  assume "cache_wf c"
  then show ?thesis
    using CSet by (cases rule: SetLocalOnly_cases [of c key v ttl now]) (simp_all add: store_props)
qed (auto dest: shrinks_ops simp: shrinks_def)

lemma limits_run: "cache_ok c \<Longrightarrow> same_limits (run cache_step c ops) c"
proof (induction ops arbitrary: c)
  case (Cons op ops)
  moreover have "same_limits (cache_step c op) c"
    using Cons.prems by (simp add: cache_ok_def limits_step)
  ultimately show ?case
    using lru.step_inv by (auto intro: same_limits_trans)
qed simp

text \<open>A run that overwrites an entry only while it is live.\<close>

primrec overwrites_live :: "cache \<Rightarrow> cacheOp list \<Rightarrow> bool" where
  "overwrites_live c [] = True"
| "overwrites_live c (op # ops) =
     ((case op of
         CSet key v ttl now \<Rightarrow> (case map_of (entries c) key of Some old \<Rightarrow> now \<le> expiresAt old | None \<Rightarrow> True)
       | _ \<Rightarrow> True) \<and> overwrites_live (cache_step c op) ops)"

lemma drift_step:
  assumes "cache_ok c" "2 \<le> maxEntries c" "overwrites_live c [op]"
  shows "drift (cache_step c op) = drift c"
proof (cases op)
  case (CSet key v ttl now)
  show ?thesis
  proof (cases rule: SetLocalOnly_cases [of c key v ttl now])
    case 2
    have "now \<le> expiresAt old" if "map_of (entries c) key = Some old" for old
      using that assms(3) CSet by simp
    with store_exact [OF _ refl, of c v key now ttl] 2 assms(1,2) show ?thesis
      by (simp add: CSet cache_ok_def max_entry_fits)
  qed (simp add: CSet)
qed (use assms(1) in \<open>simp_all add: cache_ok_def shrinks_ops [unfolded shrinks_def]\<close>)

lemma drift_run:
  "cache_ok c \<Longrightarrow> 2 \<le> maxEntries c \<Longrightarrow> overwrites_live c ops \<Longrightarrow> drift (run cache_step c ops) = drift c"
proof (induction ops arbitrary: c)
  case (Cons op ops)
  have "same_limits (cache_step c op) c"
    using Cons.prems by (simp add: cache_ok_def limits_step)
  then show ?case
    using Cons lru.step_inv [of c op] drift_step [of c op] by (simp add: same_limits_def)
qed simp

text \<open>
  C14: however the cache is used, it never holds more than \<open>maxEntries\<close> entries, each key once and
  in the list of uses, its byte counter never exceeds \<open>maxBytes\<close>, and when an entry is only
  overwritten while it is live the counter is the number of bytes held, so that those are bounded by
  \<open>maxBytes\<close> too.
\<close>

theorem cache_bounded:
  assumes "1 \<le> me" "0 \<le> mb"
  shows "let c = run cache_step (NewWithMaxBytes ttl me mb) ops in
    cache_wf c \<and> fst (Size c) \<le> me \<and> snd (Size c) \<le> mb \<and> snd (Size c) \<le> total_size c \<and>
    (2 \<le> me \<and> overwrites_live (NewWithMaxBytes ttl me mb) ops \<longrightarrow>
      snd (Size c) = total_size c \<and> total_size c \<le> mb)"
proof -
  let ?n = "NewWithMaxBytes ttl me mb"
  define c where "c = run cache_step ?n ops"
  have n: "cache_ok ?n" by (rule cache_ok_New [OF assms(1,2)])
  have ok: "cache_ok c" unfolding c_def by (rule lru.run_inv [OF n])
  have lim: "maxEntries c = me" "maxBytes c = mb"
    using limits_run [OF n, of ops] by (simp_all add: c_def same_limits_def NewWithMaxBytes_def)
  have "2 \<le> me \<and> overwrites_live ?n ops \<longrightarrow> drift c = 0"
    using drift_run [OF n, of ops] by (simp add: c_def NewWithMaxBytes_def drift_def total_size_def)
  with ok lim show ?thesis by (auto simp: cache_ok_def Size_def drift_def Let_def simp flip: c_def)
qed

theorem cache_bounded_witness:
  "let c = run cache_step (NewWithMaxBytes 5 2 20) [CSet ''a'' ''x'' 9 0, CSet ''a'' ''yz'' 9 1, CSet ''b'' ''z'' 9 2]
   in cache_wf c \<and> fst (Size c) \<le> 2 \<and> snd (Size c) \<le> 20 \<and> snd (Size c) = total_size c"
  using cache_bounded [of 2 20 5 "[CSet ''a'' ''x'' 9 0, CSet ''a'' ''yz'' 9 1, CSet ''b'' ''z'' 9 2]"]
  by (simp add: Let_def) code_simp


subsection \<open>What a read returns\<close>

text \<open>The specification: the last accepted write of a key, unless it was invalidated since.\<close>

fun spec_step :: "int \<Rightarrow> (string \<rightharpoonup> bytes \<times> time) \<Rightarrow> cacheOp \<Rightarrow> (string \<rightharpoonup> bytes \<times> time)" where
  "spec_step mb m (CSet key v ttl now) =
     (if int (length v) > goDiv mb 10 then m else m(key \<mapsto> (v, now + ttl)))"
| "spec_step mb m (CInvalidate key) = m(key := None)"
| "spec_step mb m (CInvalidatePrefix prefix) =
     (\<lambda>k. if length prefix \<le> length k \<and> take (length prefix) k = prefix then None else m k)"
| "spec_step mb m (CGet key now) = m"
| "spec_step mb m (CCleanup now) = m"
| "spec_step mb m (CPromote now) = m"

definition held :: "cache \<Rightarrow> string \<rightharpoonup> bytes \<times> time" where
  "held c k = map_option (\<lambda>e. (val e, expiresAt e)) (map_of (entries c) k)"

lemma held_shrinks: "shrinks c c' \<Longrightarrow> held c' \<subseteq>\<^sub>m held c"
  by (fastforce simp: shrinks_def held_def map_le_def dom_def)

lemma held_store:
  assumes "cache_wf c"
  shows "held (storeLocalLocked c key v ttl (int (length v)) now) \<subseteq>\<^sub>m (held c)(key \<mapsto> (v, now + ttl))"
  using store_props(3) [OF assms refl, of key v ttl now]
    store_props(4) [OF assms refl, where key = key and v = v and now = now]
  by (fastforce simp: held_def map_le_def dom_def)

lemma held_step:
  assumes "cache_wf c" "\<not> c_disabled c"
  shows "held (cache_step c op) \<subseteq>\<^sub>m spec_step (maxBytes c) (held c) op"
proof (cases op)
  case (CSet key v ttl now)
  then show ?thesis
    using assms held_store [OF assms(1)] by (simp add: SetLocalOnlyWithTTL_def)
next
  case (CInvalidate key)
  have "held (Invalidate c key) key = None"
    by (simp add: held_def Invalidate_def delete_conv' split: option.split)
  with held_shrinks [OF shrinks_Invalidate [OF assms(1), of key]] CInvalidate show ?thesis
    by (auto simp: map_le_def dom_def)
next
  case (CInvalidatePrefix p)
  then show ?thesis
    using InvalidatePrefix_map [OF assms(1)] by (auto simp: held_def map_le_def dom_def)
qed (simp_all add: held_shrinks shrinks_ops assms)

lemma spec_step_mono: "m \<subseteq>\<^sub>m m' \<Longrightarrow> spec_step mb m op \<subseteq>\<^sub>m spec_step mb m' op"
  by (cases op) (auto simp: map_le_def dom_def)

lemma held_run:
  assumes "cache_ok c" "\<not> c_disabled c" "held c \<subseteq>\<^sub>m m"
  shows "held (run cache_step c ops) \<subseteq>\<^sub>m run (spec_step (maxBytes c)) m ops"
  using assms
proof (induction ops arbitrary: c m)
  case (Cons op ops)
  have wf: "cache_wf c" using Cons.prems by (simp add: cache_ok_def)
  then have "same_limits (cache_step c op) c" by (rule limits_step)
  moreover have "held (cache_step c op) \<subseteq>\<^sub>m spec_step (maxBytes c) m op"
    by (rule map_le_trans [OF held_step [OF wf Cons.prems(2)] spec_step_mono [OF Cons.prems(3)]])
  ultimately show ?case
    using Cons.IH [of "cache_step c op" "spec_step (maxBytes c) m op"] Cons.prems lru.step_inv
    by (simp add: same_limits_def)
qed simp

lemma reachable_cache:
  assumes "1 \<le> me" "0 \<le> mb"
  shows "cache_ok (run cache_step (NewWithMaxBytes ttl me mb) ops)"
    "same_limits (run cache_step (NewWithMaxBytes ttl me mb) ops) (NewWithMaxBytes ttl me mb)"
    "held (run cache_step (NewWithMaxBytes ttl me mb) ops) \<subseteq>\<^sub>m run (spec_step mb) Map.empty ops"
proof -
  have n: "cache_ok (NewWithMaxBytes ttl me mb)" by (rule cache_ok_New [OF assms])
  then show "cache_ok (run cache_step (NewWithMaxBytes ttl me mb) ops)"
    "same_limits (run cache_step (NewWithMaxBytes ttl me mb) ops) (NewWithMaxBytes ttl me mb)"
    by (rule lru.run_inv limits_run)+
  show "held (run cache_step (NewWithMaxBytes ttl me mb) ops) \<subseteq>\<^sub>m run (spec_step mb) Map.empty ops"
    using held_run [OF n, of Map.empty ops] by (simp add: NewWithMaxBytes_def held_def [abs_def])
qed

text \<open>
  C16: over every run, a value that the cache returns for a key is the one last written and not
  invalidated since, with exactly the time to live that is left of that write; a stale read
  returns it after that time too.
\<close>

theorem cache_sound:
  assumes "1 \<le> me" "0 \<le> mb"
  shows "let c = run cache_step (NewWithMaxBytes ttl me mb) ops; m = run (spec_step mb) Map.empty ops in
    (case fst (GetWithTTL c key now) of None \<Rightarrow> True
     | Some (v, remaining) \<Rightarrow> 0 < remaining \<and> m key = Some (v, now + remaining)) \<and>
    (case GetStaleWithTTL c key now of None \<Rightarrow> True
     | Some (v, remaining) \<Rightarrow> m key = Some (v, now + remaining))"
proof -
  define c where "c = run cache_step (NewWithMaxBytes ttl me mb) ops"
  define m where "m = run (spec_step mb) Map.empty ops"
  have "held c \<subseteq>\<^sub>m m" unfolding c_def m_def by (rule reachable_cache(3) [OF assms])
  then have "m key = Some (val e, expiresAt e)" if "map_of (entries c) key = Some e" for e
    using that by (auto simp: held_def map_le_def dom_def)
  then show ?thesis
    unfolding Let_def c_def [symmetric] m_def [symmetric]
    by (auto simp: GetWithTTL_def GetStaleWithTTL_def split: option.splits if_splits)
qed

theorem cache_sound_witness:
  "let c = run cache_step (NewWithMaxBytes 5 2 20) [CSet ''a'' ''x'' 9 0]
   in fst (GetWithTTL c ''a'' 4) = Some (''x'', 5) \<and>
      run (spec_step 20) Map.empty [CSet ''a'' ''x'' 9 0] ''a'' = Some (''x'', 9)"
proof -
  have "fst (GetWithTTL (run cache_step (NewWithMaxBytes 5 2 20) [CSet ''a'' ''x'' 9 0]) ''a'' 4) = Some (''x'', 5)"
    by code_simp
  with cache_sound [of 2 20 5 "[CSet ''a'' ''x'' 9 0]" "''a''" 4] show ?thesis by (simp add: Let_def)
qed

text \<open>
  C17: a value that is not too large is returned after it was stored, until its time to live is
  over, and storing it changes no other key other than by evicting it.
\<close>

theorem store_then_read:
  assumes "1 \<le> me" "0 \<le> mb" "int (length v) \<le> goDiv mb 10" "now' < now + ttl'"
  shows "let c = run cache_step (NewWithMaxBytes ttl me mb) ops; c' = SetLocalOnlyWithTTL c key v ttl' now in
    fst (GetWithTTL c' key now') = Some (v, now + ttl' - now') \<and>
    (\<forall>k. k \<noteq> key \<longrightarrow> map_of (entries c') k \<in> {None, map_of (entries c) k})"
proof -
  define c where "c = run cache_step (NewWithMaxBytes ttl me mb) ops"
  have wf: "cache_wf c" and lim: "c_disabled c = False" "maxBytes c = mb"
    using reachable_cache(1,2) [OF assms(1,2), of ttl ops]
    by (simp_all add: c_def cache_ok_def same_limits_def NewWithMaxBytes_def)
  have eq: "SetLocalOnlyWithTTL c key v ttl' now = storeLocalLocked c key v ttl' (int (length v)) now"
    using lim assms(3) by (simp add: SetLocalOnlyWithTTL_def)
  note sp = store_props(2,3) [OF wf refl, of key v ttl' now]
    store_props(4) [OF wf refl, where key = key and v = v and now = now]
  have "map_of (entries (storeLocalLocked c key v ttl' (int (length v)) now)) k \<in> {None, map_of (entries c) k}"
    if "k \<noteq> key" for k
    using that sp(2,3) by (cases "map_of (entries (store_room c key (int (length v)) now)) k")
      (auto simp: map_le_def dom_def)
  then show ?thesis
    unfolding Let_def c_def [symmetric] eq
    using sp(1,2) lim(1) assms(4) by (simp add: GetWithTTL_def same_limits_def)
qed

theorem store_then_read_witness:
  "fst (GetWithTTL (SetLocalOnlyWithTTL (run cache_step (NewWithMaxBytes 5 1 20) [CSet ''a'' ''x'' 9 0]) ''b'' ''yz'' 8 1) ''b'' 4)
    = Some (''yz'', 5)"
  using store_then_read [of 1 20 "''yz''" 4 1 8 5 "[CSet ''a'' ''x'' 9 0]" "''b''"]
  by (simp add: Let_def goDiv_nonneg)

subsection \<open>Eviction order\<close>

definition entrySize :: "cache \<Rightarrow> string \<Rightarrow> int" where
  "entrySize c k = (case map_of (entries c) k of Some e \<Rightarrow> sizeBytes e | None \<Rightarrow> 0)"

text \<open>Keeping only the \<open>j\<close> most recently used keys would leave no room for \<open>n\<close> bytes.\<close>

definition still_over :: "cache \<Rightarrow> int \<Rightarrow> nat \<Rightarrow> bool" where
  "still_over c n j \<longleftrightarrow> int j \<ge> maxEntries c \<or>
     curBytes c - (\<Sum>k\<leftarrow>drop j (lruList c). entrySize c k) + n > maxBytes c"

lemma still_over_evictBack:
  assumes "cache_wf c" "lruList c \<noteq> []" "j < length (lruList c)" "still_over (evictBack c) n j"
  shows "still_over c n j"
proof -
  let ?l = "last (lruList c)" and ?b = "butlast (lruList c)"
  obtain e where e: "map_of (entries c) ?l = Some e"
    and eb: "evictBack c = (dropEntry ?l e c)\<lparr>Evictions := Evictions c + 1\<rparr>"
    using evictBack_eq [OF assms(1,2)] .
  have d: "distinct (lruList c)" using assms(1) by (simp add: cache_wf_def)
  have lru: "lruList c = ?b @ [?l]" using assms(2) by simp
  then have nin: "?l \<notin> set ?b" using d by (metis distinct_append disjoint_iff list.set_intros(1))
  have "map (entrySize (evictBack c)) (drop j ?b) = map (entrySize c) (drop j ?b)"
    using nin by (auto simp: entrySize_def eb delete_conv' dest: in_set_dropD)
  from arg_cong [OF this, of sum_list]
  have "(\<Sum>k\<leftarrow>drop j ?b. entrySize (evictBack c) k) = (\<Sum>k\<leftarrow>drop j ?b. entrySize c k)" .
  moreover have "curBytes (evictBack c) = curBytes c - entrySize c ?l" "maxEntries (evictBack c) = maxEntries c"
    "maxBytes (evictBack c) = maxBytes c"
    using e by (simp_all add: eb entrySize_def)
  moreover have "drop j (lruList c) = drop j ?b @ [?l]"
    using lru assms(3) by (metis drop_append drop0 diff_is_0_eq length_butlast less_Suc_eq_le length_append_singleton)
  moreover have "lruList (evictBack c) = ?b" using d assms(2) by (simp add: eb removeAll_last)
  ultimately show ?thesis
    using assms(4) by (auto simp: still_over_def)
qed

lemma evictLoop_minimal:
  assumes "cache_wf c"
  shows "\<exists>m. lruList (evictLoop c n) = take m (lruList c) \<and>
    (\<forall>j. m < j \<and> j \<le> length (lruList c) \<longrightarrow> still_over c n j)"
  using assms
proof (induction c n rule: evictLoop.induct)
  case (1 c n)
  show ?case
  proof (cases "overLimit c n \<and> lruList c \<noteq> []")
    case False
    then show ?thesis
      unfolding evictLoop.simps [of c n] by (auto intro: exI [of _ "length (lruList c)"])
  next
    case True
    obtain e where eb: "evictBack c = (dropEntry (last (lruList c)) e c)\<lparr>Evictions := Evictions c + 1\<rparr>"
      using evictBack_eq [OF 1(2)] True by blast
    have lru: "lruList (evictBack c) = butlast (lruList c)"
      using True 1(2) by (simp add: eb cache_wf_def removeAll_last)
    have wf: "cache_wf (evictBack c)" using 1(2) by (simp add: eb wf_dropEntry)
    obtain m where m: "lruList (evictLoop (evictBack c) n) = take m (butlast (lruList c))"
      and over: "\<And>j. m < j \<Longrightarrow> j < length (lruList c) \<Longrightarrow> still_over (evictBack c) n j"
      using 1(1) [OF True wf] True by (auto simp: lru)
    have "still_over c n j" if "min m (length (lruList c) - 1) < j" "j \<le> length (lruList c)" for j
    proof (cases "j = length (lruList c)")
      case True
      with \<open>overLimit c n \<and> lruList c \<noteq> []\<close> show ?thesis
        using wf_length [OF 1(2)] by (auto simp: still_over_def overLimit_def)
    next
      case False
      with that have "m < j" "j < length (lruList c)" by auto
      with over still_over_evictBack [OF 1(2)] True show ?thesis by blast
    qed
    moreover have "lruList (evictLoop c n) = take (min m (length (lruList c) - 1)) (lruList c)"
      using True m by (simp add: evictLoop.simps [of c n] butlast_conv_take min.commute)
    ultimately show ?thesis by blast
  qed
qed



subsection \<open>The hot index\<close>

lemma foldl_delete_map:
  "foldl (\<lambda>m (k, h). AList.delete k m) al xs = filter (\<lambda>kv. fst kv \<notin> fst ` set xs) al"
  by (induction xs arbitrary: al) (auto simp: AList.delete_eq filter_filter split_def intro!: filter_cong)

lemma length_pruneHotLocked:
  assumes "distinct (map fst (hot c))" "0 \<le> dropN" "dropN \<le> int (length (hot c))"
  shows "int (length (hot (pruneHotLocked c dropN))) = int (length (hot c)) - dropN"
proof (cases "dropN = 0 \<or> hot c = []")
  case False
  define cands where "cands = sort_key (\<lambda>(k, h). (score h, lastAccess h)) (hot c)"
  have ms: "mset cands = mset (hot c)" unfolding cands_def by simp
  have "mset (map fst cands) = mset (map fst (hot c))" by (simp add: ms)
  then have d: "distinct (map fst cands)" using assms(1) mset_eq_imp_distinct_iff by blast
  have len: "length cands = length (hot c)" unfolding cands_def by simp
  let ?P = "\<lambda>kv. fst kv \<notin> fst ` set (take (nat dropN) cands)"
  have eqlen: "length (filter ?P (hot c)) = length (filter ?P cands)"
    using arg_cong [OF ms, of "\<lambda>M. size (filter_mset ?P M)"] by (simp flip: mset_filter)
  have "distinct (map fst (take (nat dropN) cands) @ map fst (drop (nat dropN) cands))"
    using d by (simp only: append_take_drop_id flip: map_append)
  then have "fst ` set (take (nat dropN) cands) \<inter> fst ` set (drop (nat dropN) cands) = {}"
    unfolding distinct_append list.set_map by blast
  then have "fst kv \<notin> fst ` set (take (nat dropN) cands)" if "kv \<in> set (drop (nat dropN) cands)" for kv
    using that by blast
  then have "filter ?P (drop (nat dropN) cands) = drop (nat dropN) cands"
    by (simp add: filter_id_conv)
  moreover have "filter ?P (take (nat dropN) cands) = []" by (simp add: filter_empty_conv)
  ultimately have "filter ?P (take (nat dropN) cands @ drop (nat dropN) cands) = drop (nat dropN) cands"
    by (simp only: filter_append append_Nil)
  then have "length (filter ?P (hot c)) = length cands - nat dropN"
    unfolding append_take_drop_id eqlen by simp
  then show ?thesis
    using False assms len
    by (simp add: pruneHotLocked_def foldl_delete_map Let_def cands_def [symmetric])
qed (use assms in \<open>auto simp: pruneHotLocked_def\<close>)

definition hot_ok :: "cache \<Rightarrow> bool" where
  "hot_ok c \<longleftrightarrow> distinct (map fst (hot c)) \<and> int (length (hot c)) \<le> hotMax c"

lemma hot_ok_record:
  assumes "hot_ok c" "0 \<le> hotMax c"
  shows "int (length (hot (recordHotLocked c key now))) \<le> hotMax c"
proof -
  obtain st hs where eq: "recordHotLocked c key now =
      (let c1 = c\<lparr>l0Stats := st, hot := AList.update key hs (hot c)\<rparr>
       in if int (length (hot c1)) \<le> hotMax c1 then c1 else pruneHotLocked c1 (int (length (hot c1)) - hotMax c1))"
    unfolding recordHotLocked_def Let_def split_def by blast
  have "distinct (map fst (AList.update key hs (hot c)))"
    using assms(1) by (simp add: hot_ok_def AList.distinct_update)
  with length_pruneHotLocked [of "c\<lparr>l0Stats := st, hot := AList.update key hs (hot c)\<rparr>"] assms(2)
  show ?thesis by (auto simp: eq Let_def)
qed

text \<open>
  The index of hot keys keeps within its cap when an access is recorded, and the list of hot
  keys given to peers is at most as long as asked and capped, sorted by falling score, and names
  only keys that the cache holds live, with the minimal time to live and at most the size asked.
\<close>

theorem hot_keys_bounded:
  assumes "hot_ok c" "0 \<le> hotMax c"
  shows "int (length (hot (recordHotLocked c key now))) \<le> hotMax c \<and>
    (let hs = TopHotKeys c limit minTTL maxObj now in
      int (length hs) \<le> max 0 limit \<and> int (length hs) \<le> maxHotIndexQueryLimit \<and>
      sorted (map (\<lambda>h. - int (hk_score h)) hs) \<and>
      (\<forall>h \<in> set hs. \<exists>e. map_of (entries c) (hk_key h) = Some e \<and> now < expiresAt e \<and>
         hk_sizeBytes h = sizeBytes e \<and> (0 < minTTL \<longrightarrow> minTTL \<le> expiresAt e - now) \<and>
         (0 < maxObj \<longrightarrow> sizeBytes e \<le> maxObj)))"
proof -
  have le: "sorted (map (\<lambda>h. - int (hk_score h)) (take n (sort_key (\<lambda>h. (- int (hk_score h), g h)) hs)))"
    for n and g :: "hotKeySnapshot \<Rightarrow> int" and hs
  proof -
    have "sorted (map (\<lambda>h. (- int (hk_score h), g h)) (sort_key (\<lambda>h. (- int (hk_score h), g h)) hs))"
      by (rule sorted_sort_key)
    then have "sorted (map (\<lambda>h. - int (hk_score h)) (sort_key (\<lambda>h. (- int (hk_score h), g h)) hs))"
      by (auto simp: sorted_iff_nth_mono less_eq_prod_def) force
    then show ?thesis by (simp add: sorted_wrt_take flip: take_map)
  qed
  show ?thesis
    using hot_ok_record [OF assms] le
    by (auto simp: TopHotKeys_def Let_def maxHotIndexQueryLimit_def List.map_filter_def
        dest!: in_set_takeD split: option.splits if_splits)
qed

theorem hot_keys_bounded_witness:
  "int (length (hot (recordHotLocked ((NewWithMaxBytes 5 2 20)\<lparr>hotMax := 1, hot := [(''a'', \<lparr>score = 3, lastAccess = 1, hs_tenant = []\<rparr>)]\<rparr>) ''b'' 9))) \<le> 1"
  using hot_keys_bounded [of "(NewWithMaxBytes 5 2 20)\<lparr>hotMax := 1, hot := [(''a'', \<lparr>score = 3, lastAccess = 1, hs_tenant = []\<rparr>)]\<rparr>" "''b''" 9]
  by (simp add: hot_ok_def NewWithMaxBytes_def)

end
