(* ===== verification/DiskCache.thy ===== *)
theory DiskCache
  imports GoStrings "HOL-Library.List_Lexorder" "HOL-Library.Char_ord"
begin

text \<open>
  The disk tier of the cache, \<^verbatim>\<open>internal/cache/disk.go\<close>: a write buffer in front of a
  bbolt bucket, entries encoded as an expiry time and the value, optionally compressed, a cap on the
  bytes on disk and an incremental sweep of expired entries.

  \<^item> The database (\<^verbatim>\<open>go.etcd.io/bbolt\<close>) and the compression
    (\<^verbatim>\<open>klauspost/compress/gzip\<close>) are third-party libraries: they are the arguments
    \<open>B\<close> and \<open>Z\<close>, with what the code relies on as the predicates \<open>bolt_laws\<close> and
    \<open>gzip_laws\<close>. The state of the bucket is of an arbitrary type.
  \<^item> The write buffer is an association list with distinct keys, in the order in which \<open>range\<close>
    visits the map.
  \<^item> \<open>ticks\<close> is the number of entries the sweep visits before its deadline of 10ms.
  \<^item> The goroutine that deletes an expired entry after a read is the operation
    \<open>asyncDelete\<close>; \<open>getWithTTL\<close> returns the key it is started for.
\<close>

record diskEntry =
  de_Value :: bytes
  de_ExpiresAt :: int

record 'd bolt =
  b_get :: "'d \<Rightarrow> bytes \<Rightarrow> bytes option"
  b_put :: "'d \<Rightarrow> bytes \<Rightarrow> bytes \<Rightarrow> 'd option"
  b_delete :: "'d \<Rightarrow> bytes \<Rightarrow> 'd option"
  b_recreate :: "'d \<Rightarrow> 'd option"
  b_first :: "'d \<Rightarrow> (bytes \<times> bytes) option"
  b_seek :: "'d \<Rightarrow> bytes \<Rightarrow> (bytes \<times> bytes) option"
  b_next :: "'d \<Rightarrow> bytes \<Rightarrow> (bytes \<times> bytes) option"
  b_leafInuse :: "'d \<Rightarrow> int"
  b_commit :: "'d \<Rightarrow> bool"

record gzip =
  gz_compress :: "bytes \<Rightarrow> bytes option"
  gz_decompress :: "bytes \<Rightarrow> bytes option"
  gz_header :: "bytes \<Rightarrow> bytes option"

record 'd diskCache =
  db :: 'd
  compression :: bool
  writeBuf :: "(string \<times> diskEntry) list"
  flushSize :: int
  dc_minTTL :: duration
  dc_maxBytes :: int
  sweepCursor :: bytes
  dc_Hits :: int
  dc_Misses :: int
  dc_Writes :: int
  dc_Evictions :: int
  dc_FlushCount :: int

definition NewDiskCache :: "'d \<Rightarrow> int \<Rightarrow> int \<Rightarrow> duration \<Rightarrow> bool \<Rightarrow> 'd diskCache" where
  "NewDiskCache d maxBytes cfgFlushSize minTTL cmp =
     \<lparr>db = d, compression = cmp, writeBuf = [],
      flushSize = (if cfgFlushSize = 0 then 100 else cfgFlushSize), dc_minTTL = minTTL,
      dc_maxBytes = maxBytes, sweepCursor = [],
      dc_Hits = 0, dc_Misses = 0, dc_Writes = 0, dc_Evictions = 0, dc_FlushCount = 0\<rparr>"

definition encodeDiskEntry :: "diskEntry \<Rightarrow> bytes option" where
  "encodeDiskEntry e =
     (if int (length (de_Value e)) > 2 ^ 63 - 1 - 8 then None
      else Some (be_bytes 8 (de_ExpiresAt e) @ de_Value e))"

text \<open>The part of \<open>getWithTTL\<close> that reads the bucket: the stored expiry time and value.\<close>

definition decodeStored :: "gzip \<Rightarrow> bool \<Rightarrow> bytes \<Rightarrow> (int \<times> bytes) option" where
  "decodeStored Z cmp raw =
     (case (if cmp then gz_decompress Z raw else Some raw) of
        None \<Rightarrow> None
      | Some raw1 \<Rightarrow>
          if length raw1 < 8 then None else Some (int64 (be_uint (take 8 raw1)), drop 8 raw1))"

definition diskRead :: "'d bolt \<Rightarrow> gzip \<Rightarrow> 'd diskCache \<Rightarrow> string \<Rightarrow> (int \<times> bytes) option" where
  "diskRead B Z dc key =
     (case b_get B (db dc) key of None \<Rightarrow> None | Some raw \<Rightarrow> decodeStored Z (compression dc) raw)"

definition disk_getWithTTL ::
  "'d bolt \<Rightarrow> gzip \<Rightarrow> 'd diskCache \<Rightarrow> string \<Rightarrow> bool \<Rightarrow> time
     \<Rightarrow> (bytes \<times> duration) option \<times> 'd diskCache \<times> string option" where
  "disk_getWithTTL B Z dc key allowStale now =
     (let miss = dc\<lparr>dc_Misses := dc_Misses dc + 1\<rparr>;
          hit = dc\<lparr>dc_Hits := dc_Hits dc + 1\<rparr>
      in case map_of (writeBuf dc) key of
           Some e \<Rightarrow>
             (let remaining = de_ExpiresAt e - now
              in if remaining \<le> 0 \<and> \<not> allowStale then (None, miss, None)
                 else (Some (de_Value e, remaining), hit, None))
         | None \<Rightarrow>
             (case diskRead B Z dc key of
                None \<Rightarrow> (None, miss, None)
              | Some (expiresAt, v) \<Rightarrow>
                  (let remaining = expiresAt - now
                   in if remaining \<le> 0 \<and> \<not> allowStale
                      then (None, miss\<lparr>dc_Evictions := dc_Evictions dc + 1\<rparr>, Some key)
                      else (Some (v, remaining), hit, None))))"

text \<open>A transaction \<open>db.Update\<close> keeps the old state when the function or the commit fails.\<close>

definition txUpdate :: "'d bolt \<Rightarrow> 'd \<Rightarrow> 'd option \<Rightarrow> 'd" where
  "txUpdate B old new = (case new of Some d \<Rightarrow> if b_commit B d then d else old | None \<Rightarrow> old)"

definition asyncDelete :: "'d bolt \<Rightarrow> 'd diskCache \<Rightarrow> string \<Rightarrow> 'd diskCache" where
  "asyncDelete B dc key = dc\<lparr>db := txUpdate B (db dc) (b_delete B (db dc) key)\<rparr>"

text \<open>Whether the sweep removes a stored value: its header is unreadable, or it is expired.\<close>

definition sweepable :: "gzip \<Rightarrow> bool \<Rightarrow> time \<Rightarrow> bytes \<Rightarrow> bool" where
  "sweepable Z cmp now v =
     (case (if cmp then gz_header Z v else if length v \<ge> 8 then Some (take 8 v) else None) of
        None \<Rightarrow> True
      | Some header \<Rightarrow> int64 (be_uint header) \<le> now)"

text \<open>The loop of \<open>sweepExpired\<close>: the bucket, the bytes reclaimed, the entries evicted and
  the key it stops at.\<close>

fun sweepLoop ::
  "'d bolt \<Rightarrow> gzip \<Rightarrow> bool \<Rightarrow> time \<Rightarrow> nat \<Rightarrow> 'd \<Rightarrow> (bytes \<times> bytes) option \<Rightarrow> int \<Rightarrow> int
     \<Rightarrow> 'd \<times> int \<times> int \<times> bytes" where
  "sweepLoop B Z cmp now n d None reclaimed ev = (d, reclaimed, ev, [])"
| "sweepLoop B Z cmp now 0 d (Some (k, v)) reclaimed ev = (d, reclaimed, ev, k)"
| "sweepLoop B Z cmp now (Suc n) d (Some (k, v)) reclaimed ev =
     (if sweepable Z cmp now v
      then (let reclaimed1 = reclaimed + int (length k + length v)
            in case b_delete B d k of
                 None \<Rightarrow> (d, reclaimed1, ev, k)
               | Some d1 \<Rightarrow> sweepLoop B Z cmp now n d1 (b_next B d1 k) reclaimed1 (ev + 1))
      else sweepLoop B Z cmp now n d (b_next B d k) reclaimed ev)"

definition sweepExpired ::
  "'d bolt \<Rightarrow> gzip \<Rightarrow> 'd diskCache \<Rightarrow> time \<Rightarrow> nat \<Rightarrow> 'd \<times> int \<times> int \<times> bytes" where
  "sweepExpired B Z dc now ticks =
     (let start = (if sweepCursor dc = [] then b_first B (db dc)
                   else case b_seek B (db dc) (sweepCursor dc) of
                          None \<Rightarrow> b_first B (db dc) | Some kv \<Rightarrow> Some kv)
      in sweepLoop B Z (compression dc) now (min 1024 (max 1 ticks)) (db dc) start 0 0)"

record 'd flushState =
  f_db :: 'd
  f_cur :: int
  f_writes :: int
  f_evictions :: int
  f_err :: bool

text \<open>One iteration of the loop over the buffer; after a failed \<open>Put\<close> the function returns.\<close>

definition flushEntry ::
  "'d bolt \<Rightarrow> gzip \<Rightarrow> bool \<Rightarrow> int \<Rightarrow> 'd flushState \<Rightarrow> string \<times> diskEntry \<Rightarrow> 'd flushState" where
  "flushEntry B Z cmp maxB st ke =
     (if f_err st then st
      else case encodeDiskEntry (snd ke) of
             None \<Rightarrow> st
           | Some raw \<Rightarrow>
               (case (if cmp then gz_compress Z raw else Some raw) of
                  None \<Rightarrow> st
                | Some encoded \<Rightarrow>
                    (let candidate = f_cur st - (case b_get B (f_db st) (fst ke) of
                                                   Some existing \<Rightarrow> int (length existing) | None \<Rightarrow> 0)
                     in if maxB > 0 \<and> candidate + int (length encoded) > maxB
                        then st\<lparr>f_evictions := f_evictions st + 1\<rparr>
                        else let cur = (if maxB > 0 then candidate else f_cur st)
                             in case b_put B (f_db st) (fst ke) encoded of
                                  None \<Rightarrow> st\<lparr>f_err := True\<rparr>
                                | Some d \<Rightarrow> st\<lparr>f_db := d, f_writes := f_writes st + 1,
                                              f_cur := cur + int (length encoded)\<rparr>)))"

definition flushRun :: "'d bolt \<Rightarrow> gzip \<Rightarrow> 'd diskCache \<Rightarrow> time \<Rightarrow> nat \<Rightarrow> 'd flushState" where
  "flushRun B Z dc now ticks =
     (let (d1, reclaimed, ev, cursor) = sweepExpired B Z dc now ticks;
          cur = (if dc_maxBytes dc > 0 then b_leafInuse B (db dc) else 0) - reclaimed;
          cur1 = (if cur < 0 then 0 else cur)
      in foldl (flushEntry B Z (compression dc) (dc_maxBytes dc))
           \<lparr>f_db = d1, f_cur = cur1, f_writes = 0, f_evictions = ev, f_err = False\<rparr> (writeBuf dc))"

definition Flush :: "'d bolt \<Rightarrow> gzip \<Rightarrow> 'd diskCache \<Rightarrow> time \<Rightarrow> nat \<Rightarrow> 'd diskCache" where
  "Flush B Z dc now ticks =
     (let st = flushRun B Z dc now ticks
      in dc\<lparr>writeBuf := [],
            db := txUpdate B (db dc) (if f_err st then None else Some (f_db st)),
            sweepCursor := snd (snd (snd (sweepExpired B Z dc now ticks))),
            dc_Writes := dc_Writes dc + f_writes st,
            dc_Evictions := dc_Evictions dc + f_evictions st,
            dc_FlushCount := dc_FlushCount dc + 1\<rparr>)"

definition disk_Set ::
  "'d bolt \<Rightarrow> gzip \<Rightarrow> 'd diskCache \<Rightarrow> string \<Rightarrow> bytes \<Rightarrow> duration \<Rightarrow> time \<Rightarrow> nat \<Rightarrow> 'd diskCache" where
  "disk_Set B Z dc key v ttl now ticks =
     (if ttl \<le> 0 then dc
      else if dc_minTTL dc > 0 \<and> ttl < dc_minTTL dc then dc
      else let dc1 = dc\<lparr>writeBuf := AList.update key \<lparr>de_Value = v, de_ExpiresAt = int64 (now + ttl)\<rparr> (writeBuf dc)\<rparr>
           in if int (length (writeBuf dc1)) \<ge> flushSize dc1 then Flush B Z dc1 now ticks else dc1)"

definition Purge :: "'d bolt \<Rightarrow> 'd diskCache \<Rightarrow> 'd diskCache" where
  "Purge B dc = dc\<lparr>writeBuf := [], db := txUpdate B (db dc) (b_recreate B (db dc))\<rparr>"

definition disk_Close :: "'d bolt \<Rightarrow> gzip \<Rightarrow> 'd diskCache \<Rightarrow> time \<Rightarrow> nat \<Rightarrow> 'd diskCache" where
  "disk_Close B Z dc now ticks = Flush B Z dc now ticks"

subsection \<open>What the code relies on\<close>

text \<open>
  bbolt: \<open>Put\<close> and \<open>Delete\<close> change one key, a cursor returns pairs of the bucket, and the
  bytes in use in the leaf pages are at least those of the keys and values.
\<close>

definition stored_bytes :: "(bytes \<rightharpoonup> bytes) \<Rightarrow> int" where
  "stored_bytes m = (\<Sum>k \<in> dom m. int (length (the (m k))))"

definition key_bytes :: "(bytes \<rightharpoonup> bytes) \<Rightarrow> int" where
  "key_bytes m = (\<Sum>k \<in> dom m. int (length k))"

definition bolt_laws :: "'d bolt \<Rightarrow> bool" where
  "bolt_laws B \<longleftrightarrow>
     (\<forall>d k v d'. b_put B d k v = Some d' \<longrightarrow> b_get B d' = (b_get B d)(k \<mapsto> v)) \<and>
     (\<forall>d k d'. b_delete B d k = Some d' \<longrightarrow> b_get B d' = (b_get B d)(k := None)) \<and>
     (\<forall>d k v. b_first B d = Some (k, v) \<longrightarrow> b_get B d k = Some v) \<and>
     (\<forall>d c k v. b_seek B d c = Some (k, v) \<longrightarrow> b_get B d k = Some v) \<and>
     (\<forall>d c k v. b_next B d c = Some (k, v) \<longrightarrow> b_get B d k = Some v) \<and>
     (\<forall>d. finite (dom (b_get B d)) \<and> stored_bytes (b_get B d) + key_bytes (b_get B d) \<le> b_leafInuse B d)"

text \<open>gzip: decompressing gives back what was compressed, and the first bytes can be read alone.\<close>

definition gzip_laws :: "gzip \<Rightarrow> bool" where
  "gzip_laws Z \<longleftrightarrow>
     (\<forall>x z. gz_compress Z x = Some z \<longrightarrow> gz_decompress Z z = Some x) \<and>
     (\<forall>z x. gz_decompress Z z = Some x \<and> 8 \<le> length x \<longrightarrow> gz_header Z z = Some (take 8 x))"

lemma bolt_lawsD:
  assumes "bolt_laws B"
  shows "b_put B d k v = Some d' \<Longrightarrow> b_get B d' = (b_get B d)(k \<mapsto> v)"
    "b_delete B d k = Some d' \<Longrightarrow> b_get B d' = (b_get B d)(k := None)"
    "b_first B d = Some (k, v) \<Longrightarrow> b_get B d k = Some v"
    "b_seek B d c = Some (k, v) \<Longrightarrow> b_get B d k = Some v"
    "b_next B d c = Some (k, v) \<Longrightarrow> b_get B d k = Some v"
    "finite (dom (b_get B d))"
    "stored_bytes (b_get B d) + key_bytes (b_get B d) \<le> b_leafInuse B d"
  using assms unfolding bolt_laws_def by blast+

lemma bytes_upd:
  assumes "finite (dom m)"
  shows "stored_bytes (m(k \<mapsto> v)) =
      stored_bytes m - (case m k of Some w \<Rightarrow> int (length w) | None \<Rightarrow> 0) + int (length v)"
    "stored_bytes (m(k := None)) = stored_bytes m - (case m k of Some w \<Rightarrow> int (length w) | None \<Rightarrow> 0)"
    "key_bytes (m(k := None)) = key_bytes m - (case m k of Some w \<Rightarrow> int (length k) | None \<Rightarrow> 0)"
proof -
  have eq: "(\<Sum>x \<in> dom m - {k}. int (length (the ((m(k := u)) x)))) = (\<Sum>x \<in> dom m - {k}. int (length (the (m x))))" for u
    by (rule sum.cong) auto
  have split: "(\<Sum>x \<in> dom m. f x) = (\<Sum>x \<in> dom m - {k}. f x) + (case m k of Some w \<Rightarrow> f k | None \<Rightarrow> 0)"
    for f :: "bytes \<Rightarrow> int"
    using assms by (cases "m k") (auto simp: sum.remove [of _ k] domI domIff)
  show "stored_bytes (m(k \<mapsto> v)) =
      stored_bytes m - (case m k of Some w \<Rightarrow> int (length w) | None \<Rightarrow> 0) + int (length v)"
    using assms eq [of "Some v"] split [of "\<lambda>x. int (length (the (m x)))"]
    by (auto simp: stored_bytes_def sum.insert_remove split: option.splits)
  show "stored_bytes (m(k := None)) = stored_bytes m - (case m k of Some w \<Rightarrow> int (length w) | None \<Rightarrow> 0)"
    using eq [of None] split [of "\<lambda>x. int (length (the (m x)))"]
    by (auto simp: stored_bytes_def split: option.splits)
  show "key_bytes (m(k := None)) = key_bytes m - (case m k of Some w \<Rightarrow> int (length k) | None \<Rightarrow> 0)"
    using split [of "\<lambda>x. int (length x)"] by (auto simp: key_bytes_def split: option.splits)
qed

subsection \<open>Encoding and sweep\<close>

lemma encode_decode:
  assumes "gzip_laws Z" "encodeDiskEntry e = Some raw"
    "(if cmp then gz_compress Z raw else Some raw) = Some enc"
  shows "decodeStored Z cmp enc = Some (int64 (de_ExpiresAt e), de_Value e)"
proof -
  have raw: "raw = be_bytes 8 (de_ExpiresAt e) @ de_Value e"
    using assms(2) by (simp add: encodeDiskEntry_def split: if_splits)
  have "(if cmp then gz_decompress Z enc else Some enc) = Some raw"
    using assms(1,3) by (auto simp: gzip_laws_def split: if_splits)
  then show ?thesis by (simp add: decodeStored_def raw be_roundtrip)
qed

text \<open>A value that the sweep removes could not be read, or only as a stale one.\<close>

lemma sweepable_decode:
  assumes "gzip_laws Z" "sweepable Z cmp now v" "decodeStored Z cmp v = Some (e, x)"
  shows "e \<le> now"
proof -
  obtain raw where raw: "(if cmp then gz_decompress Z v else Some v) = Some raw" "8 \<le> length raw"
    "e = int64 (be_uint (take 8 raw))"
    using assms(3) by (auto simp: decodeStored_def split: option.splits if_splits)
  then have "(if cmp then gz_header Z v else if length v \<ge> 8 then Some (take 8 v) else None) = Some (take 8 raw)"
    using assms(1) by (cases cmp) (auto simp: gzip_laws_def)
  with assms(2) raw(3) show ?thesis by (simp only: sweepable_def option.case)
qed

definition swept :: "'d bolt \<Rightarrow> gzip \<Rightarrow> bool \<Rightarrow> time \<Rightarrow> 'd \<Rightarrow> 'd \<Rightarrow> bool" where
  "swept B Z cmp now d d' \<longleftrightarrow>
     (\<forall>k. b_get B d' k = b_get B d k \<or>
          (b_get B d' k = None \<and> (\<exists>v. b_get B d k = Some v \<and> sweepable Z cmp now v)))"

lemma sweepLoop_swept:
  assumes "bolt_laws B" "\<And>k v. cur = Some (k, v) \<Longrightarrow> b_get B d k = Some v"
    "swept B Z cmp now d0 d"
    "reclaimed = stored_bytes (b_get B d0) + key_bytes (b_get B d0) - stored_bytes (b_get B d) - key_bytes (b_get B d)"
  shows "case sweepLoop B Z cmp now n d cur reclaimed ev of (d', r', ev', c') \<Rightarrow>
    swept B Z cmp now d0 d' \<and>
    ((\<forall>d k. b_delete B d k \<noteq> None) \<longrightarrow> r' = stored_bytes (b_get B d0) + key_bytes (b_get B d0) - stored_bytes (b_get B d') - key_bytes (b_get B d'))"
  using assms
proof (induction B Z cmp now n d cur reclaimed ev rule: sweepLoop.induct)
  case (3 B Z cmp now n d k v reclaimed ev)
  have kv: "b_get B d k = Some v" using 3(4) by simp
  show ?case
  proof (cases "sweepable Z cmp now v")
    case False
    have "case sweepLoop B Z cmp now n d (b_next B d k) reclaimed ev of (d', r', ev', c') \<Rightarrow>
      swept B Z cmp now d0 d' \<and>
      ((\<forall>d k. b_delete B d k \<noteq> None) \<longrightarrow> r' = stored_bytes (b_get B d0) + key_bytes (b_get B d0) - stored_bytes (b_get B d') - key_bytes (b_get B d'))"
      using False 3(5,6) by (intro 3(2) [OF False 3(3)]) (auto dest: bolt_lawsD(5) [OF 3(3)])
    with False show ?thesis by simp
  next
    case sw: True
    show ?thesis
    proof (cases "b_delete B d k")
      case None
      then have "\<not> (\<forall>d k. b_delete B d k \<noteq> None)" by blast
      with None sw 3(5) show ?thesis by (simp del: not_None_eq not_all)
    next
      case (Some d1)
      have g: "b_get B d1 = (b_get B d)(k := None)" by (rule bolt_lawsD(2) [OF 3(3) Some])
      have s1: "swept B Z cmp now d0 d1"
        using 3(5) kv sw unfolding swept_def g by (auto, metis option.distinct(1) option.inject)
      have r1: "reclaimed + int (length k + length v) = stored_bytes (b_get B d0) + key_bytes (b_get B d0)
          - stored_bytes (b_get B d1) - key_bytes (b_get B d1)"
        using 3(6) kv by (simp add: g bytes_upd bolt_lawsD(6) [OF 3(3)])
      have "case sweepLoop B Z cmp now n d1 (b_next B d1 k) (reclaimed + int (length k + length v)) (ev + 1) of
          (d', r', ev', c') \<Rightarrow> swept B Z cmp now d0 d' \<and>
        ((\<forall>d k. b_delete B d k \<noteq> None) \<longrightarrow> r' = stored_bytes (b_get B d0) + key_bytes (b_get B d0) - stored_bytes (b_get B d') - key_bytes (b_get B d'))"
        by (rule 3(1) [OF sw refl Some 3(3) _ s1 r1]) (auto dest: bolt_lawsD(5) [OF 3(3)])
      with sw Some show ?thesis by simp
    qed
  qed
qed auto

lemma sweepExpired_swept:
  assumes "bolt_laws B" "sweepExpired B Z dc now ticks = (d1, r, ev, c)"
  shows "swept B Z (compression dc) now (db dc) d1"
    "\<forall>d k. b_delete B d k \<noteq> None \<Longrightarrow>
      r = stored_bytes (b_get B (db dc)) + key_bytes (b_get B (db dc)) - stored_bytes (b_get B d1) - key_bytes (b_get B d1)"
proof -
  let ?start = "if sweepCursor dc = [] then b_first B (db dc)
      else case b_seek B (db dc) (sweepCursor dc) of None \<Rightarrow> b_first B (db dc) | Some kv \<Rightarrow> Some kv"
  have "b_get B (db dc) k = Some v" if "?start = Some (k, v)" for k v
    using that bolt_lawsD(3,4) [OF assms(1)] by (auto split: if_splits option.splits)
  from sweepLoop_swept [OF assms(1) this, where ?d0.0 = "db dc" and reclaimed = 0 and n = "min 1024 (max 1 ticks)" and ev = 0]
  have "case sweepExpired B Z dc now ticks of (d', r', ev', c') \<Rightarrow>
      swept B Z (compression dc) now (db dc) d' \<and>
      ((\<forall>d k. b_delete B d k \<noteq> None) \<longrightarrow> r' = stored_bytes (b_get B (db dc)) + key_bytes (b_get B (db dc))
        - stored_bytes (b_get B d') - key_bytes (b_get B d'))"
    unfolding sweepExpired_def Let_def by (simp add: swept_def)
  then show "swept B Z (compression dc) now (db dc) d1"
    "\<forall>d k. b_delete B d k \<noteq> None \<Longrightarrow>
      r = stored_bytes (b_get B (db dc)) + key_bytes (b_get B (db dc)) - stored_bytes (b_get B d1) - key_bytes (b_get B d1)"
    using assms(2) by simp_all
qed

lemma swept_decode:
  assumes "gzip_laws Z" "swept B Z cmp now d d'" "now \<le> now'"
  shows "(case b_get B d' k of None \<Rightarrow> None | Some raw \<Rightarrow> decodeStored Z cmp raw) =
      (case b_get B d k of None \<Rightarrow> None | Some raw \<Rightarrow> decodeStored Z cmp raw) \<or>
    (b_get B d' k = None \<and> (\<forall>e x. (case b_get B d k of None \<Rightarrow> None | Some raw \<Rightarrow> decodeStored Z cmp raw) = Some (e, x) \<longrightarrow> e \<le> now'))"
proof (cases "b_get B d' k = b_get B d k")
  case False
  then obtain v where v: "b_get B d' k = None" "b_get B d k = Some v" "sweepable Z cmp now v"
    using assms(2) unfolding swept_def by metis
  then have "e \<le> now'" if "decodeStored Z cmp v = Some (e, x)" for e x
    using sweepable_decode [OF assms(1) _ that] assms(3) by fastforce
  with v show ?thesis by simp
qed simp

subsection \<open>Flush\<close>

definition enc_of :: "gzip \<Rightarrow> bool \<Rightarrow> diskEntry \<Rightarrow> bytes option" where
  "enc_of Z cmp e =
     (case encodeDiskEntry e of None \<Rightarrow> None | Some raw \<Rightarrow> if cmp then gz_compress Z raw else Some raw)"

lemma enc_of_decode:
  "gzip_laws Z \<Longrightarrow> enc_of Z cmp e = Some enc \<Longrightarrow> decodeStored Z cmp enc = Some (int64 (de_ExpiresAt e), de_Value e)"
  by (auto simp: enc_of_def split: option.splits intro: encode_decode)

definition old_len :: "'d bolt \<Rightarrow> 'd \<Rightarrow> bytes \<Rightarrow> int" where
  "old_len B d k = (case b_get B d k of Some existing \<Rightarrow> int (length existing) | None \<Rightarrow> 0)"

lemma flushEntry_eq:
  "flushEntry B Z cmp maxB st (k, e) =
    (if f_err st then st
     else case enc_of Z cmp e of
            None \<Rightarrow> st
          | Some enc \<Rightarrow>
              if maxB > 0 \<and> f_cur st - old_len B (f_db st) k + int (length enc) > maxB
              then st\<lparr>f_evictions := f_evictions st + 1\<rparr>
              else case b_put B (f_db st) k enc of
                     None \<Rightarrow> st\<lparr>f_err := True\<rparr>
                   | Some d \<Rightarrow> st\<lparr>f_db := d, f_writes := f_writes st + 1,
                       f_cur := (if maxB > 0 then f_cur st - old_len B (f_db st) k else f_cur st) + int (length enc)\<rparr>)"
  by (simp add: flushEntry_def enc_of_def old_len_def Let_def split: option.split)

lemma flush_err: "f_err st \<Longrightarrow> foldl (flushEntry B Z cmp maxB) st buf = st"
  by (induction buf) (auto simp: flushEntry_def)

lemma flush_writes_all:
  assumes "bolt_laws B" "maxB \<le> 0" "distinct (map fst buf)" "\<And>k e. (k, e) \<in> set buf \<Longrightarrow> enc_of Z cmp e \<noteq> None"
    "\<not> f_err (foldl (flushEntry B Z cmp maxB) st buf)"
  shows "b_get B (f_db (foldl (flushEntry B Z cmp maxB) st buf)) k =
    (case map_of buf k of Some e \<Rightarrow> enc_of Z cmp e | None \<Rightarrow> b_get B (f_db st) k)"
  using assms(3-)
proof (induction buf arbitrary: st)
  case (Cons ke buf)
  obtain l e where ke: "ke = (l, e)" by fastforce
  let ?st = "flushEntry B Z cmp maxB st ke"
  have ne: "\<not> f_err ?st" using Cons.prems(3) flush_err [of ?st] by auto
  obtain enc where enc: "enc_of Z cmp e = Some enc" using Cons.prems(2) [of l e] ke by auto
  have "\<not> f_err st" using ne by (auto simp: flushEntry_def)
  with ne enc ke obtain d where d: "b_put B (f_db st) l enc = Some d" "f_db ?st = d"
    using assms(2) by (auto simp: flushEntry_eq split: option.splits if_splits)
  then have "b_get B (f_db ?st) = (b_get B (f_db st))(l \<mapsto> enc)" by (simp add: bolt_lawsD(1) [OF assms(1)])
  moreover have "map_of buf l = None" using Cons.prems(1) ke by (simp add: map_of_eq_None_iff)
  moreover have "b_get B (f_db (foldl (flushEntry B Z cmp maxB) ?st buf)) k =
      (case map_of buf k of Some e \<Rightarrow> enc_of Z cmp e | None \<Rightarrow> b_get B (f_db ?st) k)"
    by (rule Cons.IH) (use Cons.prems in \<open>auto simp del: not_None_eq\<close>)
  ultimately show ?case
    using ke enc by (auto split: option.split)
qed simp

definition buf_ok :: "'d diskCache \<Rightarrow> bool" where
  "buf_ok dc \<longleftrightarrow> distinct (map fst (writeBuf dc)) \<and>
     (\<forall>(k, e) \<in> set (writeBuf dc). int64 (de_ExpiresAt e) = de_ExpiresAt e \<and> int (length (de_Value e)) \<le> 2 ^ 63 - 9)"

lemma int64_idem [simp]: "int64 (int64 x) = int64 x"
  by (simp add: int64_def)

lemma buf_ok_new: "buf_ok (NewDiskCache d mb fs mt cmp)"
  by (simp add: buf_ok_def NewDiskCache_def)

lemma buf_ok_Flush [inv_intros]: "buf_ok (Flush B Z dc now ticks)"
  by (simp add: buf_ok_def Flush_def Let_def)

lemma buf_ok_Set [inv_intros]:
  assumes "buf_ok dc" "int (length v) \<le> 2 ^ 63 - 9"
  shows "buf_ok (disk_Set B Z dc key v ttl now ticks)"
proof -
  let ?e = "\<lparr>de_Value = v, de_ExpiresAt = int64 (now + ttl)\<rparr>"
  have "buf_ok (dc\<lparr>writeBuf := AList.update key ?e (writeBuf dc)\<rparr>)"
    using assms set_update_subset [of key ?e "writeBuf dc"]
    by (auto simp: buf_ok_def AList.distinct_update)
  with assms(1) show ?thesis by (simp add: disk_Set_def Let_def buf_ok_Flush)
qed

lemma flushRun_eq:
  assumes "sweepExpired B Z dc now ticks = (d1, r, ev, c)"
  obtains st0 where "flushRun B Z dc now ticks = foldl (flushEntry B Z (compression dc) (dc_maxBytes dc)) st0 (writeBuf dc)"
    "f_db st0 = d1" "f_cur st0 = max 0 ((if dc_maxBytes dc > 0 then b_leafInuse B (db dc) else 0) - r)" "\<not> f_err st0"
  by (rule that [OF flushRun_def [of B Z dc now ticks, unfolded assms Let_def split]]) auto

lemma Flush_read:
  assumes "bolt_laws B" "gzip_laws Z" "\<forall>x. gz_compress Z x \<noteq> None" "buf_ok dc" "dc_maxBytes dc \<le> 0"
    "\<not> f_err (flushRun B Z dc now ticks)" "b_commit B (f_db (flushRun B Z dc now ticks))" "now \<le> now'"
  shows "diskRead B Z (Flush B Z dc now ticks) key =
      (case map_of (writeBuf dc) key of Some e \<Rightarrow> Some (de_ExpiresAt e, de_Value e) | None \<Rightarrow> diskRead B Z dc key) \<or>
    (map_of (writeBuf dc) key = None \<and> diskRead B Z (Flush B Z dc now ticks) key = None \<and>
      (\<forall>e v. diskRead B Z dc key = Some (e, v) \<longrightarrow> e \<le> now'))"
proof -
  obtain d1 r ev c where sw: "sweepExpired B Z dc now ticks = (d1, r, ev, c)" by (metis prod_cases4)
  have enc: "enc_of Z (compression dc) e \<noteq> None" if "(k, e) \<in> set (writeBuf dc)" for k e
    using that assms(3,4) by (auto simp: buf_ok_def enc_of_def encodeDiskEntry_def)
  let ?d = "f_db (flushRun B Z dc now ticks)"
  have get: "b_get B ?d key = (case map_of (writeBuf dc) key of Some e \<Rightarrow> enc_of Z (compression dc) e | None \<Rightarrow> b_get B d1 key)"
  proof -
    obtain st0 where st0: "flushRun B Z dc now ticks =
        foldl (flushEntry B Z (compression dc) (dc_maxBytes dc)) st0 (writeBuf dc)" "f_db st0 = d1"
      using flushRun_eq [OF sw] .
    have "distinct (map fst (writeBuf dc))" using assms(4) by (simp add: buf_ok_def)
    from flush_writes_all [OF assms(1,5) this, where st = st0 and k = key and Z = Z and cmp = "compression dc"] enc assms(6)
    show ?thesis by (simp add: st0 del: not_None_eq cong: option.case_cong)
  qed
  have db: "db (Flush B Z dc now ticks) = ?d" "compression (Flush B Z dc now ticks) = compression dc"
    using assms(6,7) by (simp_all add: Flush_def Let_def txUpdate_def)
  have rd: "diskRead B Z (Flush B Z dc now ticks) key =
      (case b_get B ?d key of None \<Rightarrow> None | Some raw \<Rightarrow> decodeStored Z (compression dc) raw)"
    unfolding diskRead_def db ..
  show ?thesis
  proof (cases "map_of (writeBuf dc) key")
    case None
    then show ?thesis
      using swept_decode [OF assms(2) sweepExpired_swept(1) [OF assms(1) sw] assms(8), of key]
      by (auto simp: rd get diskRead_def [of B Z dc])
  next
    case (Some e)
    then have "(key, e) \<in> set (writeBuf dc)" by (rule map_of_SomeD)
    then have "enc_of Z (compression dc) e \<noteq> None" and ex: "int64 (de_ExpiresAt e) = de_ExpiresAt e"
      using enc assms(4) by (auto simp: buf_ok_def)
    then obtain raw where "enc_of Z (compression dc) e = Some raw" by auto
    with Some ex enc_of_decode [OF assms(2) this] show ?thesis by (simp add: rd get)
  qed
qed


text \<open>A bucket as an association list, visited in the order of the keys, and compression that
  copies.\<close>

definition al_after :: "(bytes \<times> bytes) list \<Rightarrow> (bytes \<Rightarrow> bool) \<Rightarrow> (bytes \<times> bytes) option" where
  "al_after d P = List.find (\<lambda>kv. P (fst kv)) (sort_key fst (AList.clearjunk d))"

definition al_bolt :: "(bytes \<times> bytes) list bolt" where
  "al_bolt = \<lparr>b_get = map_of, b_put = (\<lambda>d k v. if k = [] then None else Some (AList.update k v d)),
     b_delete = (\<lambda>d k. Some (AList.delete k d)), b_recreate = (\<lambda>d. Some []),
     b_first = (\<lambda>d. al_after d (\<lambda>k. True)), b_seek = (\<lambda>d c. al_after d (\<lambda>k. c \<le> k)),
     b_next = (\<lambda>d c. al_after d (\<lambda>k. c < k)),
     b_leafInuse = (\<lambda>d. \<Sum>(k, v)\<leftarrow>AList.clearjunk d. int (length k + length v)), b_commit = (\<lambda>d. True)\<rparr>"

definition copy_gzip :: gzip where
  "copy_gzip = \<lparr>gz_compress = Some, gz_decompress = Some,
     gz_header = (\<lambda>z. if 8 \<le> length z then Some (take 8 z) else None)\<rparr>"

lemma copy_gzip_laws: "gzip_laws copy_gzip"
  by (simp add: gzip_laws_def copy_gzip_def)

lemma clearjunk_sum:
  "(\<Sum>(k, v)\<leftarrow>AList.clearjunk d. int (length k + length v)) = stored_bytes (map_of d) + key_bytes (map_of d)"
proof -
  let ?c = "AList.clearjunk d"
  have m: "map_of d = map_of ?c" by (simp add: AList.map_of_clearjunk)
  have dist: "distinct (map fst ?c)" by (rule AList.distinct_clearjunk)
  have "(\<Sum>(k, v)\<leftarrow>?c. int (length k + length v)) = (\<Sum>kv \<in> set ?c. int (length (fst kv) + length (snd kv)))"
    using dist by (simp add: split_def sum_list_distinct_conv_sum_set distinct_map)
  also have "\<dots> = (\<Sum>k \<in> dom (map_of ?c). int (length k + length (the (map_of ?c k))))"
    unfolding dom_map_of_conv_image_fst
    using dist by (subst sum.reindex) (auto simp: distinct_map o_def intro!: sum.cong)
  finally show ?thesis
    by (simp add: m stored_bytes_def key_bytes_def sum.distrib [symmetric] add.commute)
qed

lemma al_bolt_laws: "bolt_laws al_bolt"
proof -
  have "map_of d k = Some v" if "al_after d P = Some (k, v)" for d P k v
  proof -
    have "(k, v) \<in> set (AList.clearjunk d)"
      using that unfolding al_after_def by (metis find_Some_iff nth_mem set_sort)
    then have "map_of (AList.clearjunk d) k = Some v" by simp
    then show ?thesis by (simp add: AList.map_of_clearjunk)
  qed
  then show ?thesis
    by (auto simp: bolt_laws_def al_bolt_def AList.update_conv' AList.delete_conv' finite_dom_map_of
        clearjunk_sum [simplified] split: if_splits)
qed

abbreviation disk0 :: "int \<Rightarrow> (bytes \<times> bytes) list diskCache" where
  "disk0 mb \<equiv> NewDiskCache [] mb 0 0 True"


subsection \<open>The cap on the bytes on disk\<close>

lemma flushEntry_cap:
  assumes "bolt_laws B" "0 < maxB" "stored_bytes (b_get B (f_db st)) \<le> f_cur st"
    "stored_bytes (b_get B (f_db st)) \<le> M" "maxB \<le> M"
  shows "stored_bytes (b_get B (f_db (flushEntry B Z cmp maxB st ke))) \<le> f_cur (flushEntry B Z cmp maxB st ke) \<and>
    stored_bytes (b_get B (f_db (flushEntry B Z cmp maxB st ke))) \<le> M"
proof -
  obtain k e where ke: "ke = (k, e)" by fastforce
  have put: "stored_bytes (b_get B d) = stored_bytes (b_get B (f_db st)) - old_len B (f_db st) k + int (length enc)"
    if "b_put B (f_db st) k enc = Some d" for d enc
    unfolding bolt_lawsD(1) [OF assms(1) that] old_len_def by (rule bytes_upd(1) [OF bolt_lawsD(6) [OF assms(1)]])
  show ?thesis
    using assms(2-5) unfolding ke flushEntry_eq by (auto simp: put split: option.split)
qed

lemma flush_cap:
  assumes "bolt_laws B" "0 < maxB" "stored_bytes (b_get B (f_db st)) \<le> f_cur st"
    "stored_bytes (b_get B (f_db st)) \<le> M" "maxB \<le> M"
  shows "stored_bytes (b_get B (f_db (foldl (flushEntry B Z cmp maxB) st buf))) \<le> M"
  using assms(3,4)
proof (induction buf arbitrary: st)
  case (Cons ke buf)
  then show ?case using flushEntry_cap [OF assms(1,2) Cons.prems assms(5)] by simp
qed simp

lemma swept_bytes:
  assumes "bolt_laws B" "swept B Z cmp now d d'"
  shows "stored_bytes (b_get B d') \<le> stored_bytes (b_get B d)" "0 \<le> key_bytes (b_get B d')"
proof -
  have eq: "b_get B d' k = b_get B d k" if "k \<in> dom (b_get B d')" for k
    using that assms(2) unfolding swept_def by (metis domIff)
  then have sub: "dom (b_get B d') \<subseteq> dom (b_get B d)" by (metis domIff subsetI)
  have "stored_bytes (b_get B d') = (\<Sum>k \<in> dom (b_get B d'). int (length (the (b_get B d k))))"
    unfolding stored_bytes_def by (rule sum.cong) (auto simp: eq)
  also have "\<dots> \<le> stored_bytes (b_get B d)"
    unfolding stored_bytes_def by (rule sum_mono2 [OF bolt_lawsD(6) [OF assms(1)] sub]) simp
  finally show "stored_bytes (b_get B d') \<le> stored_bytes (b_get B d)" .
  show "0 \<le> key_bytes (b_get B d')" unfolding key_bytes_def by (rule sum_nonneg) simp
qed

text \<open>
  C21: the cap holds. A flush never brings the values on disk above \<open>maxBytes\<close>, or above what
  they were: overwrites count the difference, and what does not fit is dropped.
\<close>

theorem disk_cap_respected:
  assumes "bolt_laws B" "\<forall>d k. b_delete B d k \<noteq> None" "0 < dc_maxBytes dc"
  shows "stored_bytes (b_get B (db (Flush B Z dc now ticks)))
    \<le> max (stored_bytes (b_get B (db dc))) (dc_maxBytes dc)"
proof -
  obtain d1 r ev c where sw: "sweepExpired B Z dc now ticks = (d1, r, ev, c)" by (metis prod_cases4)
  obtain st0 where st0: "flushRun B Z dc now ticks =
      foldl (flushEntry B Z (compression dc) (dc_maxBytes dc)) st0 (writeBuf dc)" "f_db st0 = d1"
    "f_cur st0 = max 0 ((if dc_maxBytes dc > 0 then b_leafInuse B (db dc) else 0) - r)"
    using flushRun_eq [OF sw] .
  note s = sweepExpired_swept [OF assms(1) sw]
  note le = swept_bytes [OF assms(1) s(1)]
  have "stored_bytes (b_get B d1) \<le> f_cur st0"
    using s(2) [OF assms(2)] le(2) bolt_lawsD(7) [OF assms(1), of "db dc"] assms(3) by (simp add: st0(3))
  from flush_cap [OF assms(1,3) this [folded st0(2)], of "max (stored_bytes (b_get B (db dc))) (dc_maxBytes dc)"] le(1)
  have "stored_bytes (b_get B (f_db (flushRun B Z dc now ticks)))
      \<le> max (stored_bytes (b_get B (db dc))) (dc_maxBytes dc)"
    by (simp add: st0)
  then show ?thesis by (simp add: Flush_def Let_def txUpdate_def)
qed

theorem disk_cap_respected_witness:
  "stored_bytes (b_get al_bolt (db (Flush al_bolt copy_gzip
     (disk_Set al_bolt copy_gzip (disk0 10) ''k'' ''vvv'' Minute 0 1) Second 1))) \<le> 10"
proof -
  let ?dc = "disk_Set al_bolt copy_gzip (disk0 10) ''k'' ''vvv'' Minute 0 1"
  have d: "db ?dc = [] \<and> dc_maxBytes ?dc = 10" by code_simp
  moreover have "\<forall>d k. b_delete al_bolt d k \<noteq> None" by (simp add: al_bolt_def)
  moreover have "stored_bytes (b_get al_bolt []) = 0" by (simp add: al_bolt_def stored_bytes_def)
  ultimately show ?thesis
    using disk_cap_respected [OF al_bolt_laws, of ?dc copy_gzip Second 1] by simp
qed


end
