(* ===== verification/HashRing.thy ===== *)
theory HashRing
  imports Sha256
begin

text \<open>
  The consistent hash ring of \<^verbatim>\<open>internal/cache/peer.go\<close>, which assigns each cache key to
  the peer that owns it. The points of the ring are 32-bit words, the first word of the SHA-256
  digest; \<open>Search\<close> is the binary search of \<^verbatim>\<open>sort.Search\<close>.
\<close>

record hashRing =
  vnodes :: nat
  ring :: "w32 list"
  nodeMap :: "w32 \<rightharpoonup> string"

definition newHashRing :: "nat \<Rightarrow> hashRing" where
  "newHashRing v = \<lparr>vnodes = v, ring = [], nodeMap = Map.empty\<rparr>"

definition hashKey :: "string \<Rightarrow> w32" where
  "hashKey key = hd (Sum256 key)"

definition vnode_points :: "nat \<Rightarrow> string \<Rightarrow> w32 list" where
  "vnode_points v addr = map (\<lambda>i. hashKey (addr @ ''#'' @ Itoa (int i))) [0..<v]"

definition ring_add :: "hashRing \<Rightarrow> string \<Rightarrow> hashRing" where
  "ring_add hr addr =
     (let hr1 = foldl (\<lambda>r h. r\<lparr>ring := ring r @ [h], nodeMap := (nodeMap r)(h \<mapsto> addr)\<rparr>) hr
                  (vnode_points (vnodes hr) addr)
      in hr1\<lparr>ring := sort (ring hr1)\<rparr>)"

function search_loop :: "(nat \<Rightarrow> bool) \<Rightarrow> nat \<Rightarrow> nat \<Rightarrow> nat" where
  "search_loop f i j =
     (if i < j then let h = (i + j) div 2 in if \<not> f h then search_loop f (h + 1) j else search_loop f i h
      else i)"
  by pat_completeness auto
termination
  by (relation "measure (\<lambda>(f, i, j). j - i)") auto

declare search_loop.simps [simp del]

definition Search :: "nat \<Rightarrow> (nat \<Rightarrow> bool) \<Rightarrow> nat" where
  "Search n f = search_loop f 0 n"

definition ring_get :: "hashRing \<Rightarrow> string \<Rightarrow> string" where
  "ring_get hr key =
     (if ring hr = [] then []
      else let h = hashKey key;
               idx = Search (length (ring hr)) (\<lambda>i. ring hr ! i \<ge> h);
               idx1 = (if idx = length (ring hr) then 0 else idx)
           in (case nodeMap hr (ring hr ! idx1) of Some addr \<Rightarrow> addr | None \<Rightarrow> []))"

text \<open>The ring that \<open>updatePeers\<close> builds, with 150 points for each peer.\<close>

definition ring_of :: "nat \<Rightarrow> string list \<Rightarrow> hashRing" where
  "ring_of v peers = foldl ring_add (newHashRing v) peers"

subsection \<open>Binary search\<close>

lemma search_loop_correct:
  assumes "\<And>x y. x \<le> y \<Longrightarrow> y < n \<Longrightarrow> f x \<Longrightarrow> f y" "i \<le> j" "\<And>x. x < i \<Longrightarrow> \<not> f x" "j < n \<Longrightarrow> f j" "j \<le> n"
  shows "search_loop f i j \<le> n \<and> (\<forall>x < search_loop f i j. \<not> f x) \<and>
    (search_loop f i j < n \<longrightarrow> f (search_loop f i j))"
  using assms
proof (induction f i j rule: search_loop.induct)
  case (1 f i j)
  show ?case
  proof (cases "i < j")
    case False
    with 1(4-7) show ?thesis by (subst (1 2 3 4) search_loop.simps) auto
  next
    case True
    let ?h = "(i + j) div 2"
    have h: "i \<le> ?h" "?h < j" using True by auto
    show ?thesis
    proof (cases "f ?h")
      case False
      then have "\<not> f x" if "x < ?h + 1" for x using that 1(3) [of x ?h] h 1(7) by auto
      with 1(1) [OF True refl False 1(3)] True False h 1(6,7) show ?thesis
        by (subst (1 2 3 4) search_loop.simps) (simp add: Let_def)
    next
      case fh: True
      with 1(2) [OF True refl _ 1(3)] True h 1(5,7) show ?thesis
        by (subst (1 2 3 4) search_loop.simps) (simp add: Let_def)
    qed
  qed
qed

text \<open>The first point at or after \<open>h\<close>, going round the ring.\<close>

definition succ_point :: "w32 set \<Rightarrow> w32 \<Rightarrow> w32" where
  "succ_point S h = (if \<exists>x \<in> S. h \<le> x then Min {x \<in> S. h \<le> x} else Min S)"

lemma sorted_hd_Min: "sorted xs \<Longrightarrow> xs \<noteq> [] \<Longrightarrow> xs ! 0 = Min (set xs)"
  by (cases xs) (auto intro: Min_eqI [symmetric])

lemma search_succ:
  fixes xs :: "w32 list" and h :: w32
  assumes "sorted xs" "xs \<noteq> []"
  defines "idx \<equiv> Search (length xs) (\<lambda>i. xs ! i \<ge> h)"
  shows "xs ! (if idx = length xs then 0 else idx) = succ_point (set xs) h"
proof -
  have "idx \<le> length xs \<and> (\<forall>x < idx. \<not> h \<le> xs ! x) \<and> (idx < length xs \<longrightarrow> h \<le> xs ! idx)"
    unfolding idx_def Search_def
    by (rule search_loop_correct) (use assms(1) in \<open>auto dest: sorted_nth_mono\<close>)
  then have idx: "idx \<le> length xs" "\<And>x. x < idx \<Longrightarrow> \<not> h \<le> xs ! x" "idx < length xs \<Longrightarrow> h \<le> xs ! idx"
    by auto
  show ?thesis
  proof (cases "idx = length xs")
    case True
    then have "\<not> (\<exists>x \<in> set xs. h \<le> x)" using idx(2) by (auto simp: in_set_conv_nth)
    with True assms(1,2) show ?thesis by (simp add: succ_point_def sorted_hd_Min)
  next
    case False
    then have lt: "idx < length xs" using idx(1) by simp
    have "xs ! idx \<le> y" if "y \<in> set xs" "h \<le> y" for y
    proof -
      obtain j where j: "j < length xs" "y = xs ! j" using \<open>y \<in> set xs\<close> by (auto simp: in_set_conv_nth)
      with idx(2) \<open>h \<le> y\<close> have "idx \<le> j" by (metis not_le)
      with j assms(1) show ?thesis by (simp add: sorted_nth_mono)
    qed
    then have "Min {x \<in> set xs. h \<le> x} = xs ! idx"
      using lt idx(3) by (intro Min_eqI) auto
    with lt idx(3) show ?thesis by (auto simp: succ_point_def)
  qed
qed

lemma succ_point_in: "finite S \<Longrightarrow> S \<noteq> {} \<Longrightarrow> succ_point S h \<in> S"
  unfolding succ_point_def using Min_in [of "{x \<in> S. h \<le> x}"] by auto

text \<open>Adding points moves a key to one of the new points or not at all.\<close>

lemma succ_point_union:
  assumes "finite S" "finite T" "S \<noteq> {}"
  shows "succ_point (S \<union> T) h \<in> T \<or> succ_point (S \<union> T) h = succ_point S h"
proof -
  have sub: "Min B = Min A" if "finite B" "A \<subseteq> B" "Min B \<in> A" for A B :: "w32 set"
    using that by (intro Min_eqI [symmetric]) (auto intro: finite_subset)
  let ?s = "succ_point (S \<union> T) h"
  have "?s \<in> S \<union> T" using assms by (intro succ_point_in) auto
  moreover have "?s = succ_point S h" if "?s \<in> S"
  proof (cases "\<exists>x \<in> S \<union> T. h \<le> x")
    case True
    then have s: "?s = Min {x \<in> S \<union> T. h \<le> x}" by (simp add: succ_point_def)
    then have "?s \<in> {x \<in> S \<union> T. h \<le> x}" using True assms by (simp only:) (rule Min_in, auto)
    then have in_S: "?s \<in> {x \<in> S. h \<le> x}" using that by simp
    then have "Min {x \<in> S \<union> T. h \<le> x} = Min {x \<in> S. h \<le> x}"
      using assms s by (intro sub) auto
    with in_S s show ?thesis by (auto simp: succ_point_def)
  next
    case False
    then have "?s = Min (S \<union> T)" by (simp add: succ_point_def)
    with that sub [of "S \<union> T" S] assms False show ?thesis by (auto simp: succ_point_def)
  qed
  ultimately show ?thesis by blast
qed

subsection \<open>The ring of a peer list\<close>

lemma ring_add_loop:
  "foldl (\<lambda>r h. r\<lparr>ring := ring r @ [h], nodeMap := (nodeMap r)(h \<mapsto> addr)\<rparr>) hr hs =
    hr\<lparr>ring := ring hr @ hs, nodeMap := (\<lambda>h. if h \<in> set hs then Some addr else nodeMap hr h)\<rparr>"
  by (induction hs arbitrary: hr) (auto intro!: hashRing.equality)

lemma ring_add_eq:
  "ring_add hr addr =
    (let hs = vnode_points (vnodes hr) addr
     in hr\<lparr>ring := sort (ring hr @ hs), nodeMap := (\<lambda>h. if h \<in> set hs then Some addr else nodeMap hr h)\<rparr>)"
  by (simp add: ring_add_def ring_add_loop Let_def)

definition ring_ok :: "hashRing \<Rightarrow> bool" where
  "ring_ok hr \<longleftrightarrow> sorted (ring hr) \<and> dom (nodeMap hr) = set (ring hr)"

lemma ring_ok_new [simp]: "ring_ok (newHashRing v)"
  by (simp add: ring_ok_def newHashRing_def)

lemma ring_ok_add [inv_intros]: "ring_ok hr \<Longrightarrow> ring_ok (ring_add hr addr)"
  by (auto simp: ring_ok_def ring_add_eq Let_def dom_def split: if_splits)

lemma ring_add_simps [simp]:
  "set (ring (ring_add hr addr)) = set (ring hr) \<union> set (vnode_points (vnodes hr) addr)"
  "nodeMap (ring_add hr addr) h =
    (if h \<in> set (vnode_points (vnodes hr) addr) then Some addr else nodeMap hr h)"
  "vnodes (ring_add hr addr) = vnodes hr"
  by (simp_all add: ring_add_eq Let_def)

interpretation peers_ring: invariant_machine ring_add ring_ok
  by unfold_locales (rule ring_ok_add)

lemma run_foldl: "run f s es = foldl f s es"
  by (induction es arbitrary: s) auto

lemma ring_of_ok: "ring_ok (ring_of v peers)"
  using peers_ring.run_inv [of "newHashRing v" peers] by (simp add: ring_of_def run_foldl)

lemma ring_of_snoc: "ring_of v (peers @ [p]) = ring_add (ring_of v peers) p"
  by (simp add: ring_of_def)

lemma ring_of_vnodes [simp]: "vnodes (ring_of v peers) = v"
  by (induction peers rule: rev_induct) (simp_all add: ring_of_snoc ring_of_def newHashRing_def)

lemma ring_of_points: "set (ring (ring_of v peers)) = (\<Union>p \<in> set peers. set (vnode_points v p))"
  by (induction peers rule: rev_induct) (auto simp: ring_of_snoc, simp add: ring_of_def newHashRing_def)

lemma ring_of_owner:
  "nodeMap (ring_of v peers) h = Some a \<Longrightarrow> a \<in> set peers \<and> h \<in> set (vnode_points v a)"
  by (induction peers rule: rev_induct)
    (auto simp: ring_of_snoc split: if_splits, simp_all add: ring_of_def newHashRing_def)

text \<open>What \<open>get\<close> returns, in terms of the points and their owners.\<close>

lemma ring_get_eq:
  assumes "ring_ok hr" "ring hr \<noteq> []"
  shows "ring_get hr key = the (nodeMap hr (succ_point (set (ring hr)) (hashKey key)))"
    "succ_point (set (ring hr)) (hashKey key) \<in> set (ring hr)"
proof -
  show in_r: "succ_point (set (ring hr)) (hashKey key) \<in> set (ring hr)"
    using assms(2) by (intro succ_point_in) auto
  then obtain a where a: "nodeMap hr (succ_point (set (ring hr)) (hashKey key)) = Some a"
    using assms(1) by (auto simp: ring_ok_def)
  have "sorted (ring hr)" using assms(1) by (simp add: ring_ok_def)
  from search_succ [OF this assms(2), of "hashKey key"] a assms(2)
  show "ring_get hr key = the (nodeMap hr (succ_point (set (ring hr)) (hashKey key)))"
    by (simp add: ring_get_def Let_def)
qed

lemma vnode_points_nonempty: "0 < v \<Longrightarrow> vnode_points v p \<noteq> []"
  by (simp add: vnode_points_def)

lemma ring_of_nonempty: "0 < v \<Longrightarrow> peers \<noteq> [] \<Longrightarrow> ring (ring_of v peers) \<noteq> []"
  using ring_of_points [of v peers] vnode_points_nonempty [of v] by (cases peers) auto

lemma ring_get_member:
  assumes "0 < v" "peers \<noteq> []"
  shows "ring_get (ring_of v peers) key \<in> set peers"
proof -
  note g = ring_get_eq [OF ring_of_ok ring_of_nonempty [OF assms], of key]
  obtain a where a: "nodeMap (ring_of v peers) (succ_point (set (ring (ring_of v peers))) (hashKey key)) = Some a"
    using g(2) ring_of_ok [of v peers] by (auto simp: ring_ok_def)
  then show ?thesis using ring_of_owner [OF a] g(1) by simp
qed

text \<open>
  C19: a ring with peers assigns every key to one of them, and when a peer joins, a key stays
  with its owner or moves to the new peer.
\<close>

theorem ring_join_moves_to_joiner:
  assumes "0 < v" "peers \<noteq> []"
  shows "ring_get (ring_of v peers) key \<in> set peers \<and>
    ring_get (ring_of v (peers @ [p])) key \<in> {ring_get (ring_of v peers) key, p}"
proof -
  let ?r = "ring_of v peers" and ?h = "hashKey key"
  note ne = ring_of_nonempty [OF assms]
  note g = ring_get_eq [OF ring_of_ok ne, of key]
  have ne': "ring (ring_add ?r p) \<noteq> []" using ring_of_nonempty [OF assms(1), of "peers @ [p]"] by (simp add: ring_of_snoc)
  note g' = ring_get_eq [OF ring_ok_add [OF ring_of_ok] ne', of key]
  have "ring_get (ring_add ?r p) key \<in> {ring_get ?r key, p}"
    using succ_point_union [of "set (ring ?r)" "set (vnode_points v p)" ?h] ne
    by (auto simp: g(1) g'(1))
  then show ?thesis
    using ring_get_member [OF assms] by (simp add: ring_of_snoc)
qed

theorem ring_join_moves_to_joiner_witness:
  "ring_get (ring_of 150 [''10.0.0.1:3100'']) ''k'' = ''10.0.0.1:3100'' \<and>
   ring_get (ring_of 150 [''10.0.0.1:3100'', ''10.0.0.2:3100'']) ''k'' \<in> {''10.0.0.1:3100'', ''10.0.0.2:3100''}"
  using ring_join_moves_to_joiner [of 150 "[''10.0.0.1:3100'']" "''k''" "''10.0.0.2:3100''"] by auto

text \<open>No point of the ring belongs to two different peers.\<close>

definition no_collisions :: "nat \<Rightarrow> string list \<Rightarrow> bool" where
  "no_collisions v peers \<longleftrightarrow>
     (\<forall>p \<in> set peers. \<forall>q \<in> set peers. p \<noteq> q \<longrightarrow> set (vnode_points v p) \<inter> set (vnode_points v q) = {})"

lemma ring_of_nodeMap:
  assumes "no_collisions v peers" "p \<in> set peers" "h \<in> set (vnode_points v p)"
  shows "nodeMap (ring_of v peers) h = Some p"
proof -
  have "h \<in> set (ring (ring_of v peers))" using assms(2,3) by (auto simp: ring_of_points)
  then obtain a where a: "nodeMap (ring_of v peers) h = Some a"
    using ring_of_ok [of v peers] by (auto simp: ring_ok_def)
  have "a \<in> set peers" "h \<in> set (vnode_points v a)" using ring_of_owner [OF a] by simp_all
  with assms have "a = p" by (auto simp: no_collisions_def disjoint_iff)
  with a show ?thesis by simp
qed

text \<open>
  Replicas that know the same set of peers agree on the owner of every key, in whatever order
  and however often the discovery listed them, unless two peers' points collide.
\<close>

theorem ring_agreement:
  assumes "set peers = set peers'" "no_collisions v peers"
  shows "ring_get (ring_of v peers) key = ring_get (ring_of v peers') key"
proof (cases "ring (ring_of v peers) = []")
  case True
  then have "set (ring (ring_of v peers')) = {}" using ring_of_points [of v] assms(1) by (metis list.set(1))
  with True show ?thesis by (simp add: ring_get_def)
next
  case False
  let ?s = "succ_point (set (ring (ring_of v peers))) (hashKey key)"
  have pts: "set (ring (ring_of v peers')) = set (ring (ring_of v peers))"
    using assms(1) by (simp add: ring_of_points)
  then have ne': "ring (ring_of v peers') \<noteq> []" using False by (metis set_empty)
  have nc': "no_collisions v peers'" using assms by (simp add: no_collisions_def)
  have "?s \<in> set (ring (ring_of v peers))" by (rule ring_get_eq(2) [OF ring_of_ok False])
  then obtain p where p: "p \<in> set peers" "?s \<in> set (vnode_points v p)" by (auto simp: ring_of_points)
  then have "nodeMap (ring_of v peers) ?s = Some p" "nodeMap (ring_of v peers') ?s = Some p"
    using ring_of_nodeMap [OF assms(2)] ring_of_nodeMap [OF nc'] assms(1) by auto
  then show ?thesis
    by (simp add: ring_get_eq(1) [OF ring_of_ok False] ring_get_eq(1) [OF ring_of_ok ne'] pts)
qed

theorem ring_agreement_witness:
  "ring_get (ring_of 150 [''10.0.0.1:3100'']) ''k'' =
   ring_get (ring_of 150 [''10.0.0.1:3100'', ''10.0.0.1:3100'']) ''k''"
  using ring_agreement [of "[''10.0.0.1:3100'']" "[''10.0.0.1:3100'', ''10.0.0.1:3100'']" 150 "''k''"]
  by (simp add: no_collisions_def)

end
