(* ===== verification/PeerCache.thy ===== *)
theory PeerCache
  imports HashRing "HOL-Library.List_Lexorder" "HOL-Library.Char_ord" "HOL-Library.Product_Lexorder"
begin

text \<open>
  The peer tier of the cache, \<^verbatim>\<open>internal/cache/peer.go\<close>: the client side. A replica
  knows its peers, the hash ring over them, a breaker for each peer, and the settings of the
  read-ahead.

  \<^item> A request to a peer is answered by a \<open>peerReply\<close>, an argument of the operations that send
    one. The request itself is an output where its content matters.
  \<^item> The codecs (\<^verbatim>\<open>klauspost/compress\<close>) are third-party code: the argument \<open>C\<close>
    of the functions that use them; \<open>codec_laws\<close> in \<open>TieredCache\<close> is what the code relies on.
  \<^item> Maps are association lists with distinct keys; atomics and mutexes are one step each.
  \<^item> Lookups of names (\<^verbatim>\<open>net.LookupHost\<close>, \<^verbatim>\<open>net.LookupSRV\<close>) are arguments.
\<close>

definition maxPeerResponseBytes :: int where
  "maxPeerResponseBytes = 32 * 1024 * 1024"

definition maxPeerDecodedBodyBytes :: int where
  "maxPeerDecodedBodyBytes = 32 * 1024 * 1024"

definition maxPeerHotIndexBytes :: int where
  "maxPeerHotIndexBytes = 4 * 1024 * 1024"

definition maxPeerSetBodyBytes :: int where
  "maxPeerSetBodyBytes = 8 * 1024 * 1024"

definition peerCompressionMinBytes :: int where
  "peerCompressionMinBytes = 1024"

definition MinUsableTTL :: duration where
  "MinUsableTTL = 5 * Second"

record peerBreaker =
  pb_failures :: int
  pb_lastFail :: int
  pb_threshold :: int
  pb_cooldown :: duration

record peerConfig =
  cfg_SelfAddr :: string
  cfg_SelfAZ :: string
  cfg_AuthToken :: string
  cfg_WriteThrough :: bool
  cfg_WriteThroughMinTTL :: duration
  cfg_ReadAheadEnabled :: bool
  cfg_ReadAheadInterval :: duration
  cfg_ReadAheadJitter :: duration
  cfg_ReadAheadTopN :: int
  cfg_ReadAheadMaxKeys :: int
  cfg_ReadAheadMaxBytes :: int
  cfg_ReadAheadMaxConcurrency :: int
  cfg_ReadAheadMinTTL :: duration
  cfg_ReadAheadMaxObjectBytes :: int
  cfg_ReadAheadTenantFairShare :: int
  cfg_ReadAheadErrorBackoff :: duration

record peerCache =
  pc_ring :: hashRing
  selfAddr :: string
  selfAZ :: string
  peerAZs :: "(string \<times> string) list"
  peers :: "string list"
  peerHosts :: "string list"
  authToken :: string
  writeThrough :: bool
  wtMinTTL :: duration
  readAheadEnabled :: bool
  readAheadInterval :: duration
  readAheadJitter :: duration
  readAheadTopN :: int
  readAheadMaxKeysPerTick :: int
  readAheadMaxBytesPerTick :: int
  readAheadMaxConcurrency :: int
  readAheadMinTTL :: duration
  readAheadMaxObjectBytes :: int
  readAheadTenantFairShare :: int
  readAheadErrorBackoff :: duration
  readAheadBackoffUntil :: int
  readAheadErrorStreak :: int
  breakers :: "(string \<times> peerBreaker) list"
  peerErrorReasons :: "(string \<times> int) list"
  peerSetEncodings :: "(string \<times> string) list"
  PeerHits :: int
  PeerMisses :: int
  PeerErrors :: int
  WTPushes :: int
  WTErrors :: int
  RAHotReq :: int
  RAHotErr :: int
  RAPrefetch :: int
  RABytes :: int
  RABudget :: int
  RATenant :: int

record hotIndexEntry =
  he_Key :: string
  he_Tenant :: string
  he_Score :: nat
  he_SizeBytes :: int
  he_RemainingTTLMS :: int

subsection \<open>Configuration and peers\<close>

definition orDefault :: "int \<Rightarrow> int \<Rightarrow> int" where
  "orDefault x d = (if x \<le> 0 then d else x)"

definition NewPeerCache :: "peerConfig \<Rightarrow> peerCache" where
  "NewPeerCache cfg =
     \<lparr>pc_ring = newHashRing 150, selfAddr = cfg_SelfAddr cfg, selfAZ = TrimSpace (cfg_SelfAZ cfg),
      peerAZs = [], peers = [], peerHosts = [], authToken = TrimSpace (cfg_AuthToken cfg),
      writeThrough = cfg_WriteThrough cfg,
      wtMinTTL = orDefault (cfg_WriteThroughMinTTL cfg) (30 * Second),
      readAheadEnabled = cfg_ReadAheadEnabled cfg,
      readAheadInterval = orDefault (cfg_ReadAheadInterval cfg) (30 * Second),
      readAheadJitter = (if cfg_ReadAheadJitter cfg < 0 then 0 else cfg_ReadAheadJitter cfg),
      readAheadTopN = orDefault (cfg_ReadAheadTopN cfg) 256,
      readAheadMaxKeysPerTick = orDefault (cfg_ReadAheadMaxKeys cfg) 64,
      readAheadMaxBytesPerTick = orDefault (cfg_ReadAheadMaxBytes cfg) (8 * 1024 * 1024),
      readAheadMaxConcurrency = orDefault (cfg_ReadAheadMaxConcurrency cfg) 4,
      readAheadMinTTL = orDefault (cfg_ReadAheadMinTTL cfg) (30 * Second),
      readAheadMaxObjectBytes = orDefault (cfg_ReadAheadMaxObjectBytes cfg) (256 * 1024),
      readAheadTenantFairShare =
        (let f = orDefault (cfg_ReadAheadTenantFairShare cfg) 50 in if f > 100 then 100 else f),
      readAheadErrorBackoff = orDefault (cfg_ReadAheadErrorBackoff cfg) (15 * Second),
      readAheadBackoffUntil = 0, readAheadErrorStreak = 0,
      breakers = [], peerErrorReasons = [], peerSetEncodings = [],
      PeerHits = 0, PeerMisses = 0, PeerErrors = 0, WTPushes = 0, WTErrors = 0, RAHotReq = 0,
      RAHotErr = 0, RAPrefetch = 0, RABytes = 0, RABudget = 0, RATenant = 0\<rparr>"

text \<open>The configuration with nothing set, for which every default applies.\<close>

definition defaultConfig :: peerConfig where
  "defaultConfig =
     \<lparr>cfg_SelfAddr = [], cfg_SelfAZ = [], cfg_AuthToken = [], cfg_WriteThrough = False,
      cfg_WriteThroughMinTTL = 0, cfg_ReadAheadEnabled = False, cfg_ReadAheadInterval = 0,
      cfg_ReadAheadJitter = 0, cfg_ReadAheadTopN = 0, cfg_ReadAheadMaxKeys = 0, cfg_ReadAheadMaxBytes = 0,
      cfg_ReadAheadMaxConcurrency = 0, cfg_ReadAheadMinTTL = 0, cfg_ReadAheadMaxObjectBytes = 0,
      cfg_ReadAheadTenantFairShare = 0, cfg_ReadAheadErrorBackoff = 0\<rparr>"

definition peerHostOf :: "string \<Rightarrow> string" where
  "peerHostOf p = (case SplitHostPort p of Some (host, port) \<Rightarrow> host | None \<Rightarrow> p)"

definition updatePeers :: "peerCache \<Rightarrow> string list \<Rightarrow> peerCache" where
  "updatePeers pc ps =
     pc\<lparr>peers := ps, peerHosts := map peerHostOf ps, pc_ring := ring_of 150 ps\<rparr>"

definition IsOwner :: "peerCache \<Rightarrow> string \<Rightarrow> bool" where
  "IsOwner pc key \<longleftrightarrow> peers pc = [] \<or> ring_get (pc_ring pc) key = selfAddr pc"

definition PeerCount :: "peerCache \<Rightarrow> nat" where
  "PeerCount pc = length (filter (\<lambda>p. p \<noteq> selfAddr pc) (peers pc))"

definition HasPeerHost :: "peerCache \<Rightarrow> string \<Rightarrow> bool" where
  "HasPeerHost pc host \<longleftrightarrow> host \<in> set (peerHosts pc)"

definition PeerAZ :: "peerCache \<Rightarrow> string \<Rightarrow> string" where
  "PeerAZ pc addr = (case map_of (peerAZs pc) addr of Some az \<Rightarrow> az | None \<Rightarrow> [])"

definition SetPeerAZ :: "peerCache \<Rightarrow> string \<Rightarrow> string \<Rightarrow> peerCache" where
  "SetPeerAZ pc addr az =
     (if addr = [] then pc
      else if az \<noteq> [] then pc\<lparr>peerAZs := AList.update addr az (peerAZs pc)\<rparr>
      else pc\<lparr>peerAZs := AList.delete addr (peerAZs pc)\<rparr>)"

definition WriteThroughMinTTL :: "peerCache \<Rightarrow> duration" where
  "WriteThroughMinTTL pc = (if writeThrough pc then wtMinTTL pc else 0)"

subsection \<open>Discovery\<close>

definition discoverDNS :: "string list option \<Rightarrow> int \<Rightarrow> string list option" where
  "discoverDNS ips port = map_option (\<lambda>is. sort (map (\<lambda>ip. ip @ '':'' @ Itoa port) is)) ips"

definition discoverSRV ::
  "(string \<Rightarrow> string \<Rightarrow> string \<Rightarrow> (string \<times> int) list option) \<Rightarrow> string \<Rightarrow> string list option" where
  "discoverSRV lookupSRV name =
     (if \<not> HasPrefix name ''_'' then None
      else let parts = SplitN (TrimPrefix name ''_'') (CHR ''.'') 2
           in if length parts < 2 \<or> \<not> HasPrefix (parts ! 1) ''_'' then None
              else let rest = TrimPrefix (parts ! 1) ''_'';
                       protoParts = SplitN rest (CHR ''.'') 2
                   in if length protoParts < 2 then None
                      else map_option
                        (\<lambda>addrs. sort (map (\<lambda>(target, port). TrimSuffix target ''.'' @ '':'' @ Itoa port) addrs))
                        (lookupSRV (parts ! 0) (protoParts ! 0) (protoParts ! 1)))"

definition filterValidPeers :: "string list \<Rightarrow> string list" where
  "filterValidPeers ps = sort (filter (\<lambda>p. p \<noteq> [] \<and> CHR '':'' \<in> set p) (map TrimSpace ps))"

definition parsePeerList :: "string \<Rightarrow> string list" where
  "parsePeerList s = filter (\<lambda>p. p \<noteq> []) (map TrimSpace (Split s (CHR '','')))"

subsection \<open>Breakers and counters\<close>

definition newBreaker :: peerBreaker where
  "newBreaker = \<lparr>pb_failures = 0, pb_lastFail = 0, pb_threshold = 5, pb_cooldown = 10 * Second\<rparr>"

text \<open>\<open>LoadOrStore\<close> of the peer's breaker.\<close>

definition breakerOf :: "peerCache \<Rightarrow> string \<Rightarrow> peerBreaker" where
  "breakerOf pc addr = (case map_of (breakers pc) addr of Some pb \<Rightarrow> pb | None \<Rightarrow> newBreaker)"

definition peerAllowed :: "peerCache \<Rightarrow> string \<Rightarrow> time \<Rightarrow> bool \<times> peerCache" where
  "peerAllowed pc addr now =
     (let pb = breakerOf pc addr;
          pc1 = pc\<lparr>breakers := AList.update addr pb (breakers pc)\<rparr>
      in if pb_failures pb \<ge> pb_threshold pb
         then if now - pb_lastFail pb * Millisecond < pb_cooldown pb then (False, pc1)
              else (True, pc1\<lparr>breakers := AList.update addr (pb\<lparr>pb_failures := 0\<rparr>) (breakers pc1)\<rparr>)
         else (True, pc1))"

definition recordPeerFailure :: "peerCache \<Rightarrow> string \<Rightarrow> time \<Rightarrow> peerCache" where
  "recordPeerFailure pc addr now =
     (let pb = breakerOf pc addr
      in pc\<lparr>breakers := AList.update addr
              (pb\<lparr>pb_failures := pb_failures pb + 1, pb_lastFail := now div Millisecond\<rparr>) (breakers pc)\<rparr>)"

definition recordPeerSuccess :: "peerCache \<Rightarrow> string \<Rightarrow> peerCache" where
  "recordPeerSuccess pc addr =
     (case map_of (breakers pc) addr of
        Some pb \<Rightarrow> pc\<lparr>breakers := AList.update addr (pb\<lparr>pb_failures := 0\<rparr>) (breakers pc)\<rparr>
      | None \<Rightarrow> pc)"

definition RecordPeerErrorReason :: "peerCache \<Rightarrow> string \<Rightarrow> peerCache" where
  "RecordPeerErrorReason pc reason0 =
     (let reason = TrimSpace reason0
      in if reason = [] then pc
         else let n = (case map_of (peerErrorReasons pc) reason of Some n \<Rightarrow> n | None \<Rightarrow> 0)
              in pc\<lparr>peerErrorReasons := AList.update reason (n + 1) (peerErrorReasons pc)\<rparr>)"

definition peerStatusReason :: "int \<Rightarrow> string" where
  "peerStatusReason code = ''status_'' @ Itoa code"

definition recordPeerSetEncoding :: "peerCache \<Rightarrow> string \<Rightarrow> string \<Rightarrow> peerCache" where
  "recordPeerSetEncoding pc addr encoding =
     (if TrimSpace addr = [] then pc
      else if ToLower (TrimSpace encoding) = ''zstd''
      then pc\<lparr>peerSetEncodings := AList.update addr ''zstd'' (peerSetEncodings pc)\<rparr>
      else pc\<lparr>peerSetEncodings := AList.update addr [] (peerSetEncodings pc)\<rparr>)"

definition peerPreferredSetEncoding :: "peerCache \<Rightarrow> string \<Rightarrow> string option" where
  "peerPreferredSetEncoding pc addr =
     (if TrimSpace addr = [] then None
      else case map_of (peerSetEncodings pc) addr of
             Some encoding \<Rightarrow> if TrimSpace encoding \<noteq> [] then Some encoding else None
           | None \<Rightarrow> None)"

subsection \<open>Bodies\<close>

record codec =
  gzip_encode :: "bytes \<Rightarrow> bytes option"
  gzip_decode :: "bytes \<Rightarrow> bytes option"
  zstd_encode :: "bytes \<Rightarrow> bytes option"
  zstd_decode :: "bytes \<Rightarrow> bytes option"

text \<open>\<open>None\<close> is a reader that fails.\<close>

definition readPeerBodyLimited :: "bytes option \<Rightarrow> int \<Rightarrow> bytes option" where
  "readPeerBodyLimited r limit =
     (case r of None \<Rightarrow> None
      | Some body \<Rightarrow> if limit \<le> 0 then Some body else if int (length body) > limit then None else Some body)"

definition encodePeerRequestBody :: "codec \<Rightarrow> bytes \<Rightarrow> string \<Rightarrow> bytes option" where
  "encodePeerRequestBody C body encoding =
     (let e = ToLower (TrimSpace encoding)
      in if e = [] \<or> e = ''identity'' then Some body
         else if e = ''zstd'' then zstd_encode C body
         else if e = ''gzip'' then gzip_encode C body
         else None)"

definition acceptsPeerEncoding :: "string \<Rightarrow> string \<Rightarrow> bool" where
  "acceptsPeerEncoding header encoding =
     list_ex (\<lambda>part. let token = TrimSpace (hd (SplitN part (CHR '';'') 2)) in token = encoding \<or> token = ''*'')
       (Split (ToLower header) (CHR '',''))"

definition decodePeerResponseBody :: "codec \<Rightarrow> string \<Rightarrow> bytes \<Rightarrow> int \<Rightarrow> bytes option" where
  "decodePeerResponseBody C contentEncoding body limit =
     (let e = ToLower (TrimSpace contentEncoding)
      in if e = [] \<or> e = ''identity'' then Some body
         else if e = ''gzip'' \<or> e = ''x-gzip'' then readPeerBodyLimited (gzip_decode C body) limit
         else if e = ''zstd'' then readPeerBodyLimited (zstd_decode C body) limit
         else Some body)"

text \<open>The encoding and the bytes that \<open>writePeerEncodedResponse\<close> sends; \<open>None\<close> when the
  encoder fails.\<close>

definition writePeerEncodedResponse :: "codec \<Rightarrow> string \<Rightarrow> bytes \<Rightarrow> (string \<times> bytes) option" where
  "writePeerEncodedResponse C acceptEncoding body =
     (if int (length body) \<ge> peerCompressionMinBytes \<and> acceptsPeerEncoding acceptEncoding ''zstd''
      then map_option (\<lambda>b. (''zstd'', b)) (zstd_encode C body)
      else if int (length body) \<ge> peerCompressionMinBytes \<and> acceptsPeerEncoding acceptEncoding ''gzip''
      then map_option (\<lambda>b. (''gzip'', b)) (gzip_encode C body)
      else Some ([], body))"

text \<open>
  \<^verbatim>\<open>fmt.Sscanf(s, "%d", &n)\<close> into an \<open>int64\<close>: blanks, a sign, digits; the rest is not
  read. A line break among the blanks, no digit, or a number outside the type is an error.
\<close>

fun span_digits :: "string \<Rightarrow> string" where
  "span_digits [] = []"
| "span_digits (c # s) = (if CHR ''0'' \<le> c \<and> c \<le> CHR ''9'' then c # span_digits s else [])"

definition Sscanf_d :: "string \<Rightarrow> int option" where
  "Sscanf_d s =
     (let s1 = trim_left_with unicode_spaces s;
          blanks = take (length s - length s1) s;
          neg = HasPrefix s1 ''-'';
          s2 = (if neg \<or> HasPrefix s1 ''+'' then drop 1 s1 else s1);
          ds = span_digits s2;
          v = (if neg then - digits_val ds else digits_val ds)
      in if CHR 0x0A \<in> set blanks \<or> ds = [] then None
         else if v < - (2 ^ 63) \<or> v \<ge> 2 ^ 63 then None else Some v)"

subsection \<open>Fetching from and pushing to the owner\<close>

record peerResponse =
  rs_status :: int
  rs_setEncoding :: string
  rs_contentEncoding :: string
  rs_ttlMs :: string
  rs_body :: "bytes option"

datatype peerReply = BuildFailed | SendFailed (timed_out: bool) | Response peerResponse

definition classifyPeerFetchError :: "bool \<Rightarrow> string" where
  "classifyPeerFetchError timeout = (if timeout then ''timeout'' else ''transport'')"

definition peerFailed :: "peerCache \<Rightarrow> string \<Rightarrow> string \<Rightarrow> time \<Rightarrow> peerCache" where
  "peerFailed pc owner reason now =
     (let pc1 = RecordPeerErrorReason (recordPeerFailure pc owner now) reason
      in pc1\<lparr>PeerErrors := PeerErrors pc1 + 1\<rparr>)"

definition ttlFromHeader :: "string \<Rightarrow> duration" where
  "ttlFromHeader h =
     (if h = [] then 0 else case Sscanf_d h of Some ms \<Rightarrow> int64 (ms * Millisecond) | None \<Rightarrow> 0)"

definition fetchFromOwner ::
  "codec \<Rightarrow> peerCache \<Rightarrow> string \<Rightarrow> time \<Rightarrow> peerReply \<Rightarrow> (bytes \<times> duration) option \<times> peerCache" where
  "fetchFromOwner C pc owner now reply =
     (case reply of
        BuildFailed \<Rightarrow> (None, peerFailed pc owner ''request_build'' now)
      | SendFailed timeout \<Rightarrow> (None, peerFailed pc owner (classifyPeerFetchError timeout) now)
      | Response rs \<Rightarrow>
          if rs_status rs = 404 then
            (let pc1 = recordPeerSetEncoding (recordPeerSuccess pc owner) owner (rs_setEncoding rs)
             in (None, pc1\<lparr>PeerMisses := PeerMisses pc1 + 1\<rparr>))
          else if rs_status rs \<noteq> 200 then (None, peerFailed pc owner (peerStatusReason (rs_status rs)) now)
          else case readPeerBodyLimited (rs_body rs) maxPeerResponseBytes of
                 None \<Rightarrow> (None, peerFailed pc owner ''body_read'' now)
               | Some body \<Rightarrow>
                   (case decodePeerResponseBody C (rs_contentEncoding rs) body maxPeerDecodedBodyBytes of
                      None \<Rightarrow> (None, peerFailed pc owner ''decode'' now)
                    | Some decoded \<Rightarrow>
                        (let pc1 = recordPeerSetEncoding (recordPeerSuccess pc owner) owner (rs_setEncoding rs)
                         in (Some (decoded, ttlFromHeader (rs_ttlMs rs)), pc1\<lparr>PeerHits := PeerHits pc1 + 1\<rparr>))))"

text \<open>\<open>Get\<close> of the goroutine that performs the fetch.\<close>

definition peer_Get ::
  "codec \<Rightarrow> peerCache \<Rightarrow> string \<Rightarrow> time \<Rightarrow> peerReply \<Rightarrow> (bytes \<times> duration) option \<times> peerCache" where
  "peer_Get C pc key now reply =
     (if peers pc = [] then (None, pc)
      else let owner = ring_get (pc_ring pc) key
           in if owner = selfAddr pc \<or> owner = [] then (None, pc)
              else let (allowed, pc1) = peerAllowed pc owner now
                   in if \<not> allowed
                      then (let pc2 = RecordPeerErrorReason pc1 ''breaker_open''
                            in (None, pc2\<lparr>PeerErrors := PeerErrors pc2 + 1\<rparr>))
                      else fetchFromOwner C pc1 owner now reply)"

text \<open>\<open>Get\<close> of a goroutine that waits for another's fetch of the same key, and gets its result.\<close>

definition peer_Get_waiting ::
  "peerCache \<Rightarrow> (bytes \<times> duration) option \<Rightarrow> (bytes \<times> duration) option \<times> peerCache" where
  "peer_Get_waiting pc result =
     (case result of
        Some r \<Rightarrow> (Some r, pc\<lparr>PeerHits := PeerHits pc + 1\<rparr>)
      | None \<Rightarrow> (None, pc\<lparr>PeerMisses := PeerMisses pc + 1\<rparr>))"

record push =
  ps_owner :: string
  ps_key :: string
  ps_value :: bytes
  ps_ttl :: duration

text \<open>\<open>SetWithTTL\<close>: the push it starts in the background, if any.\<close>

definition peer_SetWithTTL ::
  "peerCache \<Rightarrow> string \<Rightarrow> bytes \<Rightarrow> duration \<Rightarrow> time \<Rightarrow> push option \<times> peerCache" where
  "peer_SetWithTTL pc key v ttl now =
     (if \<not> writeThrough pc \<or> v = [] then (None, pc)
      else if ttl > 0 \<and> ttl < wtMinTTL pc then (None, pc)
      else if peers pc = [] then (None, pc)
      else let owner = ring_get (pc_ring pc) key
           in if owner = [] \<or> owner = selfAddr pc then (None, pc)
              else let (allowed, pc1) = peerAllowed pc owner now
                   in if \<not> allowed then (None, pc1\<lparr>WTErrors := WTErrors pc1 + 1\<rparr>)
                      else (Some \<lparr>ps_owner = owner, ps_key = key, ps_value = v, ps_ttl = ttl\<rparr>, pc1))"

record setRequest =
  sr_key :: string
  sr_ttlMs :: int
  sr_encoding :: string
  sr_body :: bytes

text \<open>The request that \<open>pushToOwner\<close> sends; \<open>None\<close> when the encoder fails.\<close>

definition pushRequest :: "codec \<Rightarrow> peerCache \<Rightarrow> push \<Rightarrow> setRequest option" where
  "pushRequest C pc p =
     (let ttlMs = (if ps_ttl p > 0 then goDiv (ps_ttl p) Millisecond else 0);
          plain = \<lparr>sr_key = ps_key p, sr_ttlMs = ttlMs, sr_encoding = [], sr_body = ps_value p\<rparr>
      in if int (length (ps_value p)) \<ge> peerCompressionMinBytes
            \<and> peerPreferredSetEncoding pc (ps_owner p) = Some ''zstd''
         then map_option (\<lambda>b. plain\<lparr>sr_encoding := ''zstd'', sr_body := b\<rparr>)
                (encodePeerRequestBody C (ps_value p) ''zstd'')
         else Some plain)"

definition pushToOwner :: "codec \<Rightarrow> peerCache \<Rightarrow> push \<Rightarrow> time \<Rightarrow> peerReply \<Rightarrow> peerCache" where
  "pushToOwner C pc p now reply =
     (let failed = (\<lambda>pc0. let pc1 = recordPeerFailure pc0 (ps_owner p) now in pc1\<lparr>WTErrors := WTErrors pc1 + 1\<rparr>)
      in case pushRequest C pc p of
           None \<Rightarrow> (let pc1 = RecordPeerErrorReason (recordPeerFailure pc (ps_owner p) now) ''encode''
                    in pc1\<lparr>WTErrors := WTErrors pc1 + 1\<rparr>)
         | Some req \<Rightarrow>
             (case reply of
                Response rs \<Rightarrow>
                  if rs_status rs \<noteq> 204 then failed pc
                  else let pc1 = recordPeerSuccess pc (ps_owner p) in pc1\<lparr>WTPushes := WTPushes pc1 + 1\<rparr>
              | _ \<Rightarrow> failed pc))"

subsection \<open>Read-ahead\<close>

text \<open>\<open>r\<close> is the random number drawn, between zero and the jitter.\<close>

definition nextReadAheadDelay :: "peerCache \<Rightarrow> int \<Rightarrow> duration" where
  "nextReadAheadDelay pc r =
     (if readAheadJitter pc \<le> 0 then readAheadInterval pc else readAheadInterval pc + r)"

definition applyReadAheadBackoff :: "peerCache \<Rightarrow> int \<Rightarrow> time \<Rightarrow> peerCache" where
  "applyReadAheadBackoff pc runErrs now =
     (if runErrs \<le> 0 then pc\<lparr>readAheadErrorStreak := 0, readAheadBackoffUntil := 0\<rparr>
      else let streak = readAheadErrorStreak pc + 1;
               mult = (if streak > 4 then 4 else streak)
           in pc\<lparr>readAheadErrorStreak := streak,
                 readAheadBackoffUntil := now + mult * readAheadErrorBackoff pc\<rparr>)"

text \<open>Whether \<open>readAheadLoop\<close> skips this tick.\<close>

definition readAheadPaused :: "peerCache \<Rightarrow> time \<Rightarrow> bool" where
  "readAheadPaused pc now \<longleftrightarrow> now < readAheadBackoffUntil pc"

record selectState =
  ra_keys :: int
  ra_bytes :: int
  ra_selected :: "hotIndexEntry list"
  ra_seen :: "string set"
  ra_tenants :: "(string \<times> int) list"
  ra_budgetDrops :: int
  ra_tenantSkips :: int

definition tenantCount :: "selectState \<Rightarrow> string \<Rightarrow> int" where
  "tenantCount st t = (case map_of (ra_tenants st) t of Some n \<Rightarrow> n | None \<Rightarrow> 0)"

definition tryAdd ::
  "peerCache \<Rightarrow> int \<Rightarrow> selectState \<Rightarrow> hotIndexEntry \<Rightarrow> bool \<Rightarrow> bool \<times> selectState" where
  "tryAdd pc perTenantCap st e enforceFair =
     (if he_Key e = [] then (False, st)
      else if he_Key e \<in> ra_seen st then (False, st)
      else if he_RemainingTTLMS e < goDiv (readAheadMinTTL pc) Millisecond then (False, st)
      else if readAheadMaxObjectBytes pc > 0 \<and> he_SizeBytes e > readAheadMaxObjectBytes pc
      then (False, st\<lparr>ra_budgetDrops := ra_budgetDrops st + 1\<rparr>)
      else if he_SizeBytes e \<le> 0 \<or> he_SizeBytes e > ra_bytes st
      then (False, st\<lparr>ra_budgetDrops := ra_budgetDrops st + 1\<rparr>)
      else let tenant = he_Tenant e
           in if enforceFair \<and> tenant \<noteq> [] \<and> tenantCount st tenant \<ge> perTenantCap
              then (False, st\<lparr>ra_tenantSkips := ra_tenantSkips st + 1\<rparr>)
              else (True, st\<lparr>ra_seen := insert (he_Key e) (ra_seen st),
                     ra_tenants := (if tenant \<noteq> [] then AList.update tenant (tenantCount st tenant + 1) (ra_tenants st)
                                    else ra_tenants st),
                     ra_keys := ra_keys st - 1, ra_bytes := ra_bytes st - he_SizeBytes e,
                     ra_selected := ra_selected st @ [e]\<rparr>))"

text \<open>The two loops: the first collects what it could not add.\<close>

fun selectFair ::
  "peerCache \<Rightarrow> int \<Rightarrow> selectState \<Rightarrow> hotIndexEntry list \<Rightarrow> hotIndexEntry list \<Rightarrow> selectState \<times> hotIndexEntry list" where
  "selectFair pc cap st deferred [] = (st, deferred)"
| "selectFair pc cap st deferred (e # es) =
     (if ra_keys st \<le> 0 \<or> ra_bytes st \<le> 0 then (st, deferred)
      else let (added, st1) = tryAdd pc cap st e True
           in selectFair pc cap st1 (if added then deferred else deferred @ [e]) es)"

fun selectRest :: "peerCache \<Rightarrow> int \<Rightarrow> selectState \<Rightarrow> hotIndexEntry list \<Rightarrow> selectState" where
  "selectRest pc cap st [] = st"
| "selectRest pc cap st (e # es) =
     (if ra_keys st \<le> 0 \<or> ra_bytes st \<le> 0 then st
      else selectRest pc cap (snd (tryAdd pc cap st e False)) es)"

definition selectReadAheadCandidates ::
  "peerCache \<Rightarrow> hotIndexEntry list \<Rightarrow> hotIndexEntry list \<times> peerCache" where
  "selectReadAheadCandidates pc candidates =
     (if candidates = [] \<or> readAheadMaxKeysPerTick pc \<le> 0 then ([], pc)
      else let cap0 = goDiv (readAheadMaxKeysPerTick pc * readAheadTenantFairShare pc) 100;
               cap = (if cap0 < 1 then 1 else cap0);
               st0 = \<lparr>ra_keys = readAheadMaxKeysPerTick pc, ra_bytes = readAheadMaxBytesPerTick pc,
                      ra_selected = [], ra_seen = {}, ra_tenants = [], ra_budgetDrops = 0, ra_tenantSkips = 0\<rparr>;
               (st1, deferred) = selectFair pc cap st0 [] candidates;
               st2 = selectRest pc cap st1 deferred
           in (ra_selected st2, pc\<lparr>RABudget := RABudget pc + ra_budgetDrops st2,
                                   RATenant := RATenant pc + ra_tenantSkips st2\<rparr>))"

text \<open>The merge of the hot indexes that the peers returned (\<open>None\<close> is an error), in the order in
  which the answers arrived.\<close>

definition mergeHotCandidates :: "hotIndexEntry list option list \<Rightarrow> hotIndexEntry list \<times> int" where
  "mergeHotCandidates replies =
     (sort_key (\<lambda>e. (- int (he_Score e), - he_RemainingTTLMS e))
        (concat (map (\<lambda>r. case r of Some es \<Rightarrow> es | None \<Rightarrow> []) replies)),
      int (length (filter (\<lambda>r. r = None) replies)))"

subsection \<open>Ownership\<close>

lemma updatePeers_simps [simp]:
  "peers (updatePeers pc ps) = ps" "pc_ring (updatePeers pc ps) = ring_of 150 ps"
  "selfAddr (updatePeers pc ps) = selfAddr pc"
  by (simp_all add: updatePeers_def)

text \<open>
  A key has exactly one owner. Among replicas that discovered the same peers and whose own
  addresses are those peers, one and only one takes itself for the owner of the key.
\<close>

theorem unique_owner:
  assumes "ps \<noteq> []" "\<And>p. selfAddr (node p) = p"
  shows "\<exists>!p. p \<in> set ps \<and> IsOwner (updatePeers (node p) ps) key"
proof -
  have "ring_get (ring_of 150 ps) key \<in> set ps"
    by (rule ring_get_member) (simp_all add: assms(1))
  then show ?thesis using assms by (auto simp: IsOwner_def)
qed

theorem unique_owner_witness:
  "\<exists>!p. p \<in> set [''a:1'', ''b:1''] \<and>
     IsOwner (updatePeers ((NewPeerCache defaultConfig)\<lparr>selfAddr := p\<rparr>) [''a:1'', ''b:1'']) ''k''"
  using unique_owner [of "[''a:1'', ''b:1'']" "\<lambda>p. (NewPeerCache defaultConfig)\<lparr>selfAddr := p\<rparr>" "''k''"] by simp

subsection \<open>Read-ahead budgets\<close>

definition ra_admissible :: "peerCache \<Rightarrow> hotIndexEntry \<Rightarrow> bool" where
  "ra_admissible pc e \<longleftrightarrow> he_Key e \<noteq> [] \<and> 0 < he_SizeBytes e \<and>
     goDiv (readAheadMinTTL pc) Millisecond \<le> he_RemainingTTLMS e \<and>
     (0 < readAheadMaxObjectBytes pc \<longrightarrow> he_SizeBytes e \<le> readAheadMaxObjectBytes pc)"

definition tenantShare :: "hotIndexEntry list \<Rightarrow> string \<Rightarrow> int" where
  "tenantShare es t = int (length (filter (\<lambda>e. he_Tenant e = t) es))"

definition select_inv :: "peerCache \<Rightarrow> int \<Rightarrow> int \<Rightarrow> hotIndexEntry set \<Rightarrow> selectState \<Rightarrow> bool" where
  "select_inv pc K B S st \<longleftrightarrow>
     0 \<le> ra_keys st \<and> int (length (ra_selected st)) = K - ra_keys st \<and>
     (\<Sum>e\<leftarrow>ra_selected st. he_SizeBytes e) = B - ra_bytes st \<and> (ra_bytes st < 0 \<longrightarrow> ra_selected st = []) \<and>
     distinct (map he_Key (ra_selected st)) \<and> ra_seen st = he_Key ` set (ra_selected st) \<and>
     (\<forall>e \<in> set (ra_selected st). e \<in> S \<and> ra_admissible pc e) \<and>
     (\<forall>t. t \<noteq> [] \<longrightarrow> tenantCount st t = tenantShare (ra_selected st) t)"

lemma tryAdd_inv:
  assumes "select_inv pc K B S st" "0 < ra_keys st" "0 < ra_bytes st" "e \<in> S"
  shows "select_inv pc K B S (snd (tryAdd pc cap st e fair))"
    "fair \<Longrightarrow> 1 \<le> cap \<Longrightarrow> \<forall>t. t \<noteq> [] \<longrightarrow> tenantShare (ra_selected st) t \<le> cap \<Longrightarrow>
      \<forall>t. t \<noteq> [] \<longrightarrow> tenantShare (ra_selected (snd (tryAdd pc cap st e fair))) t \<le> cap"
proof -
  show "select_inv pc K B S (snd (tryAdd pc cap st e fair))"
    using assms
    by (auto simp: tryAdd_def select_inv_def ra_admissible_def Let_def tenantCount_def tenantShare_def
        AList.update_conv')
  have t: "tenantCount st (he_Tenant e) = tenantShare (ra_selected st) (he_Tenant e)" if "he_Tenant e \<noteq> []"
    using assms(1) that by (simp add: select_inv_def)
  show "\<forall>t. t \<noteq> [] \<longrightarrow> tenantShare (ra_selected (snd (tryAdd pc cap st e fair))) t \<le> cap"
    if "fair" "1 \<le> cap" "\<forall>t. t \<noteq> [] \<longrightarrow> tenantShare (ra_selected st) t \<le> cap"
    using that t by (auto simp: tryAdd_def Let_def tenantShare_def)
qed

lemma selectFair_inv:
  assumes "select_inv pc K B S st" "set es \<subseteq> S" "set deferred \<subseteq> S" "1 \<le> cap"
    "\<forall>t. t \<noteq> [] \<longrightarrow> tenantShare (ra_selected st) t \<le> cap"
  shows "select_inv pc K B S (fst (selectFair pc cap st deferred es)) \<and>
    set (snd (selectFair pc cap st deferred es)) \<subseteq> S \<and>
    (\<forall>t. t \<noteq> [] \<longrightarrow> tenantShare (ra_selected (fst (selectFair pc cap st deferred es))) t \<le> cap)"
  using assms
proof (induction es arbitrary: st deferred)
  case (Cons e es)
  show ?case
  proof (cases "ra_keys st \<le> 0 \<or> ra_bytes st \<le> 0")
    case False
    obtain added st1 where ta: "tryAdd pc cap st e True = (added, st1)" by fastforce
    have "select_inv pc K B S st1" "\<forall>t. t \<noteq> [] \<longrightarrow> tenantShare (ra_selected st1) t \<le> cap"
      using tryAdd_inv [OF Cons.prems(1), where e = e and cap = cap and fair = True] Cons.prems False ta by auto
    then show ?thesis
      using Cons.IH [of st1 "if added then deferred else deferred @ [e]"] Cons.prems False ta by auto
  qed (use Cons.prems in auto)
qed simp

lemma selectRest_inv:
  assumes "select_inv pc K B S st" "set es \<subseteq> S"
  shows "select_inv pc K B S (selectRest pc cap st es)"
  using assms
proof (induction es arbitrary: st)
  case (Cons e es)
  then show ?case using tryAdd_inv(1) [OF Cons.prems(1), where e = e and cap = cap and fair = False] by auto
qed simp

text \<open>
  C23: a read-ahead tick stays within its budgets. At most the configured number of keys and of
  bytes are selected, each key once, and only entries that were offered, are long-lived enough and
  are not too large.
\<close>

theorem readahead_within_budget:
  "let (sel, pc') = selectReadAheadCandidates pc candidates in
    int (length sel) \<le> max 0 (readAheadMaxKeysPerTick pc) \<and>
    (\<Sum>e\<leftarrow>sel. he_SizeBytes e) \<le> max 0 (readAheadMaxBytesPerTick pc) \<and>
    distinct (map he_Key sel) \<and> set sel \<subseteq> {e \<in> set candidates. ra_admissible pc e}"
proof (cases "candidates = [] \<or> readAheadMaxKeysPerTick pc \<le> 0")
  case False
  define cap where "cap = (let c = goDiv (readAheadMaxKeysPerTick pc * readAheadTenantFairShare pc) 100 in if c < 1 then 1 else c)"
  define st0 where "st0 = \<lparr>ra_keys = readAheadMaxKeysPerTick pc, ra_bytes = readAheadMaxBytesPerTick pc,
      ra_selected = [], ra_seen = {}, ra_tenants = [], ra_budgetDrops = 0, ra_tenantSkips = 0\<rparr>"
  obtain st1 deferred where s1: "selectFair pc cap st0 [] candidates = (st1, deferred)" by fastforce
  let ?I = "select_inv pc (readAheadMaxKeysPerTick pc) (readAheadMaxBytesPerTick pc) (set candidates)"
  have "?I st0" using False by (simp add: select_inv_def st0_def tenantCount_def tenantShare_def)
  from selectFair_inv [OF this, of candidates "[]" cap] s1
  have "?I st1 \<and> set deferred \<subseteq> set candidates"
    by (simp add: cap_def Let_def tenantShare_def st0_def)
  then have inv: "?I (selectRest pc cap st1 deferred)" by (simp add: selectRest_inv)
  have "fst (selectReadAheadCandidates pc candidates) = ra_selected (selectRest pc cap st1 deferred)"
    using False s1 by (simp add: selectReadAheadCandidates_def cap_def st0_def Let_def)
  with inv show ?thesis
    by (cases "ra_bytes (selectRest pc cap st1 deferred) < 0") (auto simp: select_inv_def split_beta)
qed (simp add: selectReadAheadCandidates_def)

end
