(* ===== verification/GoResult.thy ===== *)
theory GoResult
  imports GoStrings
begin

text \<open>
  Results of the parsers: a value, an error with its text, a run-time panic, or \<open>Loop\<close> when the
  fuel of mutually recursive methods runs out.
\<close>

datatype goError = Errorf string | ParseError string

fun err_msg :: "goError \<Rightarrow> string" where
  "err_msg (Errorf m) = m"
| "err_msg (ParseError m) = m"

datatype 'a res = Ok 'a | Err goError | Panic | Loop

fun bindR :: "'a res \<Rightarrow> ('a \<Rightarrow> 'b res) \<Rightarrow> 'b res" where
  "bindR (Ok x) f = f x"
| "bindR (Err e) f = Err e"
| "bindR Panic f = Panic"
| "bindR Loop f = Loop"

lemma bindR_cong [fundef_cong]:
  "r = r' \<Longrightarrow> (\<And>x. r' = Ok x \<Longrightarrow> f x = g x) \<Longrightarrow> bindR r f = bindR r' g"
  by (cases r') auto

text \<open>Replaces the error of a result, as the code does when it wraps one.\<close>

fun mapErr :: "(string \<Rightarrow> goError) \<Rightarrow> 'a res \<Rightarrow> 'a res" where
  "mapErr f (Err e) = Err (f (err_msg e))"
| "mapErr f r = r"

end
