(* ===== verification/GoUtf8.thy ===== *)
theory GoUtf8
  imports GoStrings
begin

text \<open>
  The functions of Go's \<^verbatim>\<open>unicode/utf8\<close>, \<^verbatim>\<open>unicode\<close> and
  \<^verbatim>\<open>strconv\<close> packages that the LogQL scanner and printer call. A rune is a natural
  number. The tables of \<^verbatim>\<open>unicode\<close> are written out for ASCII and for spaces; for code
  points above ASCII, which are letters, digits or printable is the argument \<open>U\<close>.
\<close>

type_synonym rune = nat

abbreviation byte_of :: "char \<Rightarrow> nat" where
  "byte_of c \<equiv> of_char c"

definition RuneError :: rune where
  "RuneError = 65533"

definition is_cont :: "char \<Rightarrow> bool" where
  "is_cont c \<longleftrightarrow> 128 \<le> byte_of c \<and> byte_of c < 192"

text \<open>The range of the second byte for a first byte of a sequence of three or four.\<close>

definition second_ok :: "nat \<Rightarrow> nat \<Rightarrow> bool" where
  "second_ok b0 b1 \<longleftrightarrow>
     (if b0 = 224 then 160 \<le> b1 \<and> b1 < 192
      else if b0 = 237 then 128 \<le> b1 \<and> b1 < 160
      else if b0 = 240 then 144 \<le> b1 \<and> b1 < 192
      else if b0 = 244 then 128 \<le> b1 \<and> b1 < 144
      else 128 \<le> b1 \<and> b1 < 192)"

text \<open>\<^verbatim>\<open>utf8.DecodeRuneInString\<close>: the rune and its width.\<close>

fun decodeRune :: "string \<Rightarrow> rune \<times> nat" where
  "decodeRune [] = (RuneError, 0)"
| "decodeRune (c # s) =
     (let b0 = byte_of c in
      if b0 < 128 then (b0, 1)
      else if 194 \<le> b0 \<and> b0 < 224 then
        (case s of
           c1 # _ \<Rightarrow> if is_cont c1 then ((b0 - 192) * 64 + (byte_of c1 - 128), 2) else (RuneError, 1)
         | _ \<Rightarrow> (RuneError, 1))
      else if 224 \<le> b0 \<and> b0 < 240 then
        (case s of
           c1 # c2 # _ \<Rightarrow>
             if second_ok b0 (byte_of c1) \<and> is_cont c2
             then ((b0 - 224) * 4096 + (byte_of c1 - 128) * 64 + (byte_of c2 - 128), 3) else (RuneError, 1)
         | _ \<Rightarrow> (RuneError, 1))
      else if 240 \<le> b0 \<and> b0 < 245 then
        (case s of
           c1 # c2 # c3 # _ \<Rightarrow>
             if second_ok b0 (byte_of c1) \<and> is_cont c2 \<and> is_cont c3
             then ((b0 - 240) * 262144 + (byte_of c1 - 128) * 4096 + (byte_of c2 - 128) * 64 + (byte_of c3 - 128), 4)
             else (RuneError, 1)
         | _ \<Rightarrow> (RuneError, 1))
      else (RuneError, 1))"

definition ValidRune :: "rune \<Rightarrow> bool" where
  "ValidRune r \<longleftrightarrow> r < 55296 \<or> (57344 \<le> r \<and> r \<le> 1114111)"

text \<open>\<^verbatim>\<open>utf8.AppendRune\<close>.\<close>

definition encodeRune :: "rune \<Rightarrow> string" where
  "encodeRune r =
     (if r < 128 then [char_of r]
      else if r < 2048 then [char_of (192 + r div 64), char_of (128 + r mod 64)]
      else if \<not> ValidRune r then [CHR 0xEF, CHR 0xBF, CHR 0xBD]
      else if r < 65536 then
        [char_of (224 + r div 4096), char_of (128 + r div 64 mod 64), char_of (128 + r mod 64)]
      else
        [char_of (240 + r div 262144), char_of (128 + r div 4096 mod 64),
         char_of (128 + r div 64 mod 64), char_of (128 + r mod 64)])"

lemma decodeRune_size: "s \<noteq> [] \<Longrightarrow> 1 \<le> snd (decodeRune s) \<and> snd (decodeRune s) \<le> length s"
  by (induction s rule: decodeRune.induct) (auto simp: Let_def split: list.split)

function ValidString :: "string \<Rightarrow> bool" where
  "ValidString s =
     (if s = [] then True
      else if decodeRune s = (RuneError, 1) then False
      else ValidString (drop (snd (decodeRune s)) s))"
  by pat_completeness auto
termination
  using decodeRune_size by (relation "measure length") (auto, fastforce)

declare ValidString.simps [simp del]

subsection \<open>Character classes\<close>

record unicode =
  u_letter :: "rune \<Rightarrow> bool"
  u_digit :: "rune \<Rightarrow> bool"
  u_print :: "rune \<Rightarrow> bool"

definition IsSpace :: "rune \<Rightarrow> bool" where
  "IsSpace r \<longleftrightarrow>
     r \<in> {9, 10, 11, 12, 13, 32, 133, 160, 5760, 8232, 8233, 8239, 8287, 12288} \<or> (8192 \<le> r \<and> r \<le> 8202)"

definition IsLetter :: "unicode \<Rightarrow> rune \<Rightarrow> bool" where
  "IsLetter U r \<longleftrightarrow> (if r < 128 then (65 \<le> r \<and> r \<le> 90) \<or> (97 \<le> r \<and> r \<le> 122) else u_letter U r)"

definition IsDigit :: "unicode \<Rightarrow> rune \<Rightarrow> bool" where
  "IsDigit U r \<longleftrightarrow> (if r < 128 then 48 \<le> r \<and> r \<le> 57 else u_digit U r)"

definition IsPrint :: "unicode \<Rightarrow> rune \<Rightarrow> bool" where
  "IsPrint U r \<longleftrightarrow> (if r < 128 then 32 \<le> r \<and> r \<le> 126 else u_print U r)"

subsection \<open>Quoting\<close>

definition hex_digit :: "nat \<Rightarrow> char" where
  "hex_digit d = (if d < 10 then char_of (48 + d) else char_of (87 + d))"

definition unhex :: "char \<Rightarrow> nat option" where
  "unhex c =
     (let b = byte_of c
      in if 48 \<le> b \<and> b \<le> 57 then Some (b - 48)
         else if 97 \<le> b \<and> b \<le> 102 then Some (b - 87)
         else if 65 \<le> b \<and> b \<le> 70 then Some (b - 55)
         else None)"

text \<open>The hexadecimal digits of a number, most significant first.\<close>

fun to_hex :: "nat \<Rightarrow> nat \<Rightarrow> string" where
  "to_hex 0 x = []"
| "to_hex (Suc n) x = to_hex n (x div 16) @ [hex_digit (x mod 16)]"

fun from_hex :: "nat \<Rightarrow> string \<Rightarrow> nat option" where
  "from_hex acc [] = Some acc"
| "from_hex acc (c # s) = (case unhex c of None \<Rightarrow> None | Some d \<Rightarrow> from_hex (16 * acc + d) s)"

text \<open>\<open>appendEscapedRune\<close> of \<^verbatim>\<open>strconv\<close>, for a double-quoted string.\<close>

definition escapeRune :: "unicode \<Rightarrow> rune \<Rightarrow> string" where
  "escapeRune U r =
     (if r = 34 \<or> r = 92 then [CHR 0x5C, char_of r]
      else if IsPrint U r then encodeRune r
      else if r = 7 then CHR 0x5C # ''a''
      else if r = 8 then CHR 0x5C # ''b''
      else if r = 12 then CHR 0x5C # ''f''
      else if r = 10 then CHR 0x5C # ''n''
      else if r = 13 then CHR 0x5C # ''r''
      else if r = 9 then CHR 0x5C # ''t''
      else if r = 11 then CHR 0x5C # ''v''
      else if r < 32 \<or> r = 127 then CHR 0x5C # CHR ''x'' # to_hex 2 r
      else let r1 = (if ValidRune r then r else RuneError)
           in if r1 < 65536 then CHR 0x5C # CHR ''u'' # to_hex 4 r1
              else CHR 0x5C # CHR ''U'' # to_hex 8 r1)"

function quoteBody :: "unicode \<Rightarrow> string \<Rightarrow> string" where
  "quoteBody U s =
     (if s = [] then []
      else let (r, width) = decodeRune s
           in (if width = 1 \<and> r = RuneError then CHR 0x5C # CHR ''x'' # to_hex 2 (byte_of (hd s))
               else escapeRune U r) @ quoteBody U (drop width s))"
  by pat_completeness auto
termination
  by (relation "measure (\<lambda>(U, s). length s)")
    (auto, metis One_nat_def decodeRune_size diff_less length_greater_0_conv less_eq_Suc_le snd_conv)

declare quoteBody.simps [simp del]

definition Quote :: "unicode \<Rightarrow> string \<Rightarrow> string" where
  "Quote U s = ''\"'' @ quoteBody U s @ ''\"''"

text \<open>\<^verbatim>\<open>strconv.UnquoteChar\<close> in a double-quoted string: the rune, whether it is
  multibyte, and the rest.\<close>

definition unquoteHex :: "nat \<Rightarrow> string \<Rightarrow> (nat \<times> string) option" where
  "unquoteHex n s =
     (if length s < n then None
      else map_option (\<lambda>v. (v, drop n s)) (from_hex 0 (take n s)))"

definition is_octal :: "char \<Rightarrow> bool" where
  "is_octal c \<longleftrightarrow> 48 \<le> byte_of c \<and> byte_of c \<le> 55"

definition simpleEscape :: "char \<Rightarrow> rune option" where
  "simpleEscape c =
     (if c = CHR ''a'' then Some 7 else if c = CHR ''b'' then Some 8 else if c = CHR ''f'' then Some 12
      else if c = CHR ''n'' then Some 10 else if c = CHR ''r'' then Some 13 else if c = CHR ''t'' then Some 9
      else if c = CHR ''v'' then Some 11 else if c = CHR 0x5C then Some 92 else if c = CHR 0x22 then Some 34
      else None)"

definition unquoteEscape :: "string \<Rightarrow> (rune \<times> bool \<times> string) option" where
  "unquoteEscape s =
     (case s of
        [] \<Rightarrow> None
      | c # s1 \<Rightarrow>
          (case simpleEscape c of
             Some r \<Rightarrow> Some (r, False, s1)
           | None \<Rightarrow>
               if c = CHR ''x'' then map_option (\<lambda>(v, s2). (v, False, s2)) (unquoteHex 2 s1)
               else if c = CHR ''u'' \<or> c = CHR ''U'' then
                 (case unquoteHex (if c = CHR ''u'' then 4 else 8) s1 of
                    None \<Rightarrow> None
                  | Some (v, s2) \<Rightarrow> if ValidRune v then Some (v, True, s2) else None)
               else if is_octal c then
                 (if length s1 < 2 \<or> \<not> is_octal (s1 ! 0) \<or> \<not> is_octal (s1 ! 1) then None
                  else let v = (byte_of c - 48) * 64 + (byte_of (s1 ! 0) - 48) * 8 + (byte_of (s1 ! 1) - 48)
                       in if v > 255 then None else Some (v, False, drop 2 s1))
               else None))"

definition UnquoteChar :: "string \<Rightarrow> (rune \<times> bool \<times> string) option" where
  "UnquoteChar s =
     (case s of
        [] \<Rightarrow> None
      | c # s1 \<Rightarrow>
          if c = CHR 0x22 then None
          else if 128 \<le> byte_of c then (let (r, size) = decodeRune s in Some (r, True, drop size s))
          else if c \<noteq> CHR 0x5C then Some (byte_of c, False, s1)
          else unquoteEscape s1)"

lemma unquoteHex_rest: "unquoteHex n s = Some (v, s') \<Longrightarrow> length s' \<le> length s"
  by (auto simp: unquoteHex_def split: if_splits)

lemma unquoteEscape_rest: "unquoteEscape s = Some (r, m, s') \<Longrightarrow> length s' < length s"
  by (auto simp: unquoteEscape_def Let_def split: list.splits option.splits if_splits dest!: unquoteHex_rest)

lemma UnquoteChar_rest: "UnquoteChar s = Some (r, m, s') \<Longrightarrow> length s' < length s"
  using decodeRune_size [of s]
  by (auto simp: UnquoteChar_def split: list.splits if_splits prod.splits dest!: unquoteEscape_rest)

text \<open>The loop of \<^verbatim>\<open>strconv.Unquote\<close> behind the opening quote, up to and including the
  closing one; what follows it must be empty.\<close>

function unquoteBody :: "string \<Rightarrow> string option" where
  "unquoteBody s =
     (case s of
        [] \<Rightarrow> None
      | c # s1 \<Rightarrow>
          if c = CHR 0x22 then (if s1 = [] then Some [] else None)
          else if c = CHR 0x0A then None
          else case UnquoteChar s of
                 None \<Rightarrow> None
               | Some (r, multibyte, rest) \<Rightarrow>
                   map_option (\<lambda>out. (if r < 128 \<or> \<not> multibyte then [char_of r] else encodeRune r) @ out)
                     (unquoteBody rest))"
  by pat_completeness auto
termination
  by (relation "measure length") (auto dest: UnquoteChar_rest)

declare unquoteBody.simps [simp del]

text \<open>\<^verbatim>\<open>strconv.Unquote\<close> of a literal that begins with a double quote.\<close>

definition Unquote :: "string \<Rightarrow> string option" where
  "Unquote s = (if length s < 2 \<or> hd s \<noteq> CHR 0x22 then None else unquoteBody (tl s))"

function CanBackquote :: "string \<Rightarrow> bool" where
  "CanBackquote s =
     (if s = [] then True
      else let (r, wid) = decodeRune s; s1 = drop wid s
           in if wid > 1 then (if r = 65279 then False else CanBackquote s1)
              else if r = RuneError then False
              else if (r < 32 \<and> r \<noteq> 9) \<or> r = 96 \<or> r = 127 then False
              else CanBackquote s1)"
  by pat_completeness auto
termination
  by (relation "measure length")
    (auto, (metis One_nat_def decodeRune_size diff_less length_greater_0_conv less_eq_Suc_le snd_conv)+)

declare CanBackquote.simps [simp del]

subsection \<open>Encoding and decoding\<close>

lemma split3:
  fixes r :: nat
  obtains a b c where "r = 4096 * a + 64 * b + c" "b < 64" "c < 64"
proof -
  have "r = 64 * (r div 64) + r mod 64" "r div 64 = 64 * (r div 64 div 64) + r div 64 mod 64" by simp_all
  then have "r = 4096 * (r div 64 div 64) + 64 * (r div 64 mod 64) + r mod 64" by linarith
  then show thesis by (rule that) simp_all
qed

lemma split3_div:
  fixes a b c :: nat
  assumes "b < 64" "c < 64"
  shows "(4096 * a + 64 * b + c) div 4096 = a" "(4096 * a + 64 * b + c) div 64 mod 64 = b"
    "(4096 * a + 64 * b + c) mod 64 = c"
proof -
  have e: "4096 * a + 64 * b + c = 64 * (64 * a + b) + c" by simp
  have q: "(4096 * a + 64 * b + c) div 64 = 64 * a + b" unfolding e using assms(2) by simp
  then show "(4096 * a + 64 * b + c) div 64 mod 64 = b" using assms(1) by simp
  have "(4096 * a + 64 * b + c) div 4096 = (4096 * a + 64 * b + c) div 64 div 64" by (simp add: div_mult2_eq [symmetric])
  then show "(4096 * a + 64 * b + c) div 4096 = a" unfolding q using assms(1) by simp
  have "(64 * (64 * a + b) + c) mod 64 = c mod 64" by (rule mod_mult_self4)
  then show "(4096 * a + 64 * b + c) mod 64 = c" unfolding e using assms(2) by simp
qed

lemma encodeRune_decode:
  assumes "ValidRune r"
  shows "decodeRune (encodeRune r @ s) = (r, length (encodeRune r))"
proof -
  consider "r < 128" | "128 \<le> r" "r < 2048" | "2048 \<le> r" "r < 65536" | "65536 \<le> r" "r \<le> 1114111"
    using assms by (cases "r < 128"; cases "r < 2048"; cases "r < 65536") (auto simp: ValidRune_def)
  then show ?thesis
  proof cases
    case 1
    then show ?thesis by (simp add: encodeRune_def)
  next
    case 2
    then have "2 \<le> r div 64" "r div 64 < 32" by auto
    with 2 show ?thesis by (simp add: encodeRune_def is_cont_def)
  next
    case 3
    obtain a b c where r: "r = 4096 * a + 64 * b + c" "b < 64" "c < 64" by (rule split3)
    then have d: "r div 4096 = a" "r div 64 mod 64 = b" "r mod 64 = c" by (simp_all add: split3_div)
    have "a < 16" "a = 0 \<Longrightarrow> 32 \<le> b" "a = 13 \<Longrightarrow> b < 32"
      using 3 r assms by (auto simp: ValidRune_def)
    moreover have "encodeRune r = [char_of (224 + a), char_of (128 + b), char_of (128 + c)]"
      using 3 assms by (simp add: encodeRune_def d)
    ultimately show ?thesis
      using r by (auto simp: is_cont_def second_ok_def Let_def)
  next
    case 4
    obtain a b c where r: "r = 4096 * a + 64 * b + c" "b < 64" "c < 64" by (rule split3)
    then have d: "r div 4096 = a" "r div 64 mod 64 = b" "r mod 64 = c" by (simp_all add: split3_div)
    obtain a1 a2 where a: "a = 64 * a1 + a2" "a2 < 64" using that [of "a div 64" "a mod 64"] by simp
    have "r div 262144 = r div 4096 div 64" by (simp add: div_mult2_eq [symmetric])
    then have e: "r div 262144 = a1" "a mod 64 = a2"
      using a unfolding d(1) by simp_all
    have "a1 < 5" "a1 = 0 \<Longrightarrow> 16 \<le> a2" "a1 = 4 \<Longrightarrow> a2 < 16"
      using 4 r a by auto
    moreover have "encodeRune r = [char_of (240 + a1), char_of (128 + a2), char_of (128 + b), char_of (128 + c)]"
      using 4 assms by (simp add: encodeRune_def d e)
    ultimately show ?thesis
      using r a by (auto simp: is_cont_def second_ok_def Let_def)
  qed
qed

lemma byte_of_less: "byte_of c < 256"
  by simp

lemma encodeRune_ascii: "r < 128 \<Longrightarrow> encodeRune r = [char_of r]"
  by (simp add: encodeRune_def)

lemma encodeRune_nonempty [simp]: "encodeRune r \<noteq> []"
  by (simp add: encodeRune_def)

lemma encodeRune_head: "128 \<le> r \<Longrightarrow> ValidRune r \<Longrightarrow> 128 \<le> byte_of (hd (encodeRune r))"
  by (auto simp: encodeRune_def ValidRune_def)

text \<open>Decoding is canonical: a rune other than an encoding error was read from its encoding.\<close>

lemma decodeRune_encode:
  assumes "decodeRune s = (r, w)" "s \<noteq> []" "\<not> (r = RuneError \<and> w = 1)"
  shows "ValidRune r \<and> take w s = encodeRune r"
proof -
  obtain c s1 where s: "s = c # s1" using assms(2) by (cases s) auto
  have c: "byte_of c < 256" by (rule byte_of_less)
  consider "byte_of c < 128" | "194 \<le> byte_of c" "byte_of c < 224" | "224 \<le> byte_of c" "byte_of c < 240"
    | "240 \<le> byte_of c" "byte_of c < 245"
    using assms(1,3) s by (auto simp: Let_def split: if_splits)
  then show ?thesis
  proof cases
    case 1
    then show ?thesis using assms(1) s by (auto simp: encodeRune_ascii ValidRune_def)
  next
    case 2
    then obtain c1 s2 where s1: "s1 = c1 # s2" "is_cont c1" "r = (byte_of c - 192) * 64 + (byte_of c1 - 128)" "w = 2"
      using assms(1,3) s by (auto simp: Let_def split: list.splits if_splits)
    define a b where "a = byte_of c - 192" and "b = byte_of c1 - 128"
    have ab: "2 \<le> a" "a < 32" "b < 64" "byte_of c = 192 + a" "byte_of c1 = 128 + b" "r = 64 * a + b"
      using 2 s1 by (auto simp: a_def b_def is_cont_def)
    have "[char_of (192 + a), char_of (128 + b)] = [c, c1]" by (simp flip: ab(4,5))
    then have "encodeRune r = [c, c1]" using ab by (simp add: encodeRune_def)
    moreover have "ValidRune r" using ab by (simp add: ValidRune_def)
    ultimately show ?thesis by (simp add: s s1)
  next
    case 3
    then obtain c1 c2 s3 where s1: "s1 = c1 # c2 # s3" "second_ok (byte_of c) (byte_of c1)" "is_cont c2"
      "r = (byte_of c - 224) * 4096 + (byte_of c1 - 128) * 64 + (byte_of c2 - 128)" "w = 3"
      using assms(1,3) s by (auto simp: Let_def split: list.splits if_splits)
    define a b d where "a = byte_of c - 224" and "b = byte_of c1 - 128" and "d = byte_of c2 - 128"
    have ab: "a < 16" "b < 64" "d < 64" "byte_of c = 224 + a" "byte_of c1 = 128 + b" "byte_of c2 = 128 + d"
      "r = 4096 * a + 64 * b + d" "a = 0 \<Longrightarrow> 32 \<le> b" "a = 13 \<Longrightarrow> b < 32"
      using 3 s1 by (auto simp: a_def b_def d_def is_cont_def second_ok_def split: if_splits)
    have v: "ValidRune r" "2048 \<le> r" "r < 65536"
    proof -
      show "r < 65536" using ab by auto
      show "2048 \<le> r" using ab by (cases "a = 0") auto
      show "ValidRune r"
      proof (cases "a < 13 \<or> 13 < a")
        case True with ab show ?thesis by (auto simp: ValidRune_def)
      next
        case False with ab show ?thesis by (auto simp: ValidRune_def)
      qed
    qed
    have "[char_of (224 + a), char_of (128 + b), char_of (128 + d)] = [c, c1, c2]" by (simp flip: ab(4-6))
    then have "encodeRune r = [c, c1, c2]"
      using v split3_div [OF ab(2,3), of a] by (simp add: encodeRune_def flip: ab(7))
    with v show ?thesis by (simp add: s s1)
  next
    case 4
    then obtain c1 c2 c3 s4 where s1: "s1 = c1 # c2 # c3 # s4" "second_ok (byte_of c) (byte_of c1)" "is_cont c2" "is_cont c3"
      "r = (byte_of c - 240) * 262144 + (byte_of c1 - 128) * 4096 + (byte_of c2 - 128) * 64 + (byte_of c3 - 128)" "w = 4"
      using assms(1,3) s by (auto simp: Let_def split: list.splits if_splits)
    define a a2 b d where "a = byte_of c - 240" and "a2 = byte_of c1 - 128" and "b = byte_of c2 - 128" and "d = byte_of c3 - 128"
    have r: "r = 4096 * (64 * a + a2) + 64 * b + d"
      using s1(5) [folded a_def a2_def b_def d_def] by simp
    have ab: "a < 5" "a2 < 64" "b < 64" "d < 64" "byte_of c = 240 + a" "byte_of c1 = 128 + a2" "byte_of c2 = 128 + b"
      "byte_of c3 = 128 + d" "a = 0 \<Longrightarrow> 16 \<le> a2" "a = 4 \<Longrightarrow> a2 < 16"
      using 4 s1(2-4) by (auto simp: a_def b_def d_def a2_def is_cont_def second_ok_def split: if_splits)
    have v: "ValidRune r" "65536 \<le> r"
    proof -
      show "65536 \<le> r" using ab r by (cases "a = 0") auto
      then show "ValidRune r" using ab r by (cases "a = 4") (auto simp: ValidRune_def)
    qed
    have "r div 262144 = r div 4096 div 64" by (simp add: div_mult2_eq [symmetric])
    then have "r div 262144 = a" "r div 4096 mod 64 = a2" "r div 64 mod 64 = b" "r mod 64 = d"
      using split3_div [OF ab(3,4), of "64 * a + a2", folded r] ab(2) by simp_all
    moreover have "[char_of (240 + a), char_of (128 + a2), char_of (128 + b), char_of (128 + d)] = [c, c1, c2, c3]"
      by (simp flip: ab(5-8))
    ultimately have "encodeRune r = [c, c1, c2, c3]" using v by (simp add: encodeRune_def)
    with v show ?thesis by (simp add: s s1)
  qed
qed

subsection \<open>Unquoting what Quote prints\<close>

lemma unhex_hex_digit: "d < 16 \<Longrightarrow> unhex (hex_digit d) = Some d"
  by (auto simp: unhex_def hex_digit_def Let_def)

lemma from_hex_append:
  "from_hex a (s @ t) = (case from_hex a s of None \<Rightarrow> None | Some b \<Rightarrow> from_hex b t)"
  by (induction s arbitrary: a) (auto split: option.split)

lemma from_hex_to_hex: "from_hex 0 (to_hex n x) = Some (x mod 16 ^ n)"
proof (induction n arbitrary: x)
  case (Suc n)
  have "16 * (x div 16 mod 16 ^ n) + x mod 16 = x mod 16 ^ Suc n"
    by (simp add: mod_mult2_eq)
  then show ?case by (simp add: from_hex_append Suc unhex_hex_digit)
qed simp

lemma length_to_hex [simp]: "length (to_hex n x) = n"
  by (induction n arbitrary: x) auto

lemma unquoteHex_to_hex: "x < 16 ^ n \<Longrightarrow> unquoteHex n (to_hex n x @ t) = Some (x, t)"
  by (simp add: unquoteHex_def from_hex_to_hex)

lemmas unquote_simps = UnquoteChar_def unquoteEscape_def simpleEscape_def unquoteHex_to_hex

lemma UnquoteChar_byte: "b < 256 \<Longrightarrow> UnquoteChar (CHR 0x5C # CHR ''x'' # to_hex 2 b @ t) = Some (b, False, t)"
  by (simp add: unquote_simps)

lemma UnquoteChar_plain:
  assumes "ValidRune r" "r \<noteq> 34" "r \<noteq> 92"
  shows "UnquoteChar (encodeRune r @ t) = Some (r, 128 \<le> r, t)"
proof (cases "r < 128")
  case True
  then have "char_of r \<noteq> CHR 0x22" "char_of r \<noteq> CHR 0x5C"
    using assms(2,3) by (auto simp: char_of_eq_iff take_bit_eq_mod)
  with True show ?thesis by (simp add: encodeRune_ascii UnquoteChar_def)
next
  case False
  obtain c s where e: "encodeRune r = c # s" by (cases "encodeRune r") auto
  with False assms encodeRune_head [of r] have "128 \<le> byte_of c" by simp
  with encodeRune_decode [OF assms(1), of t] False e show ?thesis by (auto simp: UnquoteChar_def)
qed

lemma UnquoteChar_u: "ValidRune r \<Longrightarrow> r < 65536 \<Longrightarrow> UnquoteChar (CHR 0x5C # CHR ''u'' # to_hex 4 r @ t) = Some (r, True, t)"
  by (simp add: unquote_simps)

lemma UnquoteChar_U: "ValidRune r \<Longrightarrow> UnquoteChar (CHR 0x5C # CHR ''U'' # to_hex 8 r @ t) = Some (r, True, t)"
  by (subgoal_tac "r < 16 ^ 8") (auto simp: unquote_simps ValidRune_def)

lemma UnquoteChar_simple: "simpleEscape c = Some r \<Longrightarrow> UnquoteChar (CHR 0x5C # c # t) = Some (r, False, t)"
  by (simp add: UnquoteChar_def unquoteEscape_def)

lemma UnquoteChar_escape:
  assumes "ValidRune r"
  shows "\<exists>m. UnquoteChar (escapeRune U r @ t) = Some (r, m, t) \<and> (r < 128 \<or> m)"
proof -
  consider (print) "r \<noteq> 34" "r \<noteq> 92" "IsPrint U r"
    | (simple) c where "simpleEscape c = Some r" "escapeRune U r = [CHR 0x5C, c]" "r < 128"
    | (x) "escapeRune U r = CHR 0x5C # CHR ''x'' # to_hex 2 r" "r < 128"
    | (u) "escapeRune U r = CHR 0x5C # CHR ''u'' # to_hex 4 r" "r < 65536"
    | (U) "escapeRune U r = CHR 0x5C # CHR ''U'' # to_hex 8 r"
  proof -
    consider "r \<in> {34, 92, 7, 8, 9, 10, 11, 12, 13}" | "r \<noteq> 34" "r \<noteq> 92" "IsPrint U r"
      | "r \<notin> {34, 92, 7, 8, 9, 10, 11, 12, 13}" "\<not> IsPrint U r"
      by blast
    then show thesis
    proof cases
      case 1
      then show thesis
        by (elim insertE emptyE)
          (rule simple [of "hd (tl (escapeRune U r))"]; simp add: escapeRune_def simpleEscape_def IsPrint_def char_of_eq_iff take_bit_eq_mod)+
    next
      case 3
      show thesis
      proof (cases "r < 32 \<or> r = 127")
        case True
        with 3 show thesis by (intro x) (auto simp: escapeRune_def)
      next
        case False
        with 3 assms show thesis
          by (cases "r < 65536") (auto intro: u U simp: escapeRune_def Let_def)
      qed
    qed (use print in auto)
  qed
  then show ?thesis
  proof cases
    case print
    then show ?thesis using UnquoteChar_plain [OF assms, of t] by (auto simp: escapeRune_def)
  qed (use assms in \<open>auto simp: UnquoteChar_simple UnquoteChar_byte UnquoteChar_u UnquoteChar_U\<close>)
qed

lemma escapeRune_head:
  assumes "ValidRune r"
  shows "escapeRune U r \<noteq> [] \<and> hd (escapeRune U r) \<noteq> CHR 0x22 \<and> hd (escapeRune U r) \<noteq> CHR 0x0A"
proof -
  have "hd (encodeRune r) \<noteq> CHR 0x22 \<and> hd (encodeRune r) \<noteq> CHR 0x0A" if "r \<noteq> 34" "r \<noteq> 10"
  proof (cases "r < 128")
    case True with that show ?thesis by (auto simp: encodeRune_ascii char_of_eq_iff take_bit_eq_mod)
  next
    case False with encodeRune_head [OF _ assms] show ?thesis by auto
  qed
  then show ?thesis by (auto simp: escapeRune_def Let_def IsPrint_def)
qed

lemma unquoteBody_step:
  assumes "UnquoteChar s = Some (r, m, rest)" "s \<noteq> []" "hd s \<noteq> CHR 0x22" "hd s \<noteq> CHR 0x0A"
  shows "unquoteBody s = map_option (\<lambda>out. (if r < 128 \<or> \<not> m then [char_of r] else encodeRune r) @ out) (unquoteBody rest)"
  using assms by (subst unquoteBody.simps) (auto split: list.split)

lemma unquoteBody_quoteBody: "unquoteBody (quoteBody U s @ [CHR 0x22]) = Some s"
proof (induction s rule: measure_induct_rule [where f = length])
  case (less s)
  show ?case
  proof (cases "s = []")
    case True
    then show ?thesis by (simp add: quoteBody.simps unquoteBody.simps)
  next
    case False
    obtain r w where d: "decodeRune s = (r, w)" by fastforce
    with decodeRune_size [OF False] have w: "1 \<le> w" "w \<le> length s" by auto
    then have IH: "unquoteBody (quoteBody U (drop w s) @ [CHR 0x22]) = Some (drop w s)"
      using False by (intro less) simp
    show ?thesis
    proof (cases "r = RuneError \<and> w = 1")
      case True
      then have q: "quoteBody U s @ [CHR 0x22] =
          CHR 0x5C # CHR ''x'' # to_hex 2 (byte_of (hd s)) @ (quoteBody U (drop w s) @ [CHR 0x22])"
        using False d by (subst quoteBody.simps) simp
      show ?thesis
        unfolding q by (subst unquoteBody_step [OF UnquoteChar_byte]) (use IH True False in \<open>auto simp: neq_Nil_conv\<close>)
    next
      case no_err: False
      then have q: "quoteBody U s @ [CHR 0x22] = escapeRune U r @ (quoteBody U (drop w s) @ [CHR 0x22])"
        using False d by (subst quoteBody.simps) auto
      have v: "ValidRune r" "take w s = encodeRune r" using decodeRune_encode [OF d False no_err] by auto
      obtain m where m: "UnquoteChar (quoteBody U s @ [CHR 0x22]) = Some (r, m, quoteBody U (drop w s) @ [CHR 0x22])"
        "r < 128 \<or> m" using UnquoteChar_escape [OF v(1)] unfolding q by blast
      have "(if r < 128 \<or> \<not> m then [char_of r] else encodeRune r) = take w s"
        using m(2) v(2) by (auto simp: encodeRune_ascii)
      then show ?thesis
        using escapeRune_head [OF v(1), of U] unquoteBody_step [OF m(1)] unfolding q by (simp add: IH)
    qed
  qed
qed

lemma Unquote_Quote: "Unquote (Quote U s) = Some s"
  by (simp add: Unquote_def Quote_def unquoteBody_quoteBody)

end
