(* ===== verification/GoNumbers.thy ===== *)
theory GoNumbers
  imports GoUtf8 Complex_Main
begin

text \<open>
  Numbers of Go's \<^verbatim>\<open>strconv\<close> and \<^verbatim>\<open>fmt\<close> as the LogQL parser and printer use
  them: \<open>Atoi\<close>, \<open>ParseFloat\<close> on the text of a number token, and the verb \<^verbatim>\<open>%g\<close>.
  A finite \<^verbatim>\<open>float64\<close> is a sign and a non-negative rational; \<open>roundF64\<close> is the
  rounding to 53 significant bits (to nearest, ties to even, with the subnormal numbers).
\<close>

datatype float64 = F64 (f64_neg: bool) (f64_mag: rat)

definition f64_uminus :: "float64 \<Rightarrow> float64" where
  "f64_uminus x = F64 (\<not> f64_neg x) (f64_mag x)"

subsection \<open>Rounding\<close>

function digit_count :: "int \<Rightarrow> int \<Rightarrow> int" where
  "digit_count b n = (if n \<le> 0 \<or> b \<le> 1 then 0 else 1 + digit_count b (n div b))"
  by pat_completeness auto
termination
proof (relation "measure (\<lambda>(b, n). nat n)", goal_cases)
  case (2 b n)
  then have "n div b < n" by (simp add: int_div_less_self)
  with 2 show ?case by (simp add: nat_less_eq_zless)
qed simp

declare digit_count.simps [simp del]

definition pow_rat :: "int \<Rightarrow> int \<Rightarrow> rat" where
  "pow_rat b e = (if 0 \<le> e then of_int (b ^ nat e) else 1 / of_int (b ^ nat (- e)))"

text \<open>The integer part of the logarithm of a positive rational: \<open>b ^ e \<le> x < b ^ (e + 1)\<close>.\<close>

definition ilog :: "int \<Rightarrow> rat \<Rightarrow> int" where
  "ilog b x =
     (let (p, q) = quotient_of x; e = digit_count b p - digit_count b q
      in if pow_rat b e \<le> x then e else e - 1)"

definition roundHalfEven :: "rat \<Rightarrow> int" where
  "roundHalfEven x =
     (let f = \<lfloor>x\<rfloor>; r = x - of_int f
      in if r < 1 / 2 then f else if 1 / 2 < r then f + 1 else if even f then f else f + 1)"

definition roundF64 :: "rat \<Rightarrow> rat" where
  "roundF64 x =
     (if x = 0 then 0
      else let u = pow_rat 2 (max (ilog 2 x - 52) (- 1074)) in of_int (roundHalfEven (x / u)) * u)"

subsection \<open>Parsing\<close>

datatype numError = ErrSyntax | ErrRange

definition numError_String :: "unicode \<Rightarrow> string \<Rightarrow> string \<Rightarrow> numError \<Rightarrow> string" where
  "numError_String U fn num e =
     ''strconv.'' @ fn @ '': parsing '' @ Quote U num @ '': '' @
     (case e of ErrSyntax \<Rightarrow> ''invalid syntax'' | ErrRange \<Rightarrow> ''value out of range'')"

definition is_digit :: "char \<Rightarrow> bool" where
  "is_digit c \<longleftrightarrow> 48 \<le> byte_of c \<and> byte_of c \<le> 57"

text \<open>\<^verbatim>\<open>strconv.Atoi\<close>: an optional sign and decimal digits, in the range of 64 bits.\<close>

definition Atoi :: "string \<Rightarrow> numError + int" where
  "Atoi s =
     (let body = (if s \<noteq> [] \<and> (hd s = CHR ''+'' \<or> hd s = CHR ''-'') then tl s else s)
      in if body = [] \<or> \<not> list_all is_digit body then Inl ErrSyntax
         else let v = (if hd s = CHR ''-'' then - digits_val body else digits_val body)
              in if - (2 ^ 63) \<le> v \<and> v < 2 ^ 63 then Inr v else Inl ErrRange)"

text \<open>
  \<^verbatim>\<open>strconv.ParseFloat\<close> on the texts that a number token can hold: digits and periods
  only, so no sign, exponent, underscore, hexadecimal form or named value.
\<close>

definition ParseFloat :: "string \<Rightarrow> numError + float64" where
  "ParseFloat s =
     (let (whole, rest) = Cut s (CHR ''.''); frac = (case rest of None \<Rightarrow> [] | Some f \<Rightarrow> f)
      in if whole @ frac = [] \<or> \<not> list_all is_digit (whole @ frac) then Inl ErrSyntax
         else let v = roundF64 (of_int (digits_val (whole @ frac)) / of_int (10 ^ length frac))
              in if 2 ^ 1024 \<le> v then Inl ErrRange else Inr (F64 False v))"

definition float64_of_int :: "int \<Rightarrow> float64" where
  "float64_of_int k = F64 (k < 0) (roundF64 (of_int \<bar>k\<bar>))"

subsection \<open>Printing\<close>

text \<open>
  The shortest decimal that rounds to \<open>x\<close>: with \<open>n\<close> digits, the two neighbours of \<open>x\<close>
  are the candidates; the nearer one that rounds back to \<open>x\<close> is taken. Seventeen digits always
  suffice. The result is an integer and the power of ten of its last digit.
\<close>

definition shortest_at :: "rat \<Rightarrow> nat \<Rightarrow> (int \<times> int) option" where
  "shortest_at x n =
     (let t = ilog 10 x - int n + 1; u = pow_rat 10 t; q = x / u; f = \<lfloor>q\<rfloor>; c = roundHalfEven q;
          d = (if c = f then f + 1 else f)
      in if roundF64 (of_int c * u) = x then Some (c, t)
         else if roundF64 (of_int d * u) = x then Some (d, t) else None)"

definition shortest :: "rat \<Rightarrow> int \<times> int" where
  "shortest x =
     (case List.find (\<lambda>n. shortest_at x n \<noteq> None) [1..<18] of
        Some n \<Rightarrow> the (shortest_at x n) | None \<Rightarrow> (0, 0))"

function int_digits :: "int \<Rightarrow> string" where
  "int_digits n = (if n < 10 then [char_of (48 + n)] else int_digits (n div 10) @ [char_of (48 + n mod 10)])"
  by pat_completeness auto
termination
  by (relation "measure nat") auto

declare int_digits.simps [simp del]

definition strip_zeros :: "string \<Rightarrow> string" where
  "strip_zeros s = rev (dropWhile (\<lambda>c. c = CHR ''0'') (rev s))"

text \<open>The decimal digits and the position of the decimal point (\<open>digs.d\<close> and \<open>digs.dp\<close> of
  \<^verbatim>\<open>strconv\<close>).\<close>

definition decimal :: "rat \<Rightarrow> string \<times> int" where
  "decimal x =
     (if x = 0 then ([], 0)
      else let (c, t) = shortest x; ds = int_digits c in (strip_zeros ds, int (length ds) + t))"

definition fmtE :: "string \<Rightarrow> int \<Rightarrow> string" where
  "fmtE ds e =
     (let m = (case ds of [] \<Rightarrow> ''0'' | d # r \<Rightarrow> if r = [] then [d] else d # CHR ''.'' # r); a = \<bar>e\<bar>
      in m @ ''e'' @ (if e < 0 then ''-'' else ''+'') @ (if a < 10 then ''0'' else []) @ int_digits a)"

definition fmtF :: "string \<Rightarrow> int \<Rightarrow> string" where
  "fmtF ds dp =
     (let n = length ds
      in (if 0 < dp then take (nat dp) ds @ replicate (nat dp - n) CHR ''0'' else ''0'') @
         (if dp < int n then CHR ''.'' # replicate (nat (- dp)) CHR ''0'' @ drop (nat dp) ds else []))"

definition formatG :: "float64 \<Rightarrow> string" where
  "formatG x =
     (let (ds, dp) = decimal (f64_mag x); e = dp - 1
      in (if f64_neg x then ''-'' else []) @
         (if e < - 4 \<or> 6 \<le> e then fmtE ds e else fmtF ds dp))"

end
