(* ===== verification/LogqlAst.thy ===== *)
theory LogqlAst
  imports GoNumbers
begin

text \<open>
  The LogQL syntax tree and its printer, \<^verbatim>\<open>internal/logql/ast.go\<close>: an enumeration is a
  datatype, a struct a record, and the two interfaces \<^verbatim>\<open>Stage\<close> and \<^verbatim>\<open>Expr\<close> are
  datatypes with one constructor per implementation. A nil slice and an empty one are both the
  empty list; a nil pointer is \<open>None\<close>.
\<close>

subsection \<open>Selectors\<close>

datatype MatchOp = MatchEq | MatchNeq | MatchRe | MatchNotRe

record LabelMatcher =
  lm_Name :: string
  lm_Op :: MatchOp
  lm_Value :: string

fun MatchOp_String :: "MatchOp \<Rightarrow> string" where
  "MatchOp_String MatchEq = ''=''"
| "MatchOp_String MatchNeq = ''!=''"
| "MatchOp_String MatchRe = ''=~''"
| "MatchOp_String MatchNotRe = ''!~''"

definition LabelMatcher_String :: "unicode \<Rightarrow> LabelMatcher \<Rightarrow> string" where
  "LabelMatcher_String U m = lm_Name m @ MatchOp_String (lm_Op m) @ Quote U (lm_Value m)"

record StreamSelector =
  Matchers :: "LabelMatcher list"

definition StreamSelector_String :: "unicode \<Rightarrow> StreamSelector \<Rightarrow> string" where
  "StreamSelector_String U s = ''{'' @ Join (map (LabelMatcher_String U) (Matchers s)) '', '' @ ''}''"

subsection \<open>Pipeline stages\<close>

datatype LineFilterOp =
  LineFilterContains | LineFilterExcludes | LineFilterMatchRe | LineFilterExcludeRe
| LineFilterContainsPat | LineFilterExcludePat

fun LineFilterOp_String :: "LineFilterOp \<Rightarrow> string" where
  "LineFilterOp_String LineFilterContains = ''|=''"
| "LineFilterOp_String LineFilterExcludes = ''!=''"
| "LineFilterOp_String LineFilterMatchRe = ''|~''"
| "LineFilterOp_String LineFilterExcludeRe = ''!~''"
| "LineFilterOp_String LineFilterContainsPat = ''|>''"
| "LineFilterOp_String LineFilterExcludePat = ''!>''"

record LineFilter =
  lf_Op :: LineFilterOp
  lf_Value :: string
  lf_IP :: bool
  lf_Or :: "string list"

definition LineFilter_Values :: "LineFilter \<Rightarrow> string list" where
  "LineFilter_Values s = (if lf_Or s = [] then [lf_Value s] else lf_Value s # lf_Or s)"

definition LineFilter_String :: "unicode \<Rightarrow> LineFilter \<Rightarrow> string" where
  "LineFilter_String U s =
     (let oper = LineFilterOp_String (lf_Op s)
      in if lf_IP s then oper @ '' ip('' @ Quote U (lf_Value s) @ '')''
         else foldl (\<lambda>out alt. out @ '' or '' @ Quote U alt) (oper @ '' '' @ Quote U (lf_Value s)) (lf_Or s))"

datatype ParserType = ParserJSON | ParserLogfmt | ParserRegexp | ParserPattern | ParserUnpack

record ExtractionField =
  ef_Name :: string
  ef_Expression :: string

definition quoteParserArgument :: "unicode \<Rightarrow> string \<Rightarrow> string" where
  "quoteParserArgument U v = (if CanBackquote v then ''`'' @ v @ ''`'' else Quote U v)"

fun ParserStage_String :: "unicode \<Rightarrow> ParserType \<Rightarrow> string \<Rightarrow> string" where
  "ParserStage_String U ParserJSON param = TrimSpace (''| json '' @ param)"
| "ParserStage_String U ParserLogfmt param = TrimSpace (''| logfmt '' @ param)"
| "ParserStage_String U ParserRegexp param = ''| regexp '' @ quoteParserArgument U param"
| "ParserStage_String U ParserPattern param = ''| pattern '' @ quoteParserArgument U param"
| "ParserStage_String U ParserUnpack param = ''| unpack''"

record DropMatcher =
  dm_Name :: string
  dm_Op :: string
  dm_Value :: string

definition DropMatcher_String :: "unicode \<Rightarrow> DropMatcher \<Rightarrow> string" where
  "DropMatcher_String U m = dm_Name m @ dm_Op m @ Quote U (dm_Value m)"

definition DropStage_String :: "unicode \<Rightarrow> string list \<Rightarrow> DropMatcher list \<Rightarrow> string" where
  "DropStage_String U labels matchers =
     ''| drop '' @ Join (labels @ map (DropMatcher_String U) matchers) '', ''"

definition KeepStage_String :: "unicode \<Rightarrow> string list \<Rightarrow> DropMatcher list \<Rightarrow> string" where
  "KeepStage_String U labels matchers =
     ''| keep '' @ Join (labels @ map (DropMatcher_String U) matchers) '', ''"

definition UnwrapStage_String :: "string \<Rightarrow> string \<Rightarrow> string" where
  "UnwrapStage_String label converter =
     (if converter = [] then ''| unwrap '' @ label else ''| unwrap '' @ converter @ ''('' @ label @ '')'')"

record LabelFormat =
  fm_Name :: string
  fm_Value :: string
  fm_Rename :: bool

datatype Stage =
  LineFilterStage LineFilter
| ParserStage ParserType string "ExtractionField list"
| LabelFilterStage string
| DropStage "string list" "DropMatcher list"
| KeepStage "string list" "DropMatcher list"
| DecolorizeStage
| UnwrapStage string string
| LineFormatStage string
| LabelFormatStage string "LabelFormat list"

fun Stage_String :: "unicode \<Rightarrow> Stage \<Rightarrow> string" where
  "Stage_String U (LineFilterStage s) = LineFilter_String U s"
| "Stage_String U (ParserStage typ param flds) = ParserStage_String U typ param"
| "Stage_String U (LabelFilterStage raw) = ''| '' @ raw"
| "Stage_String U (DropStage labels matchers) = DropStage_String U labels matchers"
| "Stage_String U (KeepStage labels matchers) = KeepStage_String U labels matchers"
| "Stage_String U DecolorizeStage = ''| decolorize''"
| "Stage_String U (UnwrapStage label converter) = UnwrapStage_String label converter"
| "Stage_String U (LineFormatStage template) = ''| line_format '' @ Quote U template"
| "Stage_String U (LabelFormatStage raw formats) = ''| label_format '' @ raw"

record LogQuery =
  Selector :: StreamSelector
  Pipeline :: "Stage list"

definition LogQuery_String :: "unicode \<Rightarrow> LogQuery \<Rightarrow> string" where
  "LogQuery_String U q =
     StreamSelector_String U (Selector q) @ concat (map (\<lambda>s. '' '' @ Stage_String U s) (Pipeline q))"

subsection \<open>Metric expressions\<close>

record Grouping =
  gr_Without :: bool
  gr_Labels :: "string list"

definition Grouping_String :: "Grouping \<Rightarrow> string" where
  "Grouping_String g = (if gr_Without g then ''without'' else ''by'') @ '' ('' @ Join (gr_Labels g) '', '' @ '')''"

datatype RangeOp =
  RangeRate | RangeCountOverTime | RangeBytesRate | RangeBytesOverTime | RangeAvgOverTime
| RangeSumOverTime | RangeMinOverTime | RangeMaxOverTime | RangeStdvarOverTime | RangeStddevOverTime
| RangeQuantileOverTime | RangeFirstOverTime | RangeLastOverTime | RangeAbsentOverTime | RangeRateCounter

fun RangeOp_String :: "RangeOp \<Rightarrow> string" where
  "RangeOp_String RangeRate = ''rate''"
| "RangeOp_String RangeCountOverTime = ''count_over_time''"
| "RangeOp_String RangeBytesRate = ''bytes_rate''"
| "RangeOp_String RangeBytesOverTime = ''bytes_over_time''"
| "RangeOp_String RangeAvgOverTime = ''avg_over_time''"
| "RangeOp_String RangeSumOverTime = ''sum_over_time''"
| "RangeOp_String RangeMinOverTime = ''min_over_time''"
| "RangeOp_String RangeMaxOverTime = ''max_over_time''"
| "RangeOp_String RangeStdvarOverTime = ''stdvar_over_time''"
| "RangeOp_String RangeStddevOverTime = ''stddev_over_time''"
| "RangeOp_String RangeQuantileOverTime = ''quantile_over_time''"
| "RangeOp_String RangeFirstOverTime = ''first_over_time''"
| "RangeOp_String RangeLastOverTime = ''last_over_time''"
| "RangeOp_String RangeAbsentOverTime = ''absent_over_time''"
| "RangeOp_String RangeRateCounter = ''rate_counter''"

datatype VectorOp =
  VectorSum | VectorAvg | VectorMin | VectorMax | VectorCount | VectorStddev | VectorStdvar
| VectorBottomK | VectorTopK | VectorSort | VectorSortDesc

fun VectorOp_String :: "VectorOp \<Rightarrow> string" where
  "VectorOp_String VectorSum = ''sum''"
| "VectorOp_String VectorAvg = ''avg''"
| "VectorOp_String VectorMin = ''min''"
| "VectorOp_String VectorMax = ''max''"
| "VectorOp_String VectorCount = ''count''"
| "VectorOp_String VectorStddev = ''stddev''"
| "VectorOp_String VectorStdvar = ''stdvar''"
| "VectorOp_String VectorBottomK = ''bottomk''"
| "VectorOp_String VectorTopK = ''topk''"
| "VectorOp_String VectorSort = ''sort''"
| "VectorOp_String VectorSortDesc = ''sort_desc''"

record VectorMatching =
  vm_Card :: string
  vm_MatchLabels :: "string list"
  vm_GroupSide :: string
  vm_Include :: "string list"

definition VectorMatching_String :: "VectorMatching option \<Rightarrow> string" where
  "VectorMatching_String vmo =
     (case vmo of
        None \<Rightarrow> []
      | Some vm \<Rightarrow>
          let b = (if vm_Card vm \<noteq> [] then vm_Card vm @ ''('' @ Join (vm_MatchLabels vm) '', '' @ '')'' else [])
          in if vm_GroupSide vm \<noteq> []
             then b @ (if b \<noteq> [] then '' '' else []) @ vm_GroupSide vm @ ''('' @ Join (vm_Include vm) '', '' @ '')''
             else b)"

text \<open>
  \<^verbatim>\<open>RangeAggregation\<close>: operator, argument, range, offset, parameter (\<open>None\<close> when
  \<^verbatim>\<open>HasParam\<close> is false) and grouping. \<^verbatim>\<open>VectorAggregation\<close>: operator, grouping,
  parameter and argument. \<^verbatim>\<open>BinOpExpr\<close>: the operands, the operator, \<^verbatim>\<open>ReturnBool\<close>
  and the vector matching.
\<close>

datatype Expr =
  ELogQuery LogQuery
| ERangeAgg RangeOp Expr string string "float64 option" "Grouping option"
| EVectorAgg VectorOp "Grouping option" "float64 option" Expr
| EBinOp Expr Expr string bool "VectorMatching option"
| ELiteral float64
| EOpaque string

fun is_BinOp :: "Expr \<Rightarrow> bool" where
  "is_BinOp (EBinOp l r oper b vm) = True"
| "is_BinOp _ = False"

definition RangeAggregation_String ::
  "RangeOp \<Rightarrow> string \<Rightarrow> string \<Rightarrow> string \<Rightarrow> float64 option \<Rightarrow> Grouping option \<Rightarrow> string" where
  "RangeAggregation_String oper inner rng offset param grouping =
     (let rangeStr = ''['' @ rng @ '']'' @ (if offset \<noteq> [] then '' offset '' @ offset else []);
          arg = (case param of None \<Rightarrow> [] | Some phi \<Rightarrow> formatG phi @ '','') @ inner @ rangeStr
      in RangeOp_String oper @ ''('' @ arg @ '')'' @
         (case grouping of None \<Rightarrow> [] | Some g \<Rightarrow> '' '' @ Grouping_String g))"

definition VectorAggregation_String ::
  "VectorOp \<Rightarrow> Grouping option \<Rightarrow> float64 option \<Rightarrow> string \<Rightarrow> string" where
  "VectorAggregation_String oper grouping param inner =
     VectorOp_String oper @ (case grouping of None \<Rightarrow> [] | Some g \<Rightarrow> '' '' @ Grouping_String g) @ '' ('' @
     (case param of None \<Rightarrow> [] | Some k \<Rightarrow> formatG k @ '','') @ inner @ '')''"

definition BinOpExpr_String ::
  "bool \<Rightarrow> string \<Rightarrow> bool \<Rightarrow> string \<Rightarrow> string \<Rightarrow> bool \<Rightarrow> VectorMatching option \<Rightarrow> string" where
  "BinOpExpr_String leftIsBinOp left rightIsBinOp right oper returnBool vmo =
     (let vm = VectorMatching_String vmo
      in (if leftIsBinOp then ''('' @ left @ '')'' else left) @ '' '' @ oper @
         (if returnBool then '' bool'' else []) @ (if vm \<noteq> [] then '' '' @ vm else []) @ '' '' @
         (if rightIsBinOp then ''('' @ right @ '')'' else right))"

fun Expr_String :: "unicode \<Rightarrow> Expr \<Rightarrow> string" where
  "Expr_String U (ELogQuery q) = LogQuery_String U q"
| "Expr_String U (ERangeAgg oper inner rng offset param grouping) =
     RangeAggregation_String oper (Expr_String U inner) rng offset param grouping"
| "Expr_String U (EVectorAgg oper grouping param inner) =
     VectorAggregation_String oper grouping param (Expr_String U inner)"
| "Expr_String U (EBinOp l r oper returnBool vm) =
     BinOpExpr_String (is_BinOp l) (Expr_String U l) (is_BinOp r) (Expr_String U r) oper returnBool vm"
| "Expr_String U (ELiteral v) = formatG v"
| "Expr_String U (EOpaque raw) = raw"

subsection \<open>Incomplete unwrap stages\<close>

fun is_stub :: "Stage \<Rightarrow> bool" where
  "is_stub (UnwrapStage label converter) = (label = [])"
| "is_stub _ = False"

definition StripIncompleteUnwrapStubs :: "LogQuery \<Rightarrow> LogQuery" where
  "StripIncompleteUnwrapStubs lq =
     (if list_ex is_stub (Pipeline lq)
      then \<lparr>Selector = Selector lq, Pipeline = filter (\<lambda>s. \<not> is_stub s) (Pipeline lq)\<rparr>
      else lq)"

end
