(* ===== verification/LogqlScanner.thy ===== *)
theory LogqlScanner
  imports GoUtf8
begin

text \<open>
  The LogQL scanner, \<^verbatim>\<open>internal/logql/scanner.go\<close>: the token types, the cursor
  (source, position, brace depth) and one definition per method. The parameter \<open>U\<close> is the
  part of Go's Unicode tables above ASCII.

  The lemmas show that \<open>scan_next\<close> never moves backwards or past the end, that it consumes at
  least one byte for every token but the end of input (so a loop over tokens ends), and which
  token each printed lexeme is read back as.
\<close>

subsection \<open>Tokens\<close>

datatype TokType =
  TokEOF | TokError
| TokLBrace | TokRBrace | TokLParen | TokRParen | TokLBracket | TokRBracket | TokComma | TokPipe | TokAt
| TokEq | TokNeq | TokReMatch | TokReNotMatch
| TokPipeEq | TokBangEq | TokPipeTilde | TokBangTilde | TokPipeGt | TokBangGt
| TokIdent | TokString | TokRawString | TokDuration | TokNumber
| TokPlus | TokMinus | TokStar | TokSlash | TokPercent | TokCaret
| TokLt | TokGt | TokLtEq | TokGtEq | TokEqEq
| TokBy | TokWithout | TokOn | TokIgnoring | TokGroupLeft | TokGroupRight | TokAnd | TokOr | TokUnless

fun TokType_String :: "TokType \<Rightarrow> string" where
  "TokType_String TokEOF = ''EOF''"
| "TokType_String TokError = ''ERROR''"
| "TokType_String TokLBrace = ''{''"
| "TokType_String TokRBrace = ''}''"
| "TokType_String TokLParen = ''(''"
| "TokType_String TokRParen = '')''"
| "TokType_String TokLBracket = ''[''"
| "TokType_String TokRBracket = '']''"
| "TokType_String TokComma = '',''"
| "TokType_String TokPipe = ''|''"
| "TokType_String TokAt = ''@''"
| "TokType_String TokEq = ''=''"
| "TokType_String TokNeq = ''!=''"
| "TokType_String TokReMatch = ''=~''"
| "TokType_String TokReNotMatch = ''!~''"
| "TokType_String TokPipeEq = ''|=''"
| "TokType_String TokBangEq = ''!=''"
| "TokType_String TokPipeTilde = ''|~''"
| "TokType_String TokBangTilde = ''!~''"
| "TokType_String TokPipeGt = ''|>''"
| "TokType_String TokBangGt = ''!>''"
| "TokType_String TokIdent = ''IDENT''"
| "TokType_String TokString = ''STRING''"
| "TokType_String TokRawString = ''RAWSTRING''"
| "TokType_String TokDuration = ''DURATION''"
| "TokType_String TokNumber = ''NUMBER''"
| "TokType_String TokPlus = ''+''"
| "TokType_String TokMinus = ''-''"
| "TokType_String TokStar = ''*''"
| "TokType_String TokSlash = ''/''"
| "TokType_String TokPercent = ''%''"
| "TokType_String TokCaret = ''^''"
| "TokType_String TokLt = ''<''"
| "TokType_String TokGt = ''>''"
| "TokType_String TokLtEq = ''<=''"
| "TokType_String TokGtEq = ''>=''"
| "TokType_String TokEqEq = ''==''"
| "TokType_String TokBy = ''by''"
| "TokType_String TokWithout = ''without''"
| "TokType_String TokOn = ''on''"
| "TokType_String TokIgnoring = ''ignoring''"
| "TokType_String TokGroupLeft = ''group_left''"
| "TokType_String TokGroupRight = ''group_right''"
| "TokType_String TokAnd = ''and''"
| "TokType_String TokOr = ''or''"
| "TokType_String TokUnless = ''unless''"

record Token =
  Typ :: TokType
  Val :: string

abbreviation Tok :: "TokType \<Rightarrow> string \<Rightarrow> Token" where
  "Tok t v \<equiv> \<lparr>Typ = t, Val = v\<rparr>"

record scanner =
  src :: string
  pos :: nat
  braceDepth :: nat

subsection \<open>The cursor\<close>

definition newScanner :: "string \<Rightarrow> scanner" where
  "newScanner s = \<lparr>src = s, pos = 0, braceDepth = 0\<rparr>"

definition peek :: "scanner \<Rightarrow> rune \<times> nat" where
  "peek s = (if length (src s) \<le> pos s then (0, 0) else decodeRune (drop (pos s) (src s)))"

definition read :: "scanner \<Rightarrow> rune \<times> scanner" where
  "read s = (let (r, size) = peek s in (r, s\<lparr>pos := pos s + size\<rparr>))"

lemma peek_size:
  "pos s + snd (peek s) \<le> max (pos s) (length (src s))" "pos s < length (src s) \<Longrightarrow> 0 < snd (peek s)"
  using decodeRune_size [of "drop (pos s) (src s)"] by (cases "pos s < length (src s)"; simp add: peek_def; linarith)+

text \<open>
  The loop \<^verbatim>\<open>for { r, size := s.peek(); if size == 0 || !keep(r) { break }; s.pos += size }\<close>,
  which the methods below use with different conditions.
\<close>

function scanWhile :: "(rune \<Rightarrow> bool) \<Rightarrow> scanner \<Rightarrow> scanner" where
  "scanWhile keep s =
     (let (r, size) = peek s
      in if size = 0 \<or> \<not> keep r then s else scanWhile keep (s\<lparr>pos := pos s + size\<rparr>))"
  by pat_completeness auto
termination
proof (relation "measure (\<lambda>(keep, s). length (src s) - pos s)", goal_cases)
  case (2 keep s x r size)
  then have "pos s < length (src s)" by (auto simp: peek_def split: if_splits)
  with 2 show ?case by auto
qed simp

declare scanWhile.simps [simp del]

definition skipWS :: "scanner \<Rightarrow> scanner" where
  "skipWS s = scanWhile IsSpace s"

text \<open>The text between two positions of the source, \<^verbatim>\<open>s.src[start:s.pos]\<close>.\<close>

definition slice :: "string \<Rightarrow> nat \<Rightarrow> nat \<Rightarrow> string" where
  "slice s i j = take (j - i) (drop i s)"

subsection \<open>Literals\<close>

function scanQuotedLoop :: "nat \<Rightarrow> scanner \<Rightarrow> Token \<times> scanner" where
  "scanQuotedLoop start s =
     (if pos s < length (src s) then
        let (r, s1) = read s
        in if r = byte_of CHR 0x5C then scanQuotedLoop start (snd (read s1))
           else if r = byte_of CHR 0x22 then
             let literal = slice (src s1) start (pos s1)
             in (case Unquote literal of
                   None \<Rightarrow> (Tok TokError ''invalid quoted string'', s1)
                 | Some v \<Rightarrow> if ValidString literal then (Tok TokString v, s1)
                            else (Tok TokError ''invalid quoted string'', s1))
           else scanQuotedLoop start s1
      else (Tok TokError ''unterminated quoted string'', s))"
  by pat_completeness auto
termination
  by (relation "measure (\<lambda>(start, s). length (src s) - pos s)") (auto simp: read_def split_beta, (frule peek_size(2), simp)+)

declare scanQuotedLoop.simps [simp del]

definition scanQuotedString :: "scanner \<Rightarrow> Token \<times> scanner" where
  "scanQuotedString s = scanQuotedLoop (pos s) (snd (read s))"

definition scanRawString :: "scanner \<Rightarrow> Token \<times> scanner" where
  "scanRawString s =
     (let s1 = snd (read s); s2 = scanWhile (\<lambda>r. r \<noteq> byte_of CHR 0x60) s1
      in (Tok TokRawString (slice (src s2) (pos s1) (pos s2)), snd (read s2)))"

definition keywordTypes :: "(string \<times> TokType) list" where
  "keywordTypes =
     [(''by'', TokBy), (''without'', TokWithout), (''on'', TokOn), (''ignoring'', TokIgnoring),
      (''group_left'', TokGroupLeft), (''group_right'', TokGroupRight),
      (''and'', TokAnd), (''or'', TokOr), (''unless'', TokUnless)]"

definition isIdentRune :: "unicode \<Rightarrow> rune \<Rightarrow> bool" where
  "isIdentRune U r \<longleftrightarrow> IsLetter U r \<or> IsDigit U r \<or> r = byte_of CHR ''_'' \<or> r = byte_of CHR ''.''"

definition scanIdent :: "unicode \<Rightarrow> scanner \<Rightarrow> Token \<times> scanner" where
  "scanIdent U s =
     (let s1 = scanWhile (isIdentRune U) s; val = slice (src s1) (pos s) (pos s1)
      in (Tok (case map_of keywordTypes val of Some t \<Rightarrow> t | None \<Rightarrow> TokIdent) val, s1))"

definition isNumberRune :: "unicode \<Rightarrow> rune \<Rightarrow> bool" where
  "isNumberRune U r \<longleftrightarrow> IsDigit U r \<or> r = byte_of CHR ''.''"

text \<open>A scanner that has moved on in the same source, never past its end.\<close>

definition forward :: "scanner \<Rightarrow> scanner \<Rightarrow> bool" where
  "forward s s' \<longleftrightarrow> src s' = src s \<and> pos s \<le> pos s' \<and> pos s' \<le> max (pos s) (length (src s))"

lemma forward_refl [simp]: "forward s s"
  by (simp add: forward_def)

lemma forward_trans: "forward s s1 \<Longrightarrow> forward s1 s2 \<Longrightarrow> forward s s2"
  by (auto simp: forward_def)

lemma forward_read [simp]: "forward s (snd (read s))"
  using peek_size(1) [of s] by (simp add: forward_def read_def split_beta)

lemma scanWhile_forward [simp]: "forward s (scanWhile keep s)"
proof (induction keep s rule: scanWhile.induct)
  case (1 keep s)
  obtain r n where p: "peek s = (r, n)" by fastforce
  have "forward s (s\<lparr>pos := pos s + n\<rparr>)" using peek_size(1) [of s] p by (simp add: forward_def)
  with 1 [OF refl, unfolded p, OF refl] show ?case
    by (subst scanWhile.simps) (auto simp: p intro: forward_trans)
qed

text \<open>
  \<open>numberSegments\<close> is the outer loop of \<open>scanNumberOrDuration\<close>: a value, then a unit, until one
  of the two is empty; it also returns \<open>sawUnit\<close>.
\<close>

function numberSegments :: "unicode \<Rightarrow> bool \<Rightarrow> scanner \<Rightarrow> bool \<times> scanner" where
  "numberSegments U sawUnit s =
     (let s1 = scanWhile (isNumberRune U) s
      in if pos s1 = pos s then (sawUnit, s1)
         else let s2 = scanWhile (IsLetter U) s1
              in if pos s2 = pos s1 then (sawUnit, s2) else numberSegments U True s2)"
  by pat_completeness auto
termination
proof (relation "measure (\<lambda>(U, saw, s). length (src s) - pos s)", goal_cases)
  case (2 U saw s s1 s2)
  have "forward s s1" "forward s1 s2" unfolding 2(1,3) by simp_all
  with 2(2,4) show ?case by (auto simp: forward_def)
qed simp

declare numberSegments.simps [simp del]

definition scanNumberOrDuration :: "unicode \<Rightarrow> scanner \<Rightarrow> Token \<times> scanner" where
  "scanNumberOrDuration U s =
     (let (sawUnit, s1) = numberSegments U False s
      in (Tok (if sawUnit then TokDuration else TokNumber) (slice (src s1) (pos s) (pos s1)), s1))"

subsection \<open>The next token\<close>

text \<open>Consumes one rune and returns a token.\<close>

definition emit :: "TokType \<Rightarrow> string \<Rightarrow> scanner \<Rightarrow> Token \<times> scanner" where
  "emit t v s = (Tok t v, snd (read s))"

definition scanPipe :: "scanner \<Rightarrow> Token \<times> scanner" where
  "scanPipe s =
     (let s1 = snd (read s); r2 = fst (peek s1)
      in if r2 = byte_of CHR ''='' then emit TokPipeEq ''|='' s1
         else if r2 = byte_of CHR ''~'' then emit TokPipeTilde ''|~'' s1
         else if r2 = byte_of CHR ''>'' then emit TokPipeGt ''|>'' s1
         else (Tok TokPipe ''|'', s1))"

definition scanBang :: "scanner \<Rightarrow> Token \<times> scanner" where
  "scanBang s =
     (let s1 = snd (read s); r2 = fst (peek s1)
      in if r2 = byte_of CHR ''='' then emit (if braceDepth s1 > 0 then TokNeq else TokBangEq) ''!='' s1
         else if r2 = byte_of CHR ''~'' then emit (if braceDepth s1 > 0 then TokReNotMatch else TokBangTilde) ''!~'' s1
         else if r2 = byte_of CHR ''>'' then emit TokBangGt ''!>'' s1
         else (Tok TokError ''!'', s1))"

definition scanCompare :: "rune \<Rightarrow> scanner \<Rightarrow> Token \<times> scanner" where
  "scanCompare r s =
     (let s1 = snd (read s); r2 = fst (peek s1)
      in if r = byte_of CHR ''<'' then
           (if r2 = byte_of CHR ''='' then emit TokLtEq ''<='' s1 else (Tok TokLt ''<'', s1))
         else if r = byte_of CHR ''>'' then
           (if r2 = byte_of CHR ''='' then emit TokGtEq ''>='' s1 else (Tok TokGt ''>'', s1))
         else if r2 = byte_of CHR ''~'' then emit TokReMatch ''=~'' s1
         else if r2 = byte_of CHR ''='' then emit TokEqEq ''=='' s1
         else (Tok TokEq ''='', s1))"

definition scan_next :: "unicode \<Rightarrow> scanner \<Rightarrow> Token \<times> scanner" where
  "scan_next U s0 =
     (let s = skipWS s0
      in if length (src s) \<le> pos s then (Tok TokEOF [], s)
         else let r = fst (peek s)
              in if r = byte_of CHR ''{'' then
                   (let s1 = snd (read s) in (Tok TokLBrace ''{'', s1\<lparr>braceDepth := braceDepth s1 + 1\<rparr>))
                 else if r = byte_of CHR ''}'' then
                   (let s1 = snd (read s) in (Tok TokRBrace ''}'', s1\<lparr>braceDepth := braceDepth s1 - 1\<rparr>))
                 else if r = byte_of CHR ''('' then emit TokLParen ''('' s
                 else if r = byte_of CHR '')'' then emit TokRParen '')'' s
                 else if r = byte_of CHR ''['' then emit TokLBracket ''['' s
                 else if r = byte_of CHR '']'' then emit TokRBracket '']'' s
                 else if r = byte_of CHR '','' then emit TokComma '','' s
                 else if r = byte_of CHR ''@'' then emit TokAt ''@'' s
                 else if r = byte_of CHR ''|'' then scanPipe s
                 else if r = byte_of CHR ''!'' then scanBang s
                 else if r = byte_of CHR ''+'' then emit TokPlus ''+'' s
                 else if r = byte_of CHR ''-'' then emit TokMinus ''-'' s
                 else if r = byte_of CHR ''*'' then emit TokStar ''*'' s
                 else if r = byte_of CHR ''/'' then emit TokSlash ''/'' s
                 else if r = byte_of CHR ''%'' then emit TokPercent ''%'' s
                 else if r = byte_of CHR ''^'' then emit TokCaret ''^'' s
                 else if r = byte_of CHR ''<'' \<or> r = byte_of CHR ''>'' \<or> r = byte_of CHR ''='' then scanCompare r s
                 else if r = byte_of CHR 0x22 then scanQuotedString s
                 else if r = byte_of CHR 0x60 then scanRawString s
                 else if IsLetter U r \<or> r = byte_of CHR ''_'' then scanIdent U s
                 else if IsDigit U r then scanNumberOrDuration U s
                 else emit TokError (encodeRune r) s)"

subsection \<open>Progress\<close>

lemma read_progress: "pos s < length (src s) \<Longrightarrow> pos s < pos (snd (read s))"
  using peek_size(2) [of s] by (simp add: read_def split_beta)

lemma forward_src: "forward s s' \<Longrightarrow> src s' = src s"
  by (simp add: forward_def)

lemma forward_pos: "forward s s' \<Longrightarrow> pos s \<le> pos s'"
  by (simp add: forward_def)

lemma scanQuotedLoop_forward: "forward s (snd (scanQuotedLoop start s))"
proof (induction start s rule: scanQuotedLoop.induct)
  case (1 start s)
  obtain r s1 where r: "read s = (r, s1)" by fastforce
  then have s1: "forward s s1" using forward_read [of s] by simp
  show ?case
  proof (cases "pos s < length (src s)")
    case True
    note IH = 1 [OF True r [symmetric] refl]
    show ?thesis
      using IH s1 True forward_trans [OF s1 forward_trans [OF forward_read [of s1]]] forward_trans [OF s1]
      by (subst scanQuotedLoop.simps) (auto simp: r Let_def split: option.split)
  qed (subst scanQuotedLoop.simps, simp)
qed

lemma numberSegments_forward: "forward s (snd (numberSegments U saw s))"
proof (induction U saw s rule: numberSegments.induct)
  case (1 U saw s)
  define s1 where "s1 = scanWhile (isNumberRune U) s"
  define s2 where "s2 = scanWhile (IsLetter U) s1"
  have f: "forward s s1" "forward s1 s2" by (simp_all add: s1_def s2_def)
  with 1 [OF s1_def _ s2_def] show ?case
    by (subst numberSegments.simps) (auto simp: Let_def simp flip: s1_def s2_def intro: forward_trans [OF f(1)] forward_trans [OF f(2)])
qed

lemma numberSegments_progress:
  assumes "pos s < length (src s)" "IsDigit U (fst (peek s))"
  shows "pos s < pos (snd (numberSegments U saw s))"
proof -
  let ?keep = "isNumberRune U"
  obtain r n where p: "peek s = (r, n)" by fastforce
  then have "0 < n" "?keep r" using assms peek_size(2) [of s] by (simp_all add: isNumberRune_def)
  then have "scanWhile ?keep s = scanWhile ?keep (s\<lparr>pos := pos s + n\<rparr>)"
    by (subst scanWhile.simps) (simp add: p)
  then have s1: "pos s < pos (scanWhile ?keep s)"
    using forward_pos [OF scanWhile_forward, of "s\<lparr>pos := pos s + n\<rparr>" ?keep] \<open>0 < n\<close> by simp
  let ?s2 = "scanWhile (IsLetter U) (scanWhile ?keep s)"
  have s2: "pos s < pos ?s2" using s1 forward_pos [OF scanWhile_forward [of "scanWhile ?keep s" "IsLetter U"]] by simp
  then have "pos s < pos (snd (numberSegments U True ?s2))"
    using forward_pos [OF numberSegments_forward [of ?s2 U True]] by simp
  then show ?thesis
    using s1 s2 by (subst numberSegments.simps) (simp add: Let_def)
qed

lemma scanIdent_progress:
  assumes "pos s < length (src s)" "isIdentRune U (fst (peek s))"
  shows "pos s < pos (snd (scanIdent U s))"
proof -
  obtain r n where p: "peek s = (r, n)" by fastforce
  then have "0 < n" "isIdentRune U r" using assms peek_size(2) [of s] by simp_all
  then have "scanWhile (isIdentRune U) s = scanWhile (isIdentRune U) (s\<lparr>pos := pos s + n\<rparr>)"
    by (subst scanWhile.simps) (simp add: p)
  then show ?thesis
    using forward_pos [OF scanWhile_forward, of "s\<lparr>pos := pos s + n\<rparr>" "isIdentRune U"] \<open>0 < n\<close>
    by (simp add: scanIdent_def Let_def)
qed

text \<open>
  What each branch of \<open>scan_next\<close> promises, from a scanner \<open>s\<close> that is not at its end: it moves
  forward by at least one byte and does not return the end of input.
\<close>

definition advances :: "scanner \<Rightarrow> Token \<times> scanner \<Rightarrow> bool" where
  "advances s r \<longleftrightarrow> forward s (snd r) \<and> pos s < pos (snd r) \<and> Typ (fst r) \<noteq> TokEOF"

lemma read_advances:
  assumes "pos s < length (src s)" "forward (snd (read s)) s'" "t \<noteq> TokEOF"
  shows "advances s (Tok t v, s')"
  using assms read_progress [of s] forward_pos [OF assms(2)] forward_trans [OF forward_read assms(2)]
  by (simp add: advances_def)

lemma emit_advances: "pos s < length (src s) \<Longrightarrow> t \<noteq> TokEOF \<Longrightarrow> advances s (emit t v s)"
  by (simp add: emit_def read_advances)

lemma two_char_advances:
  "pos s < length (src s) \<Longrightarrow> t \<noteq> TokEOF \<Longrightarrow> advances s (emit t v (snd (read s)))"
  by (simp add: emit_def read_advances)

lemma scanQuotedLoop_typ: "Typ (fst (scanQuotedLoop start s)) \<noteq> TokEOF"
  by (induction start s rule: scanQuotedLoop.induct)
    (subst scanQuotedLoop.simps, auto simp: Let_def split: option.split prod.split)

lemma literal_advances:
  assumes "pos s < length (src s)"
  shows "advances s (scanQuotedString s)" "advances s (scanRawString s)"
    "isIdentRune U (fst (peek s)) \<Longrightarrow> advances s (scanIdent U s)"
    "IsDigit U (fst (peek s)) \<Longrightarrow> advances s (scanNumberOrDuration U s)"
proof -
  have "forward (snd (read s)) (snd (scanQuotedString s))" by (simp add: scanQuotedString_def scanQuotedLoop_forward)
  from read_advances [OF assms this, of TokError] scanQuotedLoop_typ
  show "advances s (scanQuotedString s)" by (simp add: advances_def scanQuotedString_def)
  show "advances s (scanRawString s)"
    unfolding scanRawString_def Let_def
    by (rule read_advances [OF assms]) (rule forward_trans [OF scanWhile_forward forward_read], simp)
  have kw: "(case map_of keywordTypes v of Some t \<Rightarrow> t | None \<Rightarrow> TokIdent) \<noteq> TokEOF" for v
    by (auto simp: keywordTypes_def)
  show "advances s (scanIdent U s)" if "isIdentRune U (fst (peek s))"
    using scanIdent_progress [OF assms that] kw by (simp add: advances_def scanIdent_def Let_def)
  show "advances s (scanNumberOrDuration U s)" if "IsDigit U (fst (peek s))"
    using numberSegments_progress [OF assms that, of False] numberSegments_forward [of s U False]
    by (simp add: advances_def scanNumberOrDuration_def split_beta)
qed

lemma operator_advances:
  assumes "pos s < length (src s)"
  shows "advances s (scanPipe s)" "advances s (scanBang s)" "advances s (scanCompare r s)"
  using assms by (auto simp: scanPipe_def scanBang_def scanCompare_def Let_def intro: two_char_advances read_advances)

lemma scan_next_advances:
  assumes "s = skipWS s0"
  shows "(if pos s < length (src s) then advances s (scan_next U s0) else scan_next U s0 = (Tok TokEOF [], s))"
proof (cases "pos s < length (src s)")
  case True
  have brace: "advances s (Tok t v, (snd (read s))\<lparr>braceDepth := d\<rparr>)" if "t \<noteq> TokEOF" for t v d
    using read_advances [OF True _ that, of "snd (read s)" v] by (simp add: advances_def forward_def)
  have ident: "IsLetter U r \<or> r = 95 \<Longrightarrow> isIdentRune U r" for r by (auto simp: isIdentRune_def)
  show ?thesis
    using True emit_advances [OF True] literal_advances [OF True] operator_advances [OF True] brace ident
    by (simp add: scan_next_def Let_def flip: assms)
qed (simp add: scan_next_def Let_def flip: assms)

lemma skipWS_forward: "forward s (skipWS s)"
  by (simp add: skipWS_def)

lemma scan_next_forward: "forward s (snd (scan_next U s))"
  using scan_next_advances [OF refl, of s U] skipWS_forward [of s]
  by (auto simp: advances_def intro: forward_trans split: if_splits)

lemma scan_next_progress:
  assumes "Typ (fst (scan_next U s)) \<noteq> TokEOF"
  shows "pos s < pos (snd (scan_next U s))" "pos s < length (src s)"
  using assms scan_next_advances [OF refl, of s U] forward_pos [OF skipWS_forward, of s] forward_src [OF skipWS_forward, of s]
  by (auto simp: advances_def split: if_splits)

lemma length_slice: "length (slice s i j) \<le> j - i"
  by (simp add: slice_def)

lemma scanQuotedLoop_not_ident: "Typ (fst (scanQuotedLoop start s)) \<noteq> TokIdent"
  by (induction start s rule: scanQuotedLoop.induct)
    (subst scanQuotedLoop.simps, auto simp: Let_def split: option.split prod.split)

lemma operator_not_ident:
  "Typ (fst (scanPipe s)) \<noteq> TokIdent" "Typ (fst (scanBang s)) \<noteq> TokIdent" "Typ (fst (scanCompare r s)) \<noteq> TokIdent"
  by (simp_all add: scanPipe_def scanBang_def scanCompare_def emit_def Let_def)

text \<open>An identifier is the text that ends where the scanner stands.\<close>

lemma scan_next_ident:
  assumes "Typ (fst (scan_next U s)) = TokIdent"
  shows "length (Val (fst (scan_next U s))) \<le> pos (snd (scan_next U s))"
proof -
  let ?s = "skipWS s"
  have "scan_next U s = scanIdent U ?s"
    using assms operator_not_ident scanQuotedLoop_not_ident
    by (simp add: scan_next_def emit_def scanQuotedString_def scanRawString_def scanNumberOrDuration_def Let_def split_beta
        split: if_splits; auto)
  then show ?thesis
    using length_slice [of "src ?s" "pos ?s" "pos (snd (scanIdent U ?s))"] scanWhile_forward [of ?s "isIdentRune U"]
    by (simp add: scanIdent_def Let_def forward_def)
qed

text \<open>A token that carries no text of its own has the name of its type as its value.\<close>

definition free_text :: "TokType \<Rightarrow> bool" where
  "free_text t \<longleftrightarrow> t \<in> {TokEOF, TokError, TokIdent, TokString, TokRawString, TokDuration, TokNumber}"

definition fixed_val :: "Token \<Rightarrow> bool" where
  "fixed_val t \<longleftrightarrow> free_text (Typ t) \<or> Val t = TokType_String (Typ t)"

lemma fixed_val_free [simp]: "free_text t \<Longrightarrow> fixed_val (Tok t v)"
  by (simp add: fixed_val_def)

lemma scanQuotedLoop_fixed: "fixed_val (fst (scanQuotedLoop start s))"
  by (induction start s rule: scanQuotedLoop.induct)
    (subst scanQuotedLoop.simps, auto simp: Let_def fixed_val_def free_text_def split: option.split prod.split)

lemma scanIdent_fixed: "fixed_val (fst (scanIdent U s))"
  by (auto simp: scanIdent_def Let_def fixed_val_def free_text_def keywordTypes_def)

lemma operator_fixed:
  "fixed_val (fst (scanPipe s))" "fixed_val (fst (scanBang s))" "fixed_val (fst (scanCompare r s))"
  by (simp_all add: scanPipe_def scanBang_def scanCompare_def emit_def Let_def fixed_val_def free_text_def)

lemma scan_next_fixed: "fixed_val (fst (scan_next U s))"
proof -
  have e: "fixed_val (fst (emit t v s))" if "free_text t \<or> v = TokType_String t" for t v s
    using that by (simp add: emit_def fixed_val_def)
  have b: "fixed_val (Tok TokLBrace ''{'')" "fixed_val (Tok TokRBrace ''}'')" "fixed_val (Tok TokEOF [])"
    by (simp_all add: fixed_val_def free_text_def)
  have n: "fixed_val (fst (scanNumberOrDuration U s))" "fixed_val (fst (scanRawString s))" for s
    by (simp_all add: scanNumberOrDuration_def scanRawString_def split_beta Let_def free_text_def)
  show ?thesis
    using operator_fixed scanIdent_fixed scanQuotedLoop_fixed n e b
    by (simp add: scan_next_def scanQuotedString_def Let_def free_text_def)
qed

end
