(* ===== verification/GoNetip.thy ===== *)
theory GoNetip
  imports GoNumbers
begin

text \<open>
  The parsers of Go's \<^verbatim>\<open>net/netip\<close> that \<^verbatim>\<open>internal/logql/ip_filter.go\<close>
  calls. An address is its family, its value and, for IPv6, its zone.
\<close>

datatype Addr = Addr4 int | Addr6 int string

fun BitLen :: "Addr \<Rightarrow> nat" where
  "BitLen (Addr4 a) = 32"
| "BitLen (Addr6 a z) = 128"

fun addr_value :: "Addr \<Rightarrow> int" where
  "addr_value (Addr4 a) = a"
| "addr_value (Addr6 a z) = a"

definition be_value :: "int list \<Rightarrow> int" where
  "be_value bs = foldl (\<lambda>a b. 256 * a + b) 0 bs"

text \<open>\<open>parseIPv4Fields\<close>: the fields so far, the value and the number of digits of the current one.\<close>

fun parseIPv4Fields :: "int list \<Rightarrow> int \<Rightarrow> nat \<Rightarrow> string \<Rightarrow> int list option" where
  "parseIPv4Fields fs val digLen [] = (if length fs < 3 then None else Some (fs @ [val]))"
| "parseIPv4Fields fs val digLen (c # s) =
     (if is_digit c then
        (if digLen = 1 \<and> val = 0 then None
         else let v = val * 10 + (of_char c - 48)
              in if v > 255 then None else parseIPv4Fields fs v (digLen + 1) s)
      else if c = CHR ''.'' then
        (if digLen = 0 \<or> s = [] \<or> length fs = 3 then None else parseIPv4Fields (fs @ [val]) 0 0 s)
      else None)"

definition is_hex :: "char \<Rightarrow> bool" where
  "is_hex c \<longleftrightarrow> unhex c \<noteq> None"

text \<open>The loop of \<open>parseIPv6\<close>: the bytes so far, the place of the ellipsis and the rest.\<close>

function parseIPv6Fields :: "int list \<Rightarrow> nat option \<Rightarrow> string \<Rightarrow> (int list \<times> nat option \<times> string) option" where
  "parseIPv6Fields ip ellipsis s =
     (if 16 \<le> length ip then Some (ip, ellipsis, s)
      else let h = takeWhile is_hex s; rest = dropWhile is_hex s
           in if h = [] \<or> 4 < length h then None
              else if rest \<noteq> [] \<and> hd rest = CHR ''.'' then
                (if (ellipsis = None \<and> length ip \<noteq> 12) \<or> 16 < length ip + 4 then None
                 else map_option (\<lambda>fs. (ip @ fs, ellipsis, [])) (parseIPv4Fields [] 0 0 s))
              else let acc = (case from_hex 0 h of Some v \<Rightarrow> int v | None \<Rightarrow> 0); ip1 = ip @ [acc div 256, acc mod 256]
                   in if rest = [] then Some (ip1, ellipsis, [])
                      else if hd rest \<noteq> CHR '':'' \<or> length rest = 1 then None
                      else let s1 = tl rest
                           in if hd s1 = CHR '':'' then
                                (if ellipsis \<noteq> None then None
                                 else if tl s1 = [] then Some (ip1, Some (length ip1), [])
                                 else parseIPv6Fields ip1 (Some (length ip1)) (tl s1))
                              else parseIPv6Fields ip1 ellipsis s1)"
  by pat_completeness auto
termination
  by (relation "measure (\<lambda>(ip, e, s). 16 - length ip)") auto

declare parseIPv6Fields.simps [simp del]

definition parseIPv6 :: "string \<Rightarrow> Addr option" where
  "parseIPv6 inp =
     (let (s, zs) = Cut inp (CHR ''%''); zone = (case zs of None \<Rightarrow> [] | Some z \<Rightarrow> z)
      in if zs = Some [] then None
         else let lead = HasPrefix s ''::''; s1 = (if lead then drop 2 s else s)
              in if lead \<and> s1 = [] then Some (Addr6 0 zone)
                 else (case parseIPv6Fields [] (if lead then Some 0 else None) s1 of
                         None \<Rightarrow> None
                       | Some (ip, ellipsis, rest) \<Rightarrow>
                           if rest \<noteq> [] then None
                           else if length ip < 16 then
                             (case ellipsis of
                                None \<Rightarrow> None
                              | Some e \<Rightarrow> Some (Addr6 (be_value (take e ip @ replicate (16 - length ip) 0 @ drop e ip)) zone))
                           else if ellipsis \<noteq> None then None
                           else Some (Addr6 (be_value ip) zone)))"

definition ParseAddr :: "string \<Rightarrow> Addr option" where
  "ParseAddr s =
     (case List.find (\<lambda>c. c = CHR ''.'' \<or> c = CHR '':'' \<or> c = CHR ''%'') s of
        Some c \<Rightarrow>
          if c = CHR ''.'' then map_option (\<lambda>fs. Addr4 (be_value fs)) (parseIPv4Fields [] 0 0 s)
          else if c = CHR '':'' then parseIPv6 s
          else None
      | None \<Rightarrow> None)"

fun has_zone :: "Addr \<Rightarrow> bool" where
  "has_zone (Addr4 a) = False"
| "has_zone (Addr6 a z) = (z \<noteq> [])"

definition ParsePrefix :: "string \<Rightarrow> (Addr \<times> int) option" where
  "ParsePrefix s =
     (case LastIndexByte s (CHR ''/'') of
        None \<Rightarrow> None
      | Some i \<Rightarrow>
          (case ParseAddr (take i s) of
             None \<Rightarrow> None
           | Some ip \<Rightarrow>
               let bitsStr = drop (Suc i) s
               in if has_zone ip then None
                  else if 1 < length bitsStr \<and> (\<not> is_digit (hd bitsStr) \<or> hd bitsStr = CHR ''0'') then None
                  else (case Atoi bitsStr of
                          Inl e \<Rightarrow> None
                        | Inr bits \<Rightarrow> if bits < 0 \<or> int (BitLen ip) < bits then None else Some (ip, bits))))"

text \<open>\<open>Compare\<close> of two addresses without zones is at most zero.\<close>

definition addr_le :: "Addr \<Rightarrow> Addr \<Rightarrow> bool" where
  "addr_le a b \<longleftrightarrow> BitLen a < BitLen b \<or> (BitLen a = BitLen b \<and> addr_value a \<le> addr_value b)"

end
