(* ===== verification/LogqlParser.thy ===== *)
theory LogqlParser
  imports GoResult LogqlAst LogqlScanner GoNetip
begin

text \<open>
  The LogQL parser, \<^verbatim>\<open>internal/logql/parser.go\<close> and \<^verbatim>\<open>ip_filter.go\<close>.
  Every method is a function of the parser state that returns a \<open>res\<close>: a value and the new
  state, an error with the message the code builds, \<open>Panic\<close> where a Go slice expression is out
  of range, or \<open>Loop\<close> when the fuel of the mutually recursive methods runs out. Loops that
  only consume tokens are recursive functions that end because every token advances the scanner.
\<close>

text \<open>\<^verbatim>\<open>s[i:j]\<close>, which panics when the bounds are out of range.\<close>

definition goSlice :: "string \<Rightarrow> int \<Rightarrow> int \<Rightarrow> string res" where
  "goSlice s i j = (if 0 \<le> i \<and> i \<le> j \<and> j \<le> int (length s) then Ok (slice s (nat i) (nat j)) else Panic)"

subsection \<open>Parse errors\<close>

definition newParseError :: "int \<Rightarrow> int \<Rightarrow> string \<Rightarrow> goError" where
  "newParseError line col msg =
     (if line = 0 \<and> col = 0 then ParseError (''parse error : '' @ msg)
      else ParseError (''parse error at line '' @ Itoa line @ '', col '' @ Itoa col @ '': '' @ msg))"

definition vectorOps :: "(string \<times> VectorOp) list" where
  "vectorOps =
     [(''sum'', VectorSum), (''avg'', VectorAvg), (''min'', VectorMin), (''max'', VectorMax),
      (''count'', VectorCount), (''stddev'', VectorStddev), (''stdvar'', VectorStdvar),
      (''bottomk'', VectorBottomK), (''topk'', VectorTopK), (''sort'', VectorSort),
      (''sort_desc'', VectorSortDesc)]"

definition rangeOps :: "(string \<times> RangeOp) list" where
  "rangeOps =
     [(''rate'', RangeRate), (''count_over_time'', RangeCountOverTime), (''bytes_rate'', RangeBytesRate),
      (''bytes_over_time'', RangeBytesOverTime), (''avg_over_time'', RangeAvgOverTime),
      (''sum_over_time'', RangeSumOverTime), (''min_over_time'', RangeMinOverTime),
      (''max_over_time'', RangeMaxOverTime), (''stdvar_over_time'', RangeStdvarOverTime),
      (''stddev_over_time'', RangeStddevOverTime), (''quantile_over_time'', RangeQuantileOverTime),
      (''first_over_time'', RangeFirstOverTime), (''last_over_time'', RangeLastOverTime),
      (''absent_over_time'', RangeAbsentOverTime), (''rate_counter'', RangeRateCounter)]"

subsection \<open>The parser state\<close>

record parser =
  sc :: scanner
  cur :: Token
  input :: string

abbreviation curTyp :: "parser \<Rightarrow> TokType" where
  "curTyp p \<equiv> Typ (cur p)"

abbreviation curVal :: "parser \<Rightarrow> string" where
  "curVal p \<equiv> Val (cur p)"

abbreviation scPos :: "parser \<Rightarrow> nat" where
  "scPos p \<equiv> pos (sc p)"

definition newParser :: "string \<Rightarrow> parser" where
  "newParser inp = \<lparr>sc = newScanner inp, cur = Tok TokEOF [], input = inp\<rparr>"

definition advance :: "unicode \<Rightarrow> parser \<Rightarrow> Token \<times> parser" where
  "advance U p = (let (t, s) = scan_next U (sc p) in (cur p, p\<lparr>sc := s, cur := t\<rparr>))"

text \<open>The state after \<open>advance\<close>, where the code ignores the token.\<close>

definition skip :: "unicode \<Rightarrow> parser \<Rightarrow> parser" where
  "skip U p = snd (advance U p)"

definition peekTyp :: "unicode \<Rightarrow> parser \<Rightarrow> TokType" where
  "peekTyp U p = curTyp (skip U p)"

definition expect :: "unicode \<Rightarrow> TokType \<Rightarrow> parser \<Rightarrow> (Token \<times> parser) res" where
  "expect U typ p =
     (if curTyp p \<noteq> typ
      then Err (Errorf (''logql: expected '' @ TokType_String typ @ '', got '' @ TokType_String (curTyp p) @
                        '' ('' @ Quote U (curVal p) @ '')''))
      else Ok (advance U p))"

subsection \<open>Progress of the parser\<close>

text \<open>
  The number of tokens still to come is bounded by \<open>remaining\<close>, which every \<open>advance\<close> from a
  token other than the end of input makes smaller. \<open>adv p p'\<close> says that the parser moved from
  \<open>p\<close> to \<open>p'\<close> over at least one token, \<open>le\<close> that it may also have stayed. \<open>advP\<close> and
  \<open>leP\<close> say so of the state a result carries; their rules follow the shape of the methods.
\<close>

named_theorems adv_rules "progress of the parser's methods"

definition remaining :: "parser \<Rightarrow> nat" where
  "remaining p = (if curTyp p = TokEOF then 0 else Suc (length (src (sc p)) - scPos p))"

definition token_ok :: "parser \<Rightarrow> bool" where
  "token_ok p \<longleftrightarrow> fixed_val (cur p) \<and> (curTyp p = TokIdent \<longrightarrow> length (curVal p) \<le> scPos p)"

definition adv :: "parser \<Rightarrow> parser \<Rightarrow> bool" where
  "adv p p' \<longleftrightarrow> remaining p' < remaining p \<and> input p' = input p \<and> forward (sc p) (sc p') \<and> token_ok p'"

definition le :: "parser \<Rightarrow> parser \<Rightarrow> bool" where
  "le p p' \<longleftrightarrow> p' = p \<or> adv p p'"

definition advP :: "parser \<Rightarrow> ('a \<times> parser) res \<Rightarrow> bool" where
  "advP p r \<longleftrightarrow> (\<forall>x p'. r = Ok (x, p') \<longrightarrow> adv p p')"

definition leP :: "parser \<Rightarrow> ('a \<times> parser) res \<Rightarrow> bool" where
  "leP p r \<longleftrightarrow> (\<forall>x p'. r = Ok (x, p') \<longrightarrow> le p p')"

lemma advance_simps [simp]:
  "fst (advance U p) = cur p" "snd (advance U p) = skip U p" "input (skip U p) = input p"
  by (simp_all add: advance_def skip_def split_beta)

lemma advance_skip: "advance U p = (cur p, skip U p)"
  by (simp add: skip_def advance_def split_beta)

lemma skip_sc: "sc (skip U p) = snd (scan_next U (sc p))" "cur (skip U p) = fst (scan_next U (sc p))"
  by (simp_all add: skip_def advance_def split_beta)

lemma adv_skip: "curTyp p \<noteq> TokEOF \<Longrightarrow> adv p (skip U p)"
  using scan_next_progress [of U "sc p"] scan_next_forward [where s = "sc p" and U = U] scan_next_ident [of U "sc p"]
    forward_src [OF scan_next_forward [where s = "sc p" and U = U]]
  by (auto simp: adv_def remaining_def token_ok_def scan_next_fixed skip_sc)

lemma adv_trans: "adv p q \<Longrightarrow> adv q r \<Longrightarrow> adv p r"
  by (auto simp: adv_def intro: forward_trans)

lemma adv_remaining: "adv p q \<Longrightarrow> remaining q < remaining p"
  by (simp add: adv_def)

lemma le_refl [simp, adv_rules]: "le p p"
  by (simp add: le_def)

lemma le_trans: "le p q \<Longrightarrow> le q r \<Longrightarrow> le p r"
  by (auto simp: le_def intro: adv_trans)

lemma le_adv_trans: "le p q \<Longrightarrow> adv q r \<Longrightarrow> adv p r"
  by (auto simp: le_def intro: adv_trans)

lemma adv_le_trans: "adv p q \<Longrightarrow> le q r \<Longrightarrow> adv p r"
  by (auto simp: le_def intro: adv_trans)

lemma skip_rules [adv_rules]:
  "le p q \<Longrightarrow> curTyp q \<noteq> TokEOF \<Longrightarrow> le p (skip U q)"
  "le p q \<Longrightarrow> curTyp q \<noteq> TokEOF \<Longrightarrow> adv p (skip U q)"
  using adv_skip [of q U] le_adv_trans by (auto simp: le_def)

lemma advP_leP: "advP p r \<Longrightarrow> leP p r"
  by (auto simp: advP_def leP_def le_def)

lemma result_rules [adv_rules]:
  "le p q \<Longrightarrow> leP p (Ok (x, q))" "adv p q \<Longrightarrow> advP p (Ok (x, q))"
  "leP p (Err e)" "advP p (Err e)" "leP p Panic" "advP p Panic" "leP p Loop" "advP p Loop"
  by (auto simp: leP_def advP_def)

lemma bind_rules [adv_rules]:
  "leP p r \<Longrightarrow> (\<And>x q. leP q (f (x, q))) \<Longrightarrow> leP p (bindR r f)"
  "advP p r \<Longrightarrow> (\<And>x q. leP q (f (x, q))) \<Longrightarrow> advP p (bindR r f)"
  by (cases r; fastforce simp: leP_def advP_def intro: le_trans adv_le_trans)+

lemma leP_bind_adv: "leP p r \<Longrightarrow> (\<And>x q. advP q (f (x, q))) \<Longrightarrow> advP p (bindR r f)"
  by (cases r; fastforce simp: leP_def advP_def intro: le_adv_trans)+

lemma pure_bind_rules [adv_rules]:
  "(\<And>x. leP p (f x)) \<Longrightarrow> leP p (bindR (goSlice s i j) f)"
  "(\<And>x. advP p (f x)) \<Longrightarrow> advP p (bindR (goSlice s i j) f)"
  by (auto simp: goSlice_def leP_def advP_def)

lemma mapErr_rules [adv_rules]: "leP p r \<Longrightarrow> leP p (mapErr f r)" "advP p r \<Longrightarrow> advP p (mapErr f r)"
  by (cases r; simp add: leP_def advP_def)+

lemma if_rules [adv_rules]:
  "(b \<Longrightarrow> leP p x) \<Longrightarrow> (\<not> b \<Longrightarrow> leP p y) \<Longrightarrow> leP p (if b then x else y)"
  "(b \<Longrightarrow> advP p x) \<Longrightarrow> (\<not> b \<Longrightarrow> advP p y) \<Longrightarrow> advP p (if b then x else y)"
  by auto

lemma expect_rules [adv_rules]:
  "le p q \<Longrightarrow> typ \<noteq> TokEOF \<Longrightarrow> leP p (expect U typ q)" "le p q \<Longrightarrow> typ \<noteq> TokEOF \<Longrightarrow> advP p (expect U typ q)"
  by (auto simp: expect_def advance_skip intro!: adv_rules)

lemma lift_advP: "(\<And>q. advP q (f q)) \<Longrightarrow> le p q \<Longrightarrow> leP p (f q)" "(\<And>q. advP q (f q)) \<Longrightarrow> le p q \<Longrightarrow> advP p (f q)"
  by (auto simp: leP_def advP_def le_def intro: adv_trans)

lemma lift_leP: "(\<And>q. leP q (f q)) \<Longrightarrow> le p q \<Longrightarrow> leP p (f q)"
  by (auto simp: leP_def intro: le_trans)

subsection \<open>Names and errors of tokens\<close>

definition ToUpperByte :: "char \<Rightarrow> char" where
  "ToUpperByte c = (let n = byte_of c in if 97 \<le> n \<and> n \<le> 122 then char_of (n - 32) else c)"

definition lokiTokenName :: "Token \<Rightarrow> string" where
  "lokiTokenName tok =
     (if Typ tok = TokEOF then ''$end''
      else if Typ tok = TokNumber then ''NUMBER''
      else if Typ tok = TokString \<or> Typ tok = TokRawString then ''STRING''
      else if Typ tok = TokDuration then ''RANGE''
      else if Typ tok = TokIdent then
        (if Val tok = ''label_replace'' then Val tok
         else if map_of rangeOps (Val tok) \<noteq> None then map ToUpperByte (Val tok)
         else if map_of vectorOps (Val tok) \<noteq> None \<or> Val tok = ''vector'' then map ToUpperByte (Val tok)
         else ''IDENTIFIER'')
      else TokType_String (Typ tok))"

definition syntaxError :: "string \<Rightarrow> parser \<Rightarrow> goError" where
  "syntaxError expecting p =
     (let msg = ''syntax error: unexpected '' @ lokiTokenName (cur p) @
                (if expecting \<noteq> [] then '', expecting '' @ expecting else [])
      in if curTyp p = TokEOF then newParseError 1 (int (length (input p)) + 1) msg else newParseError 0 0 msg)"

subsection \<open>Strings and labels\<close>

definition validIPPattern :: "string \<Rightarrow> bool" where
  "validIPPattern pat =
     (if ParseAddr pat \<noteq> None then True
      else if ParsePrefix pat \<noteq> None then True
      else case Cut pat (CHR ''-'') of
             (from, None) \<Rightarrow> False
           | (from, Some to) \<Rightarrow>
               (case (ParseAddr from, ParseAddr to) of
                  (Some lo, Some hi) \<Rightarrow> BitLen lo = BitLen hi \<and> addr_le lo hi
                | _ \<Rightarrow> False))"

function expectStringOrRaw :: "unicode \<Rightarrow> parser \<Rightarrow> (string \<times> parser) res" where
  "expectStringOrRaw U p =
     (if curTyp p = TokString then Ok (curVal p, skip U p)
      else if curTyp p = TokRawString then Ok (curVal p, skip U p)
      else if curTyp p = TokIdent then
        let name = curVal p; p1 = skip U p
        in if curTyp p1 = TokLParen then
             bindR (expectStringOrRaw U (skip U p1)) (\<lambda>(val, p2).
             bindR (expect U TokRParen p2) (\<lambda>(_, p3).
             if name = ''ip'' \<and> \<not> validIPPattern val
             then Err (Errorf (''ip: invalid pattern: '' @ Quote U val))
             else Ok (name @ ''('' @ val @ '')'', p3)))
           else Err (Errorf (''logql: expected STRING or RAWSTRING, got IDENT ('' @ Quote U name @ '')''))
      else Err (Errorf (''logql: expected STRING or RAWSTRING, got '' @ TokType_String (curTyp p) @
                        '' ('' @ Quote U (curVal p) @ '')'')))"
  by pat_completeness auto
termination
  by (relation "measure (\<lambda>(U, p). remaining p)") (auto intro!: adv_remaining adv_rules)

declare expectStringOrRaw.simps [simp del]

text \<open>The loop \<^verbatim>\<open>for p.cur.Typ == TokIdent\<close> of \<open>parseLabelList\<close> and \<open>parseGrouping\<close>.\<close>

function labelNames :: "unicode \<Rightarrow> string list \<Rightarrow> parser \<Rightarrow> string list \<times> parser" where
  "labelNames U labels p =
     (if curTyp p = TokIdent then
        let p1 = skip U p
        in labelNames U (labels @ [curVal p]) (if curTyp p1 = TokComma then skip U p1 else p1)
      else (labels, p))"
  by pat_completeness auto
termination
  by (relation "measure (\<lambda>(U, labels, p). remaining p)") (auto intro!: adv_remaining adv_rules)

declare labelNames.simps [simp del]

definition parseLabelList :: "unicode \<Rightarrow> parser \<Rightarrow> (string list \<times> parser) res" where
  "parseLabelList U p =
     (if curTyp p \<noteq> TokLParen then Ok ([], p)
      else let (labels, p1) = labelNames U [] (skip U p)
           in bindR (expect U TokRParen p1) (\<lambda>(_, p2). Ok (labels, p2)))"

definition parseGrouping :: "unicode \<Rightarrow> parser \<Rightarrow> (Grouping \<times> parser) res" where
  "parseGrouping U p =
     (let without = (curTyp p = TokWithout)
      in bindR (expect U TokLParen (skip U p)) (\<lambda>(_, p1).
         let (labels, p2) = labelNames U [] p1
         in bindR (expect U TokRParen p2) (\<lambda>(_, p3). Ok (\<lparr>gr_Without = without, gr_Labels = labels\<rparr>, p3))))"

subsection \<open>Stream selectors\<close>

definition matchOpOf :: "TokType \<Rightarrow> MatchOp option" where
  "matchOpOf t =
     (case t of TokEq \<Rightarrow> Some MatchEq | TokNeq \<Rightarrow> Some MatchNeq | TokReMatch \<Rightarrow> Some MatchRe
      | TokReNotMatch \<Rightarrow> Some MatchNotRe | _ \<Rightarrow> None)"

definition parseLabelMatcher :: "unicode \<Rightarrow> parser \<Rightarrow> (LabelMatcher \<times> parser) res" where
  "parseLabelMatcher U p =
     bindR (mapErr (\<lambda>m. Errorf (''logql: expected label name: '' @ m)) (expect U TokIdent p)) (\<lambda>(name, p1).
     case matchOpOf (curTyp p1) of
       None \<Rightarrow> Err (Errorf (''logql: expected label operator, got '' @ TokType_String (curTyp p1) @
                             '' ('' @ Quote U (curVal p1) @ '')''))
     | Some oper \<Rightarrow>
         bindR (mapErr (\<lambda>m. Errorf (''logql: expected label value after '' @ Quote U (Val name) @ '': '' @ m))
                  (expectStringOrRaw U (skip U p1))) (\<lambda>(valStr, p2).
         Ok (\<lparr>lm_Name = Val name, lm_Op = oper, lm_Value = valStr\<rparr>, p2)))"

lemma expectStringOrRaw_advP: "advP p (expectStringOrRaw U p)"
proof (induction U p rule: expectStringOrRaw.induct)
  case (1 U p)
  show ?case
  proof (cases "curTyp p = TokIdent \<and> curTyp (skip U p) = TokLParen")
    case True
    have "le p (skip U (skip U p))" using True by (auto intro!: adv_rules)
    then have "advP p (expectStringOrRaw U (skip U (skip U p)))"
      using 1 True le_adv_trans by (auto simp: advP_def)
    with True show ?thesis
      by (subst expectStringOrRaw.simps) (auto simp: Let_def intro!: adv_rules)
  qed (subst expectStringOrRaw.simps, auto simp: Let_def intro!: adv_rules)
qed

lemmas expectStringOrRaw_rules [adv_rules] = lift_advP [OF expectStringOrRaw_advP]

lemma parseLabelMatcher_advP: "advP p (parseLabelMatcher U p)"
  by (auto simp: parseLabelMatcher_def matchOpOf_def split: TokType.split intro!: adv_rules)

lemmas parseLabelMatcher_rules [adv_rules] = lift_advP [OF parseLabelMatcher_advP]

text \<open>The loop over the matchers of a selector.\<close>

function matcherLoop :: "unicode \<Rightarrow> LabelMatcher list \<Rightarrow> parser \<Rightarrow> (LabelMatcher list \<times> parser) res" where
  "matcherLoop U ms p =
     bindR (parseLabelMatcher U p) (\<lambda>(m, p1).
     if curTyp p1 = TokComma then matcherLoop U (ms @ [m]) (skip U p1) else Ok (ms @ [m], p1))"
  by pat_completeness auto
termination
proof (relation "measure (\<lambda>(U, ms, p). remaining p)", goal_cases)
  case (2 U ms p r m p1)
  then have "adv p p1" "adv p1 (skip U p1)" using parseLabelMatcher_advP [of p U] by (auto simp: advP_def intro: adv_skip)
  then show ?case by (simp add: adv_remaining adv_trans)
qed simp

declare matcherLoop.simps [simp del]

definition parseStreamSelector :: "unicode \<Rightarrow> parser \<Rightarrow> (StreamSelector \<times> parser) res" where
  "parseStreamSelector U p =
     bindR (expect U TokLBrace p) (\<lambda>(_, p1).
     if curTyp p1 = TokRBrace then Ok (\<lparr>Matchers = []\<rparr>, skip U p1)
     else bindR (matcherLoop U [] p1) (\<lambda>(ms, p2).
          bindR (expect U TokRBrace p2) (\<lambda>(_, p3). Ok (\<lparr>Matchers = ms\<rparr>, p3))))"

lemma matcherLoop_advP: "advP p (matcherLoop U ms p)"
proof (induction U ms p rule: matcherLoop.induct)
  case (1 U ms p)
  have "leP q (if curTyp q = TokComma then matcherLoop U (ms @ [m]) (skip U q) else Ok (ms @ [m], q))"
    if "parseLabelMatcher U p = Ok (m, q)" for m q
    using 1 [OF that refl] adv_skip [of q U] by (auto simp: leP_def advP_def le_def intro: adv_trans)
  then show ?case
    using parseLabelMatcher_advP [of p U]
    by (subst matcherLoop.simps, cases "parseLabelMatcher U p") (fastforce simp: advP_def leP_def intro: adv_le_trans)+
qed

lemmas matcherLoop_rules [adv_rules] = lift_advP [OF matcherLoop_advP]

lemma parseStreamSelector_advP: "advP p (parseStreamSelector U p)"
  by (auto simp: parseStreamSelector_def intro!: adv_rules)

lemmas parseStreamSelector_rules [adv_rules] = lift_advP [OF parseStreamSelector_advP]

lemma labelNames_le: "le p (snd (labelNames U ls p))"
proof (induction U ls p rule: labelNames.induct)
  case (1 U ls p)
  show ?case
  proof (cases "curTyp p = TokIdent")
    case True
    then have "le p (if curTyp (skip U p) = TokComma then skip U (skip U p) else skip U p)" by (auto intro!: adv_rules)
    from le_trans [OF this 1 [OF True refl]] True show ?thesis by (subst labelNames.simps) (simp add: Let_def)
  qed (subst labelNames.simps, simp)
qed

lemma labelNames_rules [adv_rules]: "le p q \<Longrightarrow> le p (snd (labelNames U ls q))"
  by (rule le_trans [OF _ labelNames_le])

lemma parseLabelList_leP: "leP p (parseLabelList U p)"
  by (auto simp: parseLabelList_def split_beta intro!: adv_rules)

lemmas parseLabelList_rules [adv_rules] = lift_leP [OF parseLabelList_leP]

lemma parseGrouping_advP: "curTyp p \<noteq> TokEOF \<Longrightarrow> advP p (parseGrouping U p)"
  by (auto simp: parseGrouping_def split_beta Let_def intro!: adv_rules)

subsection \<open>Line filters\<close>

function parseLineFilterOrList :: "unicode \<Rightarrow> string list \<Rightarrow> parser \<Rightarrow> (string list \<times> parser) res" where
  "parseLineFilterOrList U out p =
     (if curTyp p = TokOr then
        (if peekTyp U p = TokString \<or> peekTyp U p = TokRawString then
           bindR (expectStringOrRaw U (skip U p)) (\<lambda>(val, p1). parseLineFilterOrList U (out @ [val]) p1)
         else Ok (out, p))
      else Ok (out, p))"
  by pat_completeness auto
termination
proof (relation "measure (\<lambda>(U, out, p). remaining p)", goal_cases)
  case (2 U out p r val p1)
  then have "adv p (skip U p)" "adv (skip U p) p1"
    using expectStringOrRaw_advP [of "skip U p" U] by (auto simp: advP_def intro: adv_skip)
  then show ?case by (simp add: adv_remaining adv_trans)
qed simp

declare parseLineFilterOrList.simps [simp del]

lemma parseLineFilterOrList_leP: "leP p (parseLineFilterOrList U out p)"
proof (induction U out p rule: parseLineFilterOrList.induct)
  case (1 U out p)
  show ?case
  proof (cases "curTyp p = TokOr \<and> (peekTyp U p = TokString \<or> peekTyp U p = TokRawString)")
    case True
    have "leP q (parseLineFilterOrList U (out @ [v]) q)" if "expectStringOrRaw U (skip U p) = Ok (v, q)" for v q
      using 1 True that by blast
    moreover have "leP p (expectStringOrRaw U (skip U p))" using True by (auto intro!: adv_rules)
    ultimately show ?thesis
      using True by (subst parseLineFilterOrList.simps, cases "expectStringOrRaw U (skip U p)")
        (fastforce simp: leP_def intro: le_trans)+
  qed (subst parseLineFilterOrList.simps, auto intro!: adv_rules)
qed

lemmas parseLineFilterOrList_rules [adv_rules] = lift_leP [OF parseLineFilterOrList_leP]

definition isLineFilterOperator :: "TokType \<Rightarrow> bool" where
  "isLineFilterOperator t \<longleftrightarrow>
     t = TokPipeEq \<or> t = TokBangEq \<or> t = TokPipeTilde \<or> t = TokBangTilde \<or> t = TokPipeGt \<or> t = TokBangGt"

definition lineFilterOpOf :: "TokType \<Rightarrow> LineFilterOp" where
  "lineFilterOpOf t =
     (case t of TokBangEq \<Rightarrow> LineFilterExcludes | TokPipeTilde \<Rightarrow> LineFilterMatchRe
      | TokBangTilde \<Rightarrow> LineFilterExcludeRe | TokPipeGt \<Rightarrow> LineFilterContainsPat
      | TokBangGt \<Rightarrow> LineFilterExcludePat | _ \<Rightarrow> LineFilterContains)"

definition parseLineFilterStage :: "unicode \<Rightarrow> parser \<Rightarrow> (Stage \<times> parser) res" where
  "parseLineFilterStage U p =
     (let tok = cur p; p1 = skip U p; isIP = (curTyp p1 = TokIdent \<and> curVal p1 = ''ip'')
      in if isIP \<and> Typ tok \<noteq> TokPipeEq \<and> Typ tok \<noteq> TokBangEq then Err (Errorf ''ip: invalid operation'')
         else bindR (expectStringOrRaw U p1) (\<lambda>(value, p2).
              bindR (if isIP then Ok ([], p2) else parseLineFilterOrList U [] p2) (\<lambda>(alts, p3).
              Ok (LineFilterStage
                    \<lparr>lf_Op = lineFilterOpOf (Typ tok),
                     lf_Value = (if isIP then TrimSuffix (TrimPrefix value ''ip('') '')'' else value),
                     lf_IP = isIP, lf_Or = alts\<rparr>, p3))))"

lemma parseLineFilterStage_advP: "curTyp p \<noteq> TokEOF \<Longrightarrow> advP p (parseLineFilterStage U p)"
  by (auto simp: parseLineFilterStage_def Let_def intro!: adv_rules)

subsection \<open>Text of a stage\<close>

definition isAlphanumeric :: "char \<Rightarrow> bool" where
  "isAlphanumeric c \<longleftrightarrow>
     (97 \<le> byte_of c \<and> byte_of c \<le> 122) \<or> (65 \<le> byte_of c \<and> byte_of c \<le> 90) \<or>
     (48 \<le> byte_of c \<and> byte_of c \<le> 57) \<or> c = CHR ''_''"

definition tokenRaw :: "unicode \<Rightarrow> Token \<Rightarrow> string" where
  "tokenRaw U tok =
     (case Typ tok of
        TokString \<Rightarrow> Quote U (Val tok)
      | TokRawString \<Rightarrow> quoteParserArgument U (Val tok)
      | TokEq \<Rightarrow> ''=''
      | TokNeq \<Rightarrow> ''!='' | TokBangEq \<Rightarrow> ''!=''
      | TokReMatch \<Rightarrow> ''=~''
      | TokReNotMatch \<Rightarrow> ''!~'' | TokBangTilde \<Rightarrow> ''!~''
      | TokComma \<Rightarrow> '', ''
      | TokLParen \<Rightarrow> ''('' | TokRParen \<Rightarrow> '')''
      | TokLBrace \<Rightarrow> ''{'' | TokRBrace \<Rightarrow> ''}''
      | _ \<Rightarrow> Val tok)"

definition appendStageToken :: "unicode \<Rightarrow> string \<Rightarrow> Token \<Rightarrow> string" where
  "appendStageToken U b tok =
     (let raw = tokenRaw U tok
      in b @ (if b \<noteq> [] \<and> raw \<noteq> [] \<and> isAlphanumeric (hd raw) \<and>
                 (isAlphanumeric (last b) \<or> last b = CHR 0x22 \<or> last b = CHR 0x60)
              then '' '' else []) @ raw)"

definition startsLabelFilterOperand :: "Token \<Rightarrow> bool" where
  "startsLabelFilterOperand tok \<longleftrightarrow>
     Typ tok = TokLParen \<or> Typ tok = TokComma \<or> Typ tok = TokAnd \<or> Typ tok = TokOr \<or>
     (Typ tok = TokEOF \<and> Val tok = [])"

text \<open>The text so far, the open parentheses and the two previous tokens are the loop's variables.\<close>

function restOfStage :: "unicode \<Rightarrow> string \<Rightarrow> nat \<Rightarrow> Token \<Rightarrow> Token \<Rightarrow> parser \<Rightarrow> string \<times> parser" where
  "restOfStage U b depth prev prevPrev p =
     (let t = curTyp p
      in if t = TokEOF \<or> t = TokPipe \<or> t = TokPipeEq \<or> t = TokPipeTilde \<or> t = TokPipeGt \<or> t = TokBangGt \<or>
            t = TokLBracket
         then (b, p)
         else if t = TokRParen \<and> depth = 0 then (b, p)
         else if (t = TokBangEq \<or> t = TokBangTilde) \<and>
                 b \<noteq> [] \<and> (Typ prev \<noteq> TokIdent \<or> \<not> startsLabelFilterOperand prevPrev)
         then (b, p)
         else restOfStage U (appendStageToken U b (cur p))
                (if t = TokLParen then depth + 1 else if t = TokRParen then depth - 1 else depth)
                (cur p) prev (skip U p))"
  by pat_completeness auto
termination
  by (relation "measure (\<lambda>(U, b, depth, prev, prevPrev, p). remaining p)") (auto intro!: adv_remaining adv_rules)

declare restOfStage.simps [simp del]

definition consumeRestOfStage :: "unicode \<Rightarrow> parser \<Rightarrow> string \<times> parser" where
  "consumeRestOfStage U p = restOfStage U [] 0 (Tok TokEOF []) (Tok TokEOF []) p"

lemma restOfStage_le: "le p (snd (restOfStage U b d prev prevPrev p))"
proof (induction U b d prev prevPrev p rule: restOfStage.induct)
  case (1 U b d prev prevPrev p)
  show ?case
    using 1 [OF refl] le_trans [OF skip_rules(1) [OF le_refl]]
    by (subst restOfStage.simps) (auto simp: Let_def)
qed

lemma consumeRestOfStage_rules [adv_rules]: "le p q \<Longrightarrow> le p (snd (consumeRestOfStage U q))"
  unfolding consumeRestOfStage_def by (rule le_trans [OF _ restOfStage_le])

subsection \<open>Stages with lists\<close>

definition dropOpOf :: "TokType \<Rightarrow> string option" where
  "dropOpOf t =
     (case t of TokEq \<Rightarrow> Some ''='' | TokBangEq \<Rightarrow> Some ''!='' | TokReMatch \<Rightarrow> Some ''=~''
      | TokBangTilde \<Rightarrow> Some ''!~'' | _ \<Rightarrow> None)"

text \<open>One item of a drop or keep list, added to the labels or to the matchers.\<close>

definition dropKeepItem ::
  "unicode \<Rightarrow> string list \<Rightarrow> DropMatcher list \<Rightarrow> parser \<Rightarrow> ((string list \<times> DropMatcher list) \<times> parser) res" where
  "dropKeepItem U labels matchers p =
     (let name = curVal p; p1 = skip U p
      in case dropOpOf (curTyp p1) of
           Some oper \<Rightarrow>
             bindR (expectStringOrRaw U (skip U p1)) (\<lambda>(val, p2).
             Ok ((labels, matchers @ [\<lparr>dm_Name = name, dm_Op = oper, dm_Value = val\<rparr>]), p2))
         | None \<Rightarrow> Ok ((labels @ [name], matchers), p1))"

lemma dropKeepItem_advP: "curTyp p \<noteq> TokEOF \<Longrightarrow> advP p (dropKeepItem U labels matchers p)"
  by (auto simp: dropKeepItem_def dropOpOf_def Let_def split: TokType.split intro!: adv_rules)

function dropKeepLoop ::
  "unicode \<Rightarrow> string list \<Rightarrow> DropMatcher list \<Rightarrow> parser \<Rightarrow> ((string list \<times> DropMatcher list) \<times> parser) res" where
  "dropKeepLoop U labels matchers p =
     (if curTyp p = TokIdent then
        bindR (dropKeepItem U labels matchers p) (\<lambda>(lm, p1).
        if curTyp p1 = TokComma then dropKeepLoop U (fst lm) (snd lm) (skip U p1) else Ok (lm, p1))
      else Ok ((labels, matchers), p))"
  by pat_completeness auto
termination
proof (relation "measure (\<lambda>(U, ls, ms, p). remaining p)", goal_cases)
  case (2 U ls ms p r x p1)
  then have "adv p p1" "adv p1 (skip U p1)"
    using dropKeepItem_advP [of p U ls ms] by (auto simp: advP_def intro: adv_skip)
  then show ?case by (simp add: adv_remaining adv_trans)
qed simp

declare dropKeepLoop.simps [simp del]

definition parseDropKeepList :: "unicode \<Rightarrow> parser \<Rightarrow> ((string list \<times> DropMatcher list) \<times> parser) res" where
  "parseDropKeepList U p =
     (if curTyp p \<noteq> TokIdent then Err (Errorf ''logql: expected at least one label name or matcher after drop/keep'')
      else dropKeepLoop U [] [] p)"

text \<open>
  \<open>loop_leP\<close> is the step of the induction for a loop: the body makes progress, and what follows
  it stays in place or goes on.
\<close>

lemma loop_leP:
  assumes "advP p r" "\<And>x q. r = Ok (x, q) \<Longrightarrow> leP q (f (x, q))"
  shows "advP p (bindR r f)"
  using assms by (cases r) (fastforce simp: advP_def leP_def intro: adv_le_trans)+

lemma after_comma: "(curTyp q = t \<Longrightarrow> leP (skip U q) r) \<Longrightarrow> t \<noteq> TokEOF \<Longrightarrow> curTyp q = t \<Longrightarrow> leP q r"
  using adv_skip [of q U] by (auto simp: leP_def le_def intro: adv_trans)

lemma dropKeepLoop_leP: "leP p (dropKeepLoop U ls ms p)"
proof (induction U ls ms p rule: dropKeepLoop.induct)
  case (1 U ls ms p)
  show ?case
  proof (cases "curTyp p = TokIdent")
    case True
    have "advP p (dropKeepLoop U ls ms p)"
      using True 1 [OF True _ refl]
      by (subst dropKeepLoop.simps)
        (auto intro!: loop_leP dropKeepItem_advP if_rules intro: after_comma [where U = U] result_rules le_refl)
    then show ?thesis by (rule advP_leP)
  qed (subst dropKeepLoop.simps, auto intro!: adv_rules)
qed

lemma parseDropKeepList_leP: "leP p (parseDropKeepList U p)"
  by (auto simp: parseDropKeepList_def intro!: adv_rules dropKeepLoop_leP)

lemmas parseDropKeepList_rules [adv_rules] = lift_leP [OF parseDropKeepList_leP]

text \<open>One field of an extraction list: the end of its text, its name and expression.\<close>

definition explicitField :: "unicode \<Rightarrow> parser \<Rightarrow> ((nat \<times> ExtractionField) \<times> parser) res" where
  "explicitField U p =
     (let name = curVal p; p1 = skip U p
      in if curTyp p1 = TokEq then
           let p2 = skip U p1
           in if curTyp p2 \<noteq> TokString \<and> curTyp p2 \<noteq> TokRawString then Err (syntaxError ''STRING'' p2)
              else Ok ((scPos p2, \<lparr>ef_Name = name, ef_Expression = curVal p2\<rparr>), skip U p2)
         else Ok ((scPos p, \<lparr>ef_Name = name, ef_Expression = name\<rparr>), p1))"

lemma explicitField_advP: "curTyp p \<noteq> TokEOF \<Longrightarrow> advP p (explicitField U p)"
  by (auto simp: explicitField_def Let_def intro!: adv_rules)

function explicitFields ::
  "unicode \<Rightarrow> nat \<Rightarrow> ExtractionField list \<Rightarrow> parser \<Rightarrow> ((nat \<times> ExtractionField list) \<times> parser) res" where
  "explicitFields U endPos fs p =
     (if curTyp p = TokIdent then
        bindR (explicitField U p) (\<lambda>(ef, p1).
        if curTyp p1 \<noteq> TokComma then Ok ((fst ef, fs @ [snd ef]), p1)
        else let p2 = skip U p1
             in if curTyp p2 \<noteq> TokIdent then Err (syntaxError ''IDENTIFIER'' p2)
                else explicitFields U (scPos p1) (fs @ [snd ef]) p2)
      else Ok ((endPos, fs), p))"
  by pat_completeness auto
termination
proof (relation "measure (\<lambda>(U, e, fs, p). remaining p)", goal_cases)
  case (2 U e fs p r x p1)
  then have "adv p p1" "adv p1 (skip U p1)"
    using explicitField_advP [of p U] by (auto simp: advP_def intro: adv_skip)
  with 2 show ?case by (simp add: adv_remaining adv_trans)
qed simp

declare explicitFields.simps [simp del]

definition consumeExplicitFieldList ::
  "unicode \<Rightarrow> nat \<Rightarrow> parser \<Rightarrow> ((string \<times> ExtractionField list) \<times> parser) res" where
  "consumeExplicitFieldList U start p =
     bindR (explicitFields U start [] p) (\<lambda>((endPos, fs), p1).
     bindR (goSlice (input p1) (int start) (int endPos)) (\<lambda>raw. Ok ((TrimSpace raw, fs), p1)))"

lemma explicitFields_leP: "leP p (explicitFields U e fs p)"
proof (induction U e fs p rule: explicitFields.induct)
  case (1 U e fs p)
  show ?case
  proof (cases "curTyp p = TokIdent")
    case True
    have step: "leP q (explicitFields U (scPos q) (fs @ [f]) (skip U q))"
      if "explicitField U p = Ok ((e1, f), q)" "curTyp q = TokComma" "curTyp (skip U q) = TokIdent" for e1 f q
      by (rule after_comma [OF 1 [OF True that(1) refl _ refl, unfolded snd_conv]]) (use that in auto)
    have "advP p (explicitFields U e fs p)"
      using True
      by (subst explicitFields.simps)
        (auto simp: Let_def step intro!: loop_leP explicitField_advP if_rules result_rules le_refl)
    then show ?thesis by (rule advP_leP)
  qed (subst explicitFields.simps, auto intro!: adv_rules)
qed

lemmas explicitFields_rules [adv_rules] = lift_leP [OF explicitFields_leP]

lemma consumeExplicitFieldList_leP: "leP p (consumeExplicitFieldList U start p)"
  by (auto simp: consumeExplicitFieldList_def intro!: adv_rules)

lemmas consumeExplicitFieldList_rules [adv_rules] = lift_leP [OF consumeExplicitFieldList_leP]

text \<open>One entry of a label format list, with the text so far.\<close>

definition labelFormatEntry :: "unicode \<Rightarrow> string \<Rightarrow> parser \<Rightarrow> ((string \<times> LabelFormat) \<times> parser) res" where
  "labelFormatEntry U raw p =
     (if curTyp p \<noteq> TokIdent then Err (syntaxError ''IDENTIFIER'' p)
      else let name = curVal p; raw1 = appendStageToken U raw (cur p); p1 = skip U p
           in if curTyp p1 \<noteq> TokEq then Err (syntaxError ''='' p1)
              else let raw2 = appendStageToken U raw1 (cur p1); p2 = skip U p1
                   in if curTyp p2 = TokString \<or> curTyp p2 = TokRawString \<or> curTyp p2 = TokIdent
                      then Ok ((appendStageToken U raw2 (cur p2),
                                \<lparr>fm_Name = name, fm_Value = curVal p2, fm_Rename = (curTyp p2 = TokIdent)\<rparr>), skip U p2)
                      else Err (syntaxError ''IDENTIFIER or STRING'' p2))"

lemma labelFormatEntry_advP: "advP p (labelFormatEntry U raw p)"
  by (auto simp: labelFormatEntry_def Let_def intro!: adv_rules)

function labelFormatLoop :: "unicode \<Rightarrow> string \<Rightarrow> LabelFormat list \<Rightarrow> parser \<Rightarrow> (Stage \<times> parser) res" where
  "labelFormatLoop U raw formats p =
     bindR (labelFormatEntry U raw p) (\<lambda>(rf, p1).
     if curTyp p1 \<noteq> TokComma then Ok (LabelFormatStage (fst rf) (formats @ [snd rf]), p1)
     else labelFormatLoop U (appendStageToken U (fst rf) (cur p1)) (formats @ [snd rf]) (skip U p1))"
  by pat_completeness auto
termination
proof (relation "measure (\<lambda>(U, raw, fs, p). remaining p)", goal_cases)
  case (2 U raw fs p r x p1)
  then have "adv p p1" "adv p1 (skip U p1)"
    using labelFormatEntry_advP [of p U raw] by (auto simp: advP_def intro: adv_skip)
  with 2 show ?case by (simp add: adv_remaining adv_trans)
qed simp

declare labelFormatLoop.simps [simp del]

definition parseLabelFormat :: "unicode \<Rightarrow> parser \<Rightarrow> (Stage \<times> parser) res" where
  "parseLabelFormat U p = labelFormatLoop U [] [] p"

lemma labelFormatLoop_advP: "advP p (labelFormatLoop U raw fs p)"
proof (induction U raw fs p rule: labelFormatLoop.induct)
  case (1 U raw fs p)
  have step: "leP q (labelFormatLoop U (appendStageToken U raw1 (cur q)) (fs @ [f]) (skip U q))"
    if "labelFormatEntry U raw p = Ok ((raw1, f), q)" "curTyp q = TokComma" for raw1 f q
    by (rule after_comma [OF advP_leP [OF 1 [OF that(1) refl, unfolded fst_conv snd_conv]]]) (use that in auto)
  show ?case
    by (subst labelFormatLoop.simps)
      (auto simp: step intro!: loop_leP labelFormatEntry_advP if_rules result_rules le_refl)
qed

lemmas parseLabelFormat_rules [adv_rules] =
  lift_advP [OF labelFormatLoop_advP [where raw = "[]" and fs = "[]", folded parseLabelFormat_def]]

subsection \<open>Unwrap\<close>

function skipToBracket :: "unicode \<Rightarrow> parser \<Rightarrow> parser" where
  "skipToBracket U p = (if curTyp p \<noteq> TokRBracket \<and> curTyp p \<noteq> TokEOF then skipToBracket U (skip U p) else p)"
  by pat_completeness auto
termination
  by (relation "measure (\<lambda>(U, p). remaining p)") (auto intro!: adv_remaining adv_rules)

declare skipToBracket.simps [simp del]

definition consumeRange :: "unicode \<Rightarrow> parser \<Rightarrow> parser" where
  "consumeRange U p =
     (if curTyp p \<noteq> TokLBracket then p
      else let p1 = skipToBracket U (skip U p) in if curTyp p1 = TokRBracket then skip U p1 else p1)"

definition parseUnwrap :: "unicode \<Rightarrow> parser \<Rightarrow> (Stage \<times> parser) res" where
  "parseUnwrap U p =
     (if curTyp p = TokLBracket then Ok (UnwrapStage [] [], consumeRange U p)
      else if curTyp p \<noteq> TokIdent then Err (Errorf ''logql: expected label name after unwrap'')
      else let name = curVal p; p1 = skip U p
           in if curTyp p1 = TokLParen then
                let p2 = skip U p1
                in if curTyp p2 = TokRParen then Ok (UnwrapStage [] name, consumeRange U (skip U p2))
                   else bindR (expect U TokIdent p2) (\<lambda>(label, p3).
                        bindR (expect U TokRParen p3) (\<lambda>(_, p4). Ok (UnwrapStage (Val label) name, p4)))
              else Ok (UnwrapStage name [], p1))"

lemma skipToBracket_le: "le p (skipToBracket U p)"
proof (induction U p rule: skipToBracket.induct)
  case (1 U p)
  then show ?case
    by (subst skipToBracket.simps) (auto intro: le_trans [OF skip_rules(1) [OF le_refl]])
qed

lemma consumeRange_le: "le p (consumeRange U p)"
  by (auto simp: consumeRange_def Let_def intro!: adv_rules le_trans [OF _ skipToBracket_le])

lemma consumeRange_rules [adv_rules]: "le p q \<Longrightarrow> le p (consumeRange U q)"
  by (rule le_trans [OF _ consumeRange_le])

lemma parseUnwrap_leP: "leP p (parseUnwrap U p)"
  by (auto simp: parseUnwrap_def Let_def intro!: adv_rules)

lemmas parseUnwrap_rules [adv_rules] = lift_leP [OF parseUnwrap_leP]

subsection \<open>Pipeline stages and log queries\<close>

text \<open>The parsers \<^verbatim>\<open>json\<close> and \<^verbatim>\<open>logfmt\<close> take a field list, the others below one string.\<close>

definition fieldListStage :: "unicode \<Rightarrow> ParserType \<Rightarrow> parser \<Rightarrow> (Stage \<times> parser) res" where
  "fieldListStage U typ p =
     bindR (consumeExplicitFieldList U (scPos p) (skip U p)) (\<lambda>((param, fs), p1). Ok (ParserStage typ param fs, p1))"

definition stringStage :: "unicode \<Rightarrow> (string \<Rightarrow> Stage) \<Rightarrow> parser \<Rightarrow> (Stage \<times> parser) res" where
  "stringStage U mk p = bindR (expectStringOrRaw U (skip U p)) (\<lambda>(v, p1). Ok (mk v, p1))"

definition parsePipeBody :: "unicode \<Rightarrow> parser \<Rightarrow> (Stage \<times> parser) res" where
  "parsePipeBody U p =
     (if curTyp p = TokLParen then (let (raw, p1) = consumeRestOfStage U p in Ok (LabelFilterStage raw, p1))
      else if curTyp p \<noteq> TokIdent
      then Err (Errorf (''logql: expected stage name after |, got '' @ TokType_String (curTyp p)))
      else let kw = curVal p
           in if kw = ''json'' then fieldListStage U ParserJSON p
              else if kw = ''logfmt'' then fieldListStage U ParserLogfmt p
              else if kw = ''regexp'' then stringStage U (\<lambda>v. ParserStage ParserRegexp v []) p
              else if kw = ''pattern'' then stringStage U (\<lambda>v. ParserStage ParserPattern v []) p
              else if kw = ''unpack'' then Ok (ParserStage ParserUnpack [] [], skip U p)
              else if kw = ''drop'' then
                bindR (parseDropKeepList U (skip U p)) (\<lambda>((ls, ms), p1). Ok (DropStage ls ms, p1))
              else if kw = ''keep'' then
                bindR (parseDropKeepList U (skip U p)) (\<lambda>((ls, ms), p1). Ok (KeepStage ls ms, p1))
              else if kw = ''decolorize'' then Ok (DecolorizeStage, skip U p)
              else if kw = ''unwrap'' then parseUnwrap U (skip U p)
              else if kw = ''line_format'' then stringStage U LineFormatStage p
              else if kw = ''label_format'' then parseLabelFormat U (skip U p)
              else let p1 = skip U p
                   in if curTyp p1 = TokIdent
                      then Err (Errorf (''logql: parse error: unexpected identifier '' @ Quote U (curVal p1) @
                                        '' after '' @ Quote U kw @ '' in pipeline stage''))
                      else if curTyp p1 = TokLParen
                      then Err (Errorf (''logql: parse error: unexpected '' @ kw))
                      else let (raw, p2) = consumeRestOfStage U p1 in Ok (LabelFilterStage (kw @ raw), p2))"

lemma parsePipeBody_leP: "leP p (parsePipeBody U p)"
  by (auto simp: parsePipeBody_def fieldListStage_def stringStage_def Let_def split_beta intro!: adv_rules)

lemmas parsePipeBody_rules [adv_rules] = lift_leP [OF parsePipeBody_leP]

text \<open>\<open>None\<close> stands for the nil stage that ends a pipeline.\<close>

definition parsePipelineStage :: "unicode \<Rightarrow> parser \<Rightarrow> (Stage option \<times> parser) res" where
  "parsePipelineStage U p =
     (if isLineFilterOperator (curTyp p) then bindR (parseLineFilterStage U p) (\<lambda>(s, p1). Ok (Some s, p1))
      else if curTyp p = TokPipe then bindR (parsePipeBody U (skip U p)) (\<lambda>(s, p1). Ok (Some s, p1))
      else Ok (None, p))"

lemma parsePipelineStage_adv:
  assumes "parsePipelineStage U p = Ok (Some s, p')"
  shows "adv p p'"
proof -
  have "curTyp p \<noteq> TokEOF" using assms by (auto simp: parsePipelineStage_def isLineFilterOperator_def split: if_splits)
  with parseLineFilterStage_advP [of p U] have "advP p (parsePipelineStage U p)" if "isLineFilterOperator (curTyp p)"
    using that by (auto simp: parsePipelineStage_def intro!: adv_rules)
  moreover have "leP (skip U p) (parsePipelineStage U p)" if "curTyp p = TokPipe"
    using that by (auto simp: parsePipelineStage_def isLineFilterOperator_def intro!: adv_rules)
  ultimately show ?thesis
    using assms adv_skip [of p U]
    by (cases "isLineFilterOperator (curTyp p)"; cases "curTyp p = TokPipe")
      (auto simp: parsePipelineStage_def advP_def leP_def intro: adv_le_trans)
qed

lemma parsePipelineStage_None: "parsePipelineStage U p = Ok (None, p') \<Longrightarrow> p' = p"
  by (cases "parseLineFilterStage U p"; cases "parsePipeBody U (skip U p)")
    (auto simp: parsePipelineStage_def split: if_splits)

function stageLoop :: "unicode \<Rightarrow> Stage list \<Rightarrow> parser \<Rightarrow> (Stage list \<times> parser) res" where
  "stageLoop U pipeline p =
     bindR (parsePipelineStage U p) (\<lambda>(stage, p1).
     case stage of None \<Rightarrow> Ok (pipeline, p1) | Some s \<Rightarrow> stageLoop U (pipeline @ [s]) p1)"
  by pat_completeness auto
termination
  by (relation "measure (\<lambda>(U, ss, p). remaining p)") (auto intro: adv_remaining parsePipelineStage_adv)

declare stageLoop.simps [simp del]

definition parseLogQuery :: "unicode \<Rightarrow> parser \<Rightarrow> (LogQuery \<times> parser) res" where
  "parseLogQuery U p =
     bindR (parseStreamSelector U p) (\<lambda>(sel, p1).
     bindR (stageLoop U [] p1) (\<lambda>(pipeline, p2). Ok (\<lparr>Selector = sel, Pipeline = pipeline\<rparr>, p2)))"

lemma stageLoop_leP: "leP p (stageLoop U ss p)"
proof (induction U ss p rule: stageLoop.induct)
  case (1 U ss p)
  show ?case
  proof (cases "parsePipelineStage U p")
    case (Ok r)
    obtain st q where r: "r = (st, q)" by fastforce
    show ?thesis
    proof (cases st)
      case None
      then show ?thesis
        using parsePipelineStage_None [of U p q] Ok r by (subst stageLoop.simps) (auto intro!: adv_rules)
    next
      case (Some s)
      then have "adv p q" using parsePipelineStage_adv Ok r by blast
      moreover have "leP q (stageLoop U (ss @ [s]) q)" using 1 Ok r Some by blast
      ultimately have "leP p (stageLoop U (ss @ [s]) q)" by (auto simp: leP_def le_def intro: adv_trans)
      then show ?thesis using Ok r Some by (subst stageLoop.simps) simp
    qed
  qed (subst stageLoop.simps, auto intro!: adv_rules)+
qed

lemmas stageLoop_rules [adv_rules] = lift_leP [OF stageLoop_leP]

lemma parseLogQuery_advP: "advP p (parseLogQuery U p)"
  by (auto simp: parseLogQuery_def intro!: adv_rules)

lemmas parseLogQuery_rules [adv_rules] = lift_advP [OF parseLogQuery_advP]

end
