(* ===== verification/LogqlExprParser.thy ===== *)
theory LogqlExprParser
  imports LogqlParser
begin

text \<open>
  The metric part of \<^verbatim>\<open>internal/logql/parser.go\<close>: literals, aggregations, binary
  operators by precedence climbing, opaque function calls, and the entry points \<open>Parse\<close> and
  \<open>ParseLogQuery\<close>. The five mutually recursive methods take a fuel argument that every call
  lowers by one; \<open>Loop\<close> is the result without fuel.

  The lemmas show that the fuel \<open>4 * len + 8\<close> that \<open>Parse\<close> starts with is always enough and that
  no slice expression is out of range, so \<open>Parse\<close> returns a tree or an error for every input.
\<close>

subsection \<open>Helpers\<close>

text \<open>The loop of \<open>consumeBalancedParens\<close>: depth and end position so far.\<close>

function balancedParens :: "unicode \<Rightarrow> nat \<Rightarrow> nat \<Rightarrow> parser \<Rightarrow> (nat \<times> nat) \<times> parser" where
  "balancedParens U depth endPos p =
     (if 0 < depth \<and> curTyp p \<noteq> TokEOF then
        balancedParens U
          (if curTyp p = TokLParen then depth + 1 else if curTyp p = TokRParen then depth - 1 else depth)
          (if curTyp p = TokRParen \<and> depth = 1 then scPos p else endPos) (skip U p)
      else ((depth, endPos), p))"
  by pat_completeness auto
termination
  by (relation "measure (\<lambda>(U, depth, endPos, p). remaining p)") (auto intro!: adv_remaining adv_rules)

declare balancedParens.simps [simp del]

definition consumeBalancedParens :: "unicode \<Rightarrow> parser \<Rightarrow> nat option \<times> parser" where
  "consumeBalancedParens U p =
     (let ((depth, endPos), p1) = balancedParens U 1 0 p in (if depth \<noteq> 0 then None else Some endPos, p1))"

definition binaryPrecedence :: "TokType \<Rightarrow> nat" where
  "binaryPrecedence t =
     (case t of
        TokOr \<Rightarrow> 1
      | TokAnd \<Rightarrow> 2 | TokUnless \<Rightarrow> 2
      | TokEqEq \<Rightarrow> 3 | TokBangEq \<Rightarrow> 3 | TokLt \<Rightarrow> 3 | TokLtEq \<Rightarrow> 3 | TokGt \<Rightarrow> 3 | TokGtEq \<Rightarrow> 3
      | TokPlus \<Rightarrow> 4 | TokMinus \<Rightarrow> 4
      | TokStar \<Rightarrow> 5 | TokSlash \<Rightarrow> 5 | TokPercent \<Rightarrow> 5
      | TokCaret \<Rightarrow> 6
      | _ \<Rightarrow> 0)"

text \<open>The modifiers behind a binary operator: \<^verbatim>\<open>bool\<close>, then \<^verbatim>\<open>on\<close> or
  \<^verbatim>\<open>ignoring\<close> with an optional grouping side.\<close>

definition parseVectorMatching :: "unicode \<Rightarrow> parser \<Rightarrow> (VectorMatching option \<times> parser) res" where
  "parseVectorMatching U p =
     (if curTyp p = TokOn \<or> curTyp p = TokIgnoring then
        let card = curVal p
        in bindR (parseLabelList U (skip U p)) (\<lambda>(labels, p1).
           if curTyp p1 = TokGroupLeft \<or> curTyp p1 = TokGroupRight then
             let side = curVal p1
             in bindR (parseLabelList U (skip U p1)) (\<lambda>(incl, p2).
                Ok (Some \<lparr>vm_Card = card, vm_MatchLabels = labels, vm_GroupSide = side, vm_Include = incl\<rparr>, p2))
           else Ok (Some \<lparr>vm_Card = card, vm_MatchLabels = labels, vm_GroupSide = [], vm_Include = []\<rparr>, p1))
      else Ok (None, p))"

text \<open>A number token as the parameter of \<^verbatim>\<open>quantile_over_time\<close>, and the comma behind it.\<close>

definition quantileNumber :: "unicode \<Rightarrow> (float64 \<Rightarrow> float64) \<Rightarrow> parser \<Rightarrow> (float64 option \<times> parser) res" where
  "quantileNumber U sign p =
     (case ParseFloat (curVal p) of
        Inl e \<Rightarrow> Err (Errorf (''logql: invalid phi: '' @ numError_String U ''ParseFloat'' (curVal p) e))
      | Inr phi \<Rightarrow> bindR (expect U TokComma (skip U p)) (\<lambda>(_, p1). Ok (Some (sign phi), p1)))"

definition parseQuantileParam :: "unicode \<Rightarrow> parser \<Rightarrow> (float64 option \<times> parser) res" where
  "parseQuantileParam U p =
     (if curTyp p = TokNumber then quantileNumber U id p
      else if curTyp p = TokMinus then
        let p1 = skip U p
        in if curTyp p1 \<noteq> TokNumber then Err (Errorf ''logql: expected number after '-' in quantile_over_time'')
           else quantileNumber U f64_uminus p1
      else Ok (None, p))"

text \<open>The probe of \<open>checkRangeAggregationArgument\<close>: skips opening parentheses.\<close>

function probeParens :: "unicode \<Rightarrow> string \<Rightarrow> parser \<Rightarrow> string \<times> parser" where
  "probeParens U expecting p =
     (if curTyp p = TokLParen then probeParens U ''{ or ('' (skip U p) else (expecting, p))"
  by pat_completeness auto
termination
  by (relation "measure (\<lambda>(U, expecting, p). remaining p)") (auto intro!: adv_remaining adv_rules)

declare probeParens.simps [simp del]

definition checkRangeAggregationArgument :: "unicode \<Rightarrow> bool \<Rightarrow> parser \<Rightarrow> goError option" where
  "checkRangeAggregationArgument U numberAllowed p =
     (let (expecting, probe) = probeParens U (if numberAllowed then ''NUMBER or { or ('' else ''{ or ('') p
      in if curTyp probe = TokLBrace then None
         else let msg = ''syntax error: unexpected '' @ lokiTokenName (cur probe) @ '', expecting '' @ expecting
              in Some (if curTyp probe = TokEOF then newParseError 1 (int (length (input p)) + 1) msg
                       else if curTyp probe = TokIdent \<or> curTyp probe = TokNumber
                       then newParseError 1 (int (scPos probe) - int (length (curVal probe)) + 1) msg
                       else newParseError 0 0 msg))"

definition durationUnit :: "string \<Rightarrow> string" where
  "durationUnit d = rev (takeWhile (\<lambda>c. \<not> is_digit c) (rev d))"

text \<open>
  The rest of a range aggregation behind its argument: the range, an optional offset, an optional
  \<^verbatim>\<open>@\<close> modifier, which is parsed and dropped, and the closing parenthesis.
\<close>

definition parseAtModifier :: "unicode \<Rightarrow> parser \<Rightarrow> (unit \<times> parser) res" where
  "parseAtModifier U p =
     (if curTyp p = TokAt then
        let p1 = skip U p
        in if curTyp p1 = TokNumber then Ok ((), skip U p1)
           else if curTyp p1 = TokIdent \<and> (curVal p1 = ''start'' \<or> curVal p1 = ''end'') then
             bindR (mapErr (\<lambda>_. Errorf ''logql: expected '(' after start/end in @ modifier'') (expect U TokLParen (skip U p1))) (\<lambda>(_, p2).
             bindR (mapErr (\<lambda>_. Errorf ''logql: expected ')' after start/end in @ modifier'') (expect U TokRParen p2)) (\<lambda>(_, p3).
             Ok ((), p3)))
           else Err (Errorf (''logql: expected unix timestamp or start()/end() after @, got '' @ curVal p1))
      else Ok ((), p))"

definition parseRange :: "unicode \<Rightarrow> parser \<Rightarrow> ((string \<times> string) \<times> parser) res" where
  "parseRange U p =
     (let bracketCol = int (scPos p)
      in bindR (mapErr (\<lambda>_. Errorf (''logql: expected '[' for range, got '' @ TokType_String (curTyp p) @
                                    '' ('' @ Quote U (curVal p) @ '')'')) (expect U TokLBracket p)) (\<lambda>(_, p1).
         bindR (mapErr (\<lambda>m. Errorf (''logql: expected duration: '' @ m)) (expect U TokDuration p1)) (\<lambda>(dur, p2).
         if curTyp p2 = TokError \<and> curVal p2 = '':'' then
           let p3 = skip U p2; lit = Val dur @ '':'' @ (if curTyp p3 = TokDuration then curVal p3 else [])
           in Err (newParseError 0 bracketCol
                     (''unknown unit '' @ Quote U (durationUnit (Val dur) @ '':'') @ '' in duration '' @ Quote U lit))
         else bindR (expect U TokRBracket p2) (\<lambda>(_, p3).
              bindR (if curTyp p3 = TokIdent \<and> curVal p3 = ''offset'' then
                       bindR (mapErr (\<lambda>m. Errorf (''logql: expected duration after offset: '' @ m))
                                (expect U TokDuration (skip U p3))) (\<lambda>(off, p4). Ok (Val off, p4))
                     else Ok ([], p3)) (\<lambda>(offset, p4).
              bindR (parseAtModifier U p4) (\<lambda>(_, p5).
              bindR (expect U TokRParen p5) (\<lambda>(_, p6). Ok ((Val dur, offset), p6))))))))"

text \<open>The parameter of \<^verbatim>\<open>topk\<close> and \<^verbatim>\<open>bottomk\<close>.\<close>

definition parseK :: "unicode \<Rightarrow> VectorOp \<Rightarrow> parser \<Rightarrow> (float64 option \<times> parser) res" where
  "parseK U oper p =
     (if oper = VectorTopK \<or> oper = VectorBottomK then
        bindR (mapErr (\<lambda>_. Errorf (''logql: '' @ VectorOp_String oper @ '' requires a numeric k parameter''))
                 (expect U TokNumber p)) (\<lambda>(kTok, p1).
        case Atoi (Val kTok) of
          Inl e \<Rightarrow> Err (newParseError 0 0 (''invalid parameter '' @ VectorOp_String oper @ ''('' @ Val kTok @ '',''))
        | Inr k \<Rightarrow>
            if k \<le> 0
            then Err (newParseError 0 0 (''invalid parameter (must be greater than 0) '' @ VectorOp_String oper @
                                         ''('' @ Val kTok))
            else bindR (mapErr (\<lambda>_. Errorf (''logql: expected ',' after k in '' @ VectorOp_String oper))
                          (expect U TokComma p1)) (\<lambda>(_, p2). Ok (Some (float64_of_int k), p2)))
      else Ok (None, p))"

definition parseOptGrouping :: "unicode \<Rightarrow> parser \<Rightarrow> (Grouping option \<times> parser) res" where
  "parseOptGrouping U p =
     (if curTyp p = TokBy \<or> curTyp p = TokWithout then bindR (parseGrouping U p) (\<lambda>(g, p1). Ok (Some g, p1))
      else Ok (None, p))"

text \<open>An unknown function: its text up to the matching parenthesis.\<close>

definition parseOpaque :: "unicode \<Rightarrow> parser \<Rightarrow> (Expr \<times> parser) res" where
  "parseOpaque U p =
     (let startPos = int (scPos p) - int (length (curVal p)); name = curVal p; p1 = skip U p
      in if curTyp p1 = TokLParen then
           (case consumeBalancedParens U (skip U p1) of
              (None, p2) \<Rightarrow> Err (Errorf (''logql: unterminated '(' after '' @ Quote U name))
            | (Some endPos, p2) \<Rightarrow>
                if int endPos < startPos then Err (Errorf (''logql: unterminated '(' after '' @ Quote U name))
                else bindR (goSlice (input p) startPos (int endPos)) (\<lambda>raw. Ok (EOpaque (TrimSpace raw), p2)))
         else Err (Errorf (''logql: unexpected identifier '' @ Quote U name)))"

definition parseNumber :: "unicode \<Rightarrow> (float64 \<Rightarrow> float64) \<Rightarrow> parser \<Rightarrow> (Expr \<times> parser) res" where
  "parseNumber U sign p =
     (case ParseFloat (curVal p) of
        Inl e \<Rightarrow> Err (Errorf (''logql: invalid number '' @ Quote U (curVal p)))
      | Inr v \<Rightarrow> Ok (ELiteral (sign v), skip U p))"

fun is_LogQuery :: "Expr \<Rightarrow> bool" where
  "is_LogQuery (ELogQuery q) = True"
| "is_LogQuery _ = False"

subsection \<open>Expressions\<close>

fun parseExpr :: "unicode \<Rightarrow> nat \<Rightarrow> parser \<Rightarrow> (Expr \<times> parser) res"
and parsePrimary :: "unicode \<Rightarrow> nat \<Rightarrow> parser \<Rightarrow> (Expr \<times> parser) res"
and parseBinaryRHS :: "unicode \<Rightarrow> nat \<Rightarrow> Expr \<Rightarrow> nat \<Rightarrow> parser \<Rightarrow> (Expr \<times> parser) res"
and parseVectorAggregation :: "unicode \<Rightarrow> nat \<Rightarrow> VectorOp \<Rightarrow> parser \<Rightarrow> (Expr \<times> parser) res"
and parseRangeAggregation :: "unicode \<Rightarrow> nat \<Rightarrow> RangeOp \<Rightarrow> parser \<Rightarrow> (Expr \<times> parser) res"
where
  "parseExpr U 0 p = Loop"
| "parseExpr U (Suc n) p = bindR (parsePrimary U n p) (\<lambda>(lhs, p1). parseBinaryRHS U n lhs 1 p1)"
| "parsePrimary U 0 p = Loop"
| "parsePrimary U (Suc n) p =
     (if curTyp p = TokEOF then Err (Errorf ''logql: empty expression'')
      else if curTyp p = TokNumber then parseNumber U id p
      else if curTyp p = TokMinus then
        (if curTyp (skip U p) \<noteq> TokNumber then Err (Errorf (''logql: expected number after '-'' @ [CHR 0x27]))
         else parseNumber U f64_uminus (skip U p))
      else if curTyp p = TokIdent then
        (case map_of vectorOps (curVal p) of
           Some oper \<Rightarrow> parseVectorAggregation U n oper p
         | None \<Rightarrow>
             (case map_of rangeOps (curVal p) of
                Some oper \<Rightarrow> parseRangeAggregation U n oper p
              | None \<Rightarrow> parseOpaque U p))
      else if curTyp p = TokLParen then
        bindR (parseExpr U n (skip U p)) (\<lambda>(inner, p1).
        bindR (expect U TokRParen p1) (\<lambda>(_, p2). Ok (inner, p2)))
      else if curTyp p = TokLBrace then bindR (parseLogQuery U p) (\<lambda>(q, p1). Ok (ELogQuery q, p1))
      else Err (Errorf (''logql: unexpected token '' @ TokType_String (curTyp p) @
                        '' ('' @ Quote U (curVal p) @ '')'')))"
| "parseBinaryRHS U 0 lhs minPrecedence p = Loop"
| "parseBinaryRHS U (Suc n) lhs minPrecedence p =
     (let precedence = binaryPrecedence (curTyp p)
      in if precedence < minPrecedence then Ok (lhs, p)
         else let oper = curVal p; p1 = skip U p;
                  returnBool = (curTyp p1 = TokIdent \<and> curVal p1 = ''bool'');
                  p2 = (if returnBool then skip U p1 else p1)
              in bindR (parseVectorMatching U p2) (\<lambda>(vm, p3).
                 bindR (parsePrimary U n p3) (\<lambda>(rhs, p4).
                 bindR (parseBinaryRHS U n rhs (if oper = ''^'' then precedence else precedence + 1) p4) (\<lambda>(rhs', p5).
                 parseBinaryRHS U n (EBinOp lhs rhs' oper returnBool vm) minPrecedence p5))))"
| "parseVectorAggregation U 0 oper p = Loop"
| "parseVectorAggregation U (Suc n) oper p =
     bindR (parseOptGrouping U (skip U p)) (\<lambda>(g, p1).
     bindR (expect U TokLParen p1) (\<lambda>(_, p2).
     bindR (parseK U oper p2) (\<lambda>(k, p3).
     bindR (parseExpr U n p3) (\<lambda>(inner, p4).
     bindR (expect U TokRParen p4) (\<lambda>(_, p5).
     bindR (if g = None then parseOptGrouping U p5 else Ok (g, p5)) (\<lambda>(g', p6).
     Ok (EVectorAgg oper g' k inner, p6)))))))"
| "parseRangeAggregation U 0 oper p = Loop"
| "parseRangeAggregation U (Suc n) oper p =
     bindR (expect U TokLParen (skip U p)) (\<lambda>(_, p1).
     bindR (if oper = RangeQuantileOverTime then parseQuantileParam U p1 else Ok (None, p1)) (\<lambda>(phi, p2).
     case checkRangeAggregationArgument U (phi = None) p2 of
       Some e \<Rightarrow> Err e
     | None \<Rightarrow>
         bindR (if curTyp p2 = TokLBrace then bindR (parseLogQuery U p2) (\<lambda>(q, p3). Ok (ELogQuery q, p3))
                else bindR (parsePrimary U n p2) (\<lambda>(inner, p3).
                     if is_LogQuery inner then Ok (inner, p3)
                     else Err (newParseError 0 0
                            ''syntax error: unexpected expression in range aggregation, expecting { or (''))) (\<lambda>(inner, p3).
         bindR (parseRange U p3) (\<lambda>(ro, p4).
         bindR (parseOptGrouping U p4) (\<lambda>(g, p5).
         Ok (ERangeAgg oper inner (fst ro) (snd ro) phi g, p5))))))"

subsection \<open>Entry points\<close>

definition Parse :: "unicode \<Rightarrow> string \<Rightarrow> Expr res" where
  "Parse U inp =
     bindR (parseExpr U (4 * length inp + 8) (skip U (newParser inp))) (\<lambda>(expr, p).
     if curTyp p \<noteq> TokEOF
     then Err (Errorf (''logql: unexpected token '' @ Quote U (curVal p) @ '' at position '' @ Itoa (int (scPos p))))
     else Ok expr)"

fun expr_typeName :: "Expr \<Rightarrow> string" where
  "expr_typeName (ELogQuery q) = ''*logql.LogQuery''"
| "expr_typeName (ERangeAgg oper inner rng offset phi g) = ''*logql.RangeAggregation''"
| "expr_typeName (EVectorAgg oper g k inner) = ''*logql.VectorAggregation''"
| "expr_typeName (EBinOp l r oper b vm) = ''*logql.BinOpExpr''"
| "expr_typeName (ELiteral v) = ''*logql.LiteralExpr''"
| "expr_typeName (EOpaque raw) = ''*logql.OpaqueMetricExpr''"

definition ParseLogQuery :: "unicode \<Rightarrow> string \<Rightarrow> LogQuery res" where
  "ParseLogQuery U inp =
     bindR (Parse U inp) (\<lambda>expr.
     case expr of ELogQuery q \<Rightarrow> Ok q
     | _ \<Rightarrow> Err (Errorf (''logql: expression is not a log query: '' @ expr_typeName expr)))"

end
