(* ===== verification/LogqlLex.thy ===== *)
theory LogqlLex
  imports LogqlExprParser
begin

text \<open>
  Reading back printed tokens. A printed query is a list of lexemes, each with or without a space
  in front; \<open>lex_ok\<close> says that no lexeme runs into the next one. The theory shows that the
  scanner returns exactly the tokens of such a text: identifiers and keywords, strings as
  \<open>Quote\<close> prints them, raw strings, numbers, durations and operators.
\<close>

subsection \<open>The scanner at a text\<close>

definition at_text :: "scanner \<Rightarrow> string \<Rightarrow> bool" where
  "at_text s t \<longleftrightarrow> pos s \<le> length (src s) \<and> drop (pos s) (src s) = t"

definition mv :: "nat \<Rightarrow> scanner \<Rightarrow> scanner" where
  "mv n s = s\<lparr>pos := pos s + n\<rparr>"

lemma mv_simps [simp]: "src (mv n s) = src s" "pos (mv n s) = pos s + n" "braceDepth (mv n s) = braceDepth s"
  "mv 0 s = s" "mv m (mv n s) = mv (n + m) s"
  by (simp_all add: mv_def add.assoc)

lemma at_mv: "at_text s (u @ t) \<Longrightarrow> n = length u \<Longrightarrow> at_text (mv n s) t"
proof -
  assume a: "at_text s (u @ t)" "n = length u"
  then have "length (src s) - pos s = length u + length t" unfolding at_text_def by (metis length_append length_drop)
  moreover have "drop (length u + pos s) (src s) = t"
    using a by (metis append_eq_conv_conj at_text_def drop_drop)
  moreover have "pos s \<le> length (src s)" using a by (simp add: at_text_def)
  ultimately show "at_text (mv n s) t" unfolding at_text_def a(2) by (simp add: add.commute)
qed

lemma at_Cons: "at_text s (c # t) \<Longrightarrow> at_text (mv (Suc 0) s) t"
  using at_mv [of s "[c]" t 1] by simp

lemma at_nonempty: "at_text s t \<Longrightarrow> t \<noteq> [] \<Longrightarrow> pos s < length (src s)"
  by (auto simp: at_text_def)

lemma at_peek: "at_text s t \<Longrightarrow> t \<noteq> [] \<Longrightarrow> peek s = decodeRune t"
  using at_nonempty [of s t] by (simp add: peek_def at_text_def)

lemma at_peek_ascii: "at_text s (c # t) \<Longrightarrow> byte_of c < 128 \<Longrightarrow> peek s = (byte_of c, 1)"
  by (simp add: at_peek)

lemma at_peek_end: "at_text s [] \<Longrightarrow> peek s = (0, 0)"
  by (auto simp: at_text_def peek_def)

lemma at_read_ascii: "at_text s (c # t) \<Longrightarrow> byte_of c < 128 \<Longrightarrow> read s = (byte_of c, mv 1 s)"
  by (simp add: read_def at_peek_ascii mv_def)

lemma at_peek_rune: "at_text s (encodeRune r @ t) \<Longrightarrow> ValidRune r \<Longrightarrow> peek s = (r, length (encodeRune r))"
  by (simp add: at_peek encodeRune_decode)

lemma at_read_rune: "at_text s (encodeRune r @ t) \<Longrightarrow> ValidRune r \<Longrightarrow> read s = (r, mv (length (encodeRune r)) s)"
  by (simp add: read_def at_peek_rune mv_def)

lemma at_slice:
  assumes "at_text s (u @ t)"
  shows "slice (src s) (pos s) (pos s + length u) = u"
  using assms by (simp add: at_text_def slice_def)

text \<open>A run of ASCII characters that a loop keeps, and then one that it does not.\<close>

lemma scanWhile_stop: "snd (peek s) = 0 \<or> \<not> keep (fst (peek s)) \<Longrightarrow> scanWhile keep s = s"
  by (subst scanWhile.simps) (auto simp: split_beta Let_def)

lemma scanWhile_step: "peek s = (r, n) \<Longrightarrow> 0 < n \<Longrightarrow> keep r \<Longrightarrow> scanWhile keep s = scanWhile keep (mv n s)"
  by (subst scanWhile.simps) (simp add: mv_def)

definition stops_at :: "(rune \<Rightarrow> bool) \<Rightarrow> string \<Rightarrow> bool" where
  "stops_at keep t \<longleftrightarrow> t = [] \<or> (byte_of (hd t) < 128 \<and> \<not> keep (byte_of (hd t)))"

lemma scanWhile_at_stop: "at_text s t \<Longrightarrow> stops_at keep t \<Longrightarrow> scanWhile keep s = s"
  by (rule scanWhile_stop, cases t) (auto simp: stops_at_def at_peek_end at_peek_ascii)

lemma scanWhile_run:
  assumes "at_text s (u @ t)" "list_all (\<lambda>c. byte_of c < 128 \<and> keep (byte_of c)) u" "stops_at keep t"
  shows "scanWhile keep s = mv (length u) s"
  using assms
proof (induction u arbitrary: s)
  case Nil
  then show ?case by (simp add: scanWhile_at_stop)
next
  case (Cons c u)
  then have "peek s = (byte_of c, 1)" "keep (byte_of c)" by (auto simp: at_peek_ascii)
  then have "scanWhile keep s = scanWhile keep (mv 1 s)" by (intro scanWhile_step) auto
  also have "\<dots> = mv (length u) (mv 1 s)" using Cons at_Cons by (intro Cons.IH) auto
  finally show ?case by simp
qed

subsection \<open>Quoted and raw strings\<close>

text \<open>Text between double quotes: plain runes, and backslashes with an ASCII character behind them.\<close>

inductive quoted_text :: "string \<Rightarrow> bool" where
  qt_nil: "quoted_text []"
| qt_rune: "ValidRune r \<Longrightarrow> r \<noteq> 34 \<Longrightarrow> r \<noteq> 92 \<Longrightarrow> quoted_text s \<Longrightarrow> quoted_text (encodeRune r @ s)"
| qt_esc: "byte_of c < 128 \<Longrightarrow> quoted_text s \<Longrightarrow> quoted_text (CHR 0x5C # c # s)"

lemma quoted_text_append: "quoted_text s \<Longrightarrow> quoted_text t \<Longrightarrow> quoted_text (s @ t)"
  by (induction rule: quoted_text.induct) (auto intro: quoted_text.intros)

lemma quoted_text_hex_digit:
  assumes "d < 16"
  shows "quoted_text [hex_digit d]"
proof -
  define r where "r = (if d < 10 then 48 + d else 87 + d)"
  have "encodeRune r @ [] = [hex_digit d]" using assms by (simp add: encodeRune_def r_def hex_digit_def)
  moreover have "quoted_text (encodeRune r @ [])"
    using assms by (intro qt_rune qt_nil) (auto simp: r_def ValidRune_def)
  ultimately show ?thesis by simp
qed

lemma quoted_text_hex: "quoted_text (to_hex n x)"
  by (induction n arbitrary: x) (auto intro!: quoted_text_append qt_nil quoted_text_hex_digit)

lemma quoted_text_escape_hex: "byte_of c < 128 \<Longrightarrow> quoted_text (CHR 0x5C # c # to_hex n x)"
  by (intro qt_esc quoted_text_hex)

lemma quoted_text_escapeRune:
  assumes "ValidRune r"
  shows "quoted_text (escapeRune U r)"
proof (cases "r \<noteq> 34 \<and> r \<noteq> 92 \<and> IsPrint U r")
  case True
  then show ?thesis using qt_rune [OF assms, of "[]"] by (simp add: escapeRune_def qt_nil)
next
  case False
  have e: "quoted_text [CHR 0x5C, c]" if "byte_of c < 128" for c by (intro qt_esc that qt_nil)
  from False show ?thesis
    by (auto simp: escapeRune_def Let_def intro!: e quoted_text_escape_hex)
qed

lemma quoted_text_quoteBody: "quoted_text (quoteBody U s)"
proof (induction s rule: measure_induct_rule [where f = length])
  case (less s)
  show ?case
  proof (cases "s = []")
    case True
    then show ?thesis by (simp add: quoteBody.simps qt_nil)
  next
    case False
    obtain r w where d: "decodeRune s = (r, w)" by fastforce
    with decodeRune_size [OF False] have "quoted_text (quoteBody U (drop w s))"
      using False by (intro less) auto
    then show ?thesis
      using False d decodeRune_encode [OF d False]
      by (subst quoteBody.simps) (auto intro!: quoted_text_append qt_esc quoted_text_hex quoted_text_escapeRune)
  qed
qed

lemma ValidString_rune: "ValidRune r \<Longrightarrow> ValidString (encodeRune r @ s) = ValidString s"
proof -
  assume v: "ValidRune r"
  have "decodeRune (encodeRune r @ s) \<noteq> (RuneError, 1)"
    using encodeRune_decode [OF v, of s] by (auto simp: RuneError_def encodeRune_def ValidRune_def)
  then show ?thesis
    using encodeRune_decode [OF v, of s] by (subst ValidString.simps) auto
qed

lemma ValidString_ascii: "byte_of c < 128 \<Longrightarrow> ValidString (c # s) = ValidString s"
  using ValidString_rune [of "byte_of c" s] by (simp add: encodeRune_ascii ValidRune_def)

lemma ValidString_quoted: "quoted_text t \<Longrightarrow> ValidString (t @ s) = ValidString s"
  by (induction rule: quoted_text.induct) (simp_all add: ValidString_rune ValidString_ascii)

lemma ValidString_Quote: "ValidString (Quote U v)"
proof -
  have "ValidString ''\"''" by (simp add: ValidString_ascii ValidString.simps RuneError_def)
  then show ?thesis
    using ValidString_quoted [OF quoted_text_quoteBody [of U v]] by (simp add: Quote_def ValidString_ascii)
qed

lemma scanQuotedLoop_text:
  assumes "quoted_text t" "at_text s (t @ CHR 0x22 # rest)"
    "slice (src s) start (pos s + length t + 1) = literal" "Unquote literal = Some v" "ValidString literal"
  shows "scanQuotedLoop start s = (Tok TokString v, mv (length t + 1) s)"
  using assms
proof (induction arbitrary: s rule: quoted_text.induct)
  case qt_nil
  then have "pos s < length (src s)" "read s = (34, mv 1 s)"
    using at_nonempty [of s "CHR 0x22 # rest"] at_read_ascii [of s "CHR 0x22" rest] by simp_all
  with qt_nil.prems show ?case by (subst scanQuotedLoop.simps) (simp add: Let_def)
next
  case (qt_rune r t)
  from qt_rune.prems have a: "at_text s (encodeRune r @ (t @ CHR 0x22 # rest))" by simp
  have "pos s < length (src s)" using at_nonempty [OF a] by simp
  moreover have "read s = (r, mv (length (encodeRune r)) s)" by (rule at_read_rune [OF a qt_rune.hyps(1)])
  ultimately have "scanQuotedLoop start s = scanQuotedLoop start (mv (length (encodeRune r)) s)"
    using qt_rune.hyps by (subst scanQuotedLoop.simps) simp
  also have "\<dots> = (Tok TokString v, mv (length t + 1) (mv (length (encodeRune r)) s))"
    using qt_rune.prems by (intro qt_rune.IH at_mv [OF a]) (simp_all add: add.assoc)
  finally show ?case by (simp add: add.assoc)
next
  case (qt_esc c t)
  from qt_esc.prems have a: "at_text s (CHR 0x5C # (c # t @ CHR 0x22 # rest))" by simp
  have "pos s < length (src s)" using at_nonempty [OF a] by simp
  moreover have "read s = (92, mv 1 s)" using at_read_ascii [OF a] by simp
  moreover have b: "at_text (mv 1 s) (c # t @ CHR 0x22 # rest)" using at_Cons [OF a] by simp
  then have "read (mv 1 s) = (byte_of c, mv 2 s)" using at_read_ascii [OF b qt_esc.hyps(1)] by (simp add: numeral_2_eq_2)
  ultimately have "scanQuotedLoop start s = scanQuotedLoop start (mv 2 s)"
    by (subst scanQuotedLoop.simps) simp
  also have "\<dots> = (Tok TokString v, mv (length t + 1) (mv 2 s))"
    using qt_esc.prems at_Cons [OF b] by (intro qt_esc.IH) (simp_all add: numeral_2_eq_2)
  finally show ?case by simp
qed

lemma scanQuotedString_Quote:
  assumes "at_text s (Quote U v @ rest)"
  shows "scanQuotedString s = (Tok TokString v, mv (length (Quote U v)) s)"
proof -
  have a: "at_text s (CHR 0x22 # (quoteBody U v @ CHR 0x22 # rest))" using assms by (simp add: Quote_def)
  have l: "length (Quote U v) = length (quoteBody U v) + 2" by (simp add: Quote_def)
  have "slice (src (mv 1 s)) (pos s) (pos (mv 1 s) + length (quoteBody U v) + 1) = Quote U v"
    using at_slice [OF assms] by (simp add: l)
  with at_Cons [OF a]
  have "scanQuotedLoop (pos s) (mv 1 s) = (Tok TokString v, mv (length (quoteBody U v) + 1) (mv 1 s))"
    by (intro scanQuotedLoop_text [OF quoted_text_quoteBody _ _ Unquote_Quote ValidString_Quote]) simp_all
  then show ?thesis
    using at_read_ascii [OF a] by (simp add: scanQuotedString_def l)
qed

text \<open>A text that \<open>CanBackquote\<close> accepts has no backquote and no broken rune.\<close>

lemma scanWhile_backquote:
  "CanBackquote v \<Longrightarrow> at_text s (v @ CHR 0x60 # rest) \<Longrightarrow> scanWhile (\<lambda>r. r \<noteq> 96) s = mv (length v) s"
proof (induction v arbitrary: s rule: measure_induct_rule [where f = length])
  case (less v)
  show ?case
  proof (cases "v = []")
    case True
    with less.prems(2) show ?thesis by (simp add: scanWhile_at_stop [of s "CHR 0x60 # rest"] stops_at_def)
  next
    case False
    obtain r w where d: "decodeRune v = (r, w)" by fastforce
    have w: "1 \<le> w" "w \<le> length v" using decodeRune_size [OF False] d by auto
    have ok: "\<not> (r = RuneError \<and> w = 1)" "w = 1 \<Longrightarrow> r \<noteq> 96" "CanBackquote (drop w v)"
      using less.prems(1) False w by (auto simp: CanBackquote.simps [of v] d Let_def split: if_splits)
    have e: "ValidRune r" "take w v = encodeRune r" using decodeRune_encode [OF d False ok(1)] by auto
    have "r \<noteq> 96"
    proof
      assume "r = 96"
      with e(2) have "length (take w v) = 1" by (simp add: encodeRune_def)
      with w ok(2) \<open>r = 96\<close> show False by simp
    qed
    have v: "encodeRune r @ drop w v = v" using e(2) by (metis append_take_drop_id)
    with less.prems(2) have a: "at_text s (encodeRune r @ (drop w v @ CHR 0x60 # rest))" by (metis append_assoc)
    have l: "length (encodeRune r) = w" using w by (simp flip: e(2))
    have "scanWhile (\<lambda>r. r \<noteq> 96) s = scanWhile (\<lambda>r. r \<noteq> 96) (mv w s)"
      using at_peek_rune [OF a e(1)] w(1) \<open>r \<noteq> 96\<close> by (intro scanWhile_step) (auto simp: l)
    also have "\<dots> = mv (length (drop w v)) (mv w s)"
      using at_mv [OF a refl] ok(3) w False by (intro less.IH) (auto simp: l)
    finally show ?thesis using w(2) by simp
  qed
qed


lemma scanRawString_text:
  assumes "CanBackquote v" "at_text s (CHR 0x60 # v @ CHR 0x60 # rest)"
  shows "scanRawString s = (Tok TokRawString v, mv (length v + 2) s)"
proof -
  have "read s = (96, mv 1 s)" using at_read_ascii [OF assms(2)] by simp
  moreover have a: "at_text (mv 1 s) (v @ CHR 0x60 # rest)" using at_Cons [OF assms(2)] by simp
  moreover have "read (mv (length v) (mv 1 s)) = (96, mv 1 (mv (length v) (mv 1 s)))"
    using at_read_ascii [OF at_mv [OF a refl]] by simp
  ultimately show ?thesis
    using scanWhile_backquote [OF assms(1) a] at_slice [OF a]
    by (simp add: scanRawString_def Let_def)
qed

subsection \<open>Words and numbers\<close>

definition ident_char :: "char \<Rightarrow> bool" where
  "ident_char c \<longleftrightarrow> isAlphanumeric c \<or> c = CHR ''.''"

definition word_start :: "char \<Rightarrow> bool" where
  "word_start c \<longleftrightarrow> isAlphanumeric c \<and> \<not> is_digit c"

definition wf_word :: "string \<Rightarrow> bool" where
  "wf_word n \<longleftrightarrow> n \<noteq> [] \<and> word_start (hd n) \<and> list_all ident_char n"

definition wf_ident :: "string \<Rightarrow> bool" where
  "wf_ident n \<longleftrightarrow> wf_word n \<and> map_of keywordTypes n = None"

definition number_char :: "char \<Rightarrow> bool" where
  "number_char c \<longleftrightarrow> is_digit c \<or> c = CHR ''.''"

definition letter_char :: "char \<Rightarrow> bool" where
  "letter_char c \<longleftrightarrow> isAlphanumeric c \<and> \<not> is_digit c \<and> c \<noteq> CHR ''_''"

definition wf_number :: "string \<Rightarrow> bool" where
  "wf_number n \<longleftrightarrow> n \<noteq> [] \<and> is_digit (hd n) \<and> list_all number_char n"

text \<open>Pairs of a value and a unit.\<close>

function wf_segments :: "string \<Rightarrow> bool" where
  "wf_segments d =
     (let v = takeWhile number_char d; r = dropWhile number_char d; u = takeWhile letter_char r; r1 = dropWhile letter_char r
      in if v = [] \<or> u = [] then False else if r1 = [] then True else wf_segments r1)"
  by pat_completeness auto
termination
proof (relation "measure length", goal_cases)
  case (2 d v r u r1)
  then have "length r1 \<le> length r" "length v + length r = length d"
    by (simp_all add: length_dropWhile_le flip: length_append)
  moreover have "0 < length v" using 2 by simp
  ultimately show ?case unfolding in_measure by linarith
qed simp

declare wf_segments.simps [simp del]

definition wf_duration :: "string \<Rightarrow> bool" where
  "wf_duration d \<longleftrightarrow> d \<noteq> [] \<and> is_digit (hd d) \<and> wf_segments d"

lemma char_class_ascii:
  "ident_char c \<Longrightarrow> byte_of c < 128" "number_char c \<Longrightarrow> byte_of c < 128" "letter_char c \<Longrightarrow> byte_of c < 128"
  "word_start c \<Longrightarrow> byte_of c < 128"
  by (auto simp: ident_char_def isAlphanumeric_def number_char_def is_digit_def letter_char_def word_start_def)

lemma byte_eq_iff: "byte_of c = byte_of d \<longleftrightarrow> c = d"
  by simp

lemma char_class_rune:
  "byte_of c < 128 \<Longrightarrow> isIdentRune U (byte_of c) = ident_char c"
  "byte_of c < 128 \<Longrightarrow> isNumberRune U (byte_of c) = number_char c"
  "byte_of c < 128 \<Longrightarrow> IsLetter U (byte_of c) = letter_char c"
  "byte_of c < 128 \<Longrightarrow> IsDigit U (byte_of c) = is_digit c"
  using byte_eq_iff [of c "CHR ''_''"] byte_eq_iff [of c "CHR ''.''"]
  by (auto simp: isIdentRune_def IsLetter_def IsDigit_def ident_char_def isAlphanumeric_def isNumberRune_def
      number_char_def is_digit_def letter_char_def)

lemma char_class_run:
  "list_all ident_char n \<Longrightarrow> list_all (\<lambda>c. byte_of c < 128 \<and> isIdentRune U (byte_of c)) n"
  "list_all number_char n \<Longrightarrow> list_all (\<lambda>c. byte_of c < 128 \<and> isNumberRune U (byte_of c)) n"
  "list_all letter_char n \<Longrightarrow> list_all (\<lambda>c. byte_of c < 128 \<and> IsLetter U (byte_of c)) n"
  by (induction n) (simp_all add: char_class_ascii char_class_rune)

lemma scanIdent_word:
  assumes "at_text s (n @ rest)" "list_all ident_char n" "stops_at (isIdentRune U) rest"
  shows "scanIdent U s = (Tok (case map_of keywordTypes n of Some t \<Rightarrow> t | None \<Rightarrow> TokIdent) n, mv (length n) s)"
proof -
  have "scanWhile (isIdentRune U) s = mv (length n) s"
    using assms by (intro scanWhile_run) (auto intro: char_class_run)
  then show ?thesis using at_slice [OF assms(1)] by (simp add: scanIdent_def Let_def)
qed

lemma scanNumber_number:
  assumes "at_text s (n @ rest)" "wf_number n" "stops_at (isIdentRune U) rest"
  shows "scanNumberOrDuration U s = (Tok TokNumber n, mv (length n) s)"
proof -
  have stop: "stops_at (isNumberRune U) rest" "stops_at (IsLetter U) rest"
    using assms(3) by (auto simp: stops_at_def isIdentRune_def isNumberRune_def)
  have 1: "scanWhile (isNumberRune U) s = mv (length n) s"
    using assms stop by (intro scanWhile_run) (auto simp: wf_number_def intro: char_class_run)
  have 2: "scanWhile (IsLetter U) (mv (length n) s) = mv (length n) s"
    using at_mv [OF assms(1) refl] stop(2) by (rule scanWhile_at_stop)
  have "numberSegments U False s = (False, mv (length n) s)"
    using 1 2 assms(2) by (subst numberSegments.simps) (simp add: wf_number_def)
  then show ?thesis using at_slice [OF assms(1)] by (simp add: scanNumberOrDuration_def)
qed

lemma numberSegments_duration:
  assumes "at_text s (d @ rest)" "wf_segments d" "stops_at (isIdentRune U) rest"
  shows "numberSegments U saw s = (True, mv (length d) s)"
  using assms
proof (induction d arbitrary: s saw rule: wf_segments.induct)
  case (1 d)
  define v r where "v = takeWhile number_char d" and "r = dropWhile number_char d"
  define u r1 where "u = takeWhile letter_char r" and "r1 = dropWhile letter_char r"
  have d: "d = v @ r" "r = u @ r1" by (simp_all add: v_def r_def u_def r1_def)
  have ne: "v \<noteq> []" "u \<noteq> []" "r1 = [] \<or> wf_segments r1"
    using "1.prems"(2) by (auto simp: wf_segments.simps [of d] v_def r_def u_def r1_def Let_def split: if_splits)
  have all: "list_all number_char v" "list_all letter_char u"
    by (auto simp: v_def u_def list_all_iff dest: set_takeWhileD)
  have stop: "stops_at (isNumberRune U) (u @ r1 @ rest)" "stops_at (IsLetter U) (r1 @ rest)"
  proof -
    have "letter_char (hd u)" using all(2) ne(2) by (cases u) auto
    then show "stops_at (isNumberRune U) (u @ r1 @ rest)"
      using ne(2) char_class_ascii(3) [of "hd u"] char_class_rune(2) [of "hd u" U]
      by (auto simp: stops_at_def letter_char_def number_char_def isAlphanumeric_def)
    show "stops_at (IsLetter U) (r1 @ rest)"
    proof (cases "r1 = []")
      case True
      with "1.prems"(3) show ?thesis by (auto simp: stops_at_def isIdentRune_def)
    next
      case False
      with ne(3) have "takeWhile number_char r1 \<noteq> []" by (simp add: wf_segments.simps [of r1] Let_def split: if_splits)
      then have "number_char (hd r1)" by (cases r1) (auto split: if_splits)
      then show ?thesis
        using False char_class_ascii(2) [of "hd r1"] char_class_rune(3) [of "hd r1" U]
        by (auto simp: stops_at_def letter_char_def number_char_def isAlphanumeric_def)
    qed
  qed
  have a: "at_text s (v @ (u @ r1 @ rest))" using "1.prems"(1) d by simp
  have 1: "scanWhile (isNumberRune U) s = mv (length v) s"
    using a all(1) stop(1) by (intro scanWhile_run) (auto intro: char_class_run)
  have b: "at_text (mv (length v) s) (u @ r1 @ rest)" by (rule at_mv [OF a refl])
  have 2: "scanWhile (IsLetter U) (mv (length v) s) = mv (length u) (mv (length v) s)"
    using b all(2) stop(2) by (intro scanWhile_run) (auto intro: char_class_run)
  have step: "numberSegments U saw s = numberSegments U True (mv (length v + length u) s)"
    using 1 2 ne by (subst numberSegments.simps) simp
  have c: "at_text (mv (length v + length u) s) (r1 @ rest)" using at_mv [OF b refl] by simp
  show ?case
  proof (cases "r1 = []")
    case True
    then have "scanWhile (isNumberRune U) (mv (length v + length u) s) = mv (length v + length u) s"
      using c "1.prems"(3) by (intro scanWhile_at_stop) (auto simp: stops_at_def isIdentRune_def isNumberRune_def)
    then have "numberSegments U True (mv (length v + length u) s) = (True, mv (length v + length u) s)"
      by (subst numberSegments.simps) simp
    with step True show ?thesis by (simp add: d)
  next
    case False
    with ne have "numberSegments U True (mv (length v + length u) s) = (True, mv (length r1) (mv (length v + length u) s))"
      using c "1.prems"(3) by (intro "1.IH" [OF v_def r_def u_def r1_def]) auto
    with step show ?thesis by (simp add: d add.assoc)
  qed
qed

lemma scanNumber_duration:
  assumes "at_text s (d @ rest)" "wf_segments d" "stops_at (isIdentRune U) rest"
  shows "scanNumberOrDuration U s = (Tok TokDuration d, mv (length d) s)"
  using numberSegments_duration [OF assms] at_slice [OF assms(1)] by (simp add: scanNumberOrDuration_def)

subsection \<open>Lexemes\<close>

datatype lexeme =
  LxIdent string | LxString string | LxRaw string | LxNumber string | LxDuration string | LxOp TokType

fun lx_text :: "unicode \<Rightarrow> lexeme \<Rightarrow> string" where
  "lx_text U (LxIdent n) = n"
| "lx_text U (LxString v) = Quote U v"
| "lx_text U (LxRaw v) = ''`'' @ v @ ''`''"
| "lx_text U (LxNumber n) = n"
| "lx_text U (LxDuration d) = d"
| "lx_text U (LxOp t) = TokType_String t"

fun lx_tok :: "lexeme \<Rightarrow> Token" where
  "lx_tok (LxIdent n) = Tok TokIdent n"
| "lx_tok (LxString v) = Tok TokString v"
| "lx_tok (LxRaw v) = Tok TokRawString v"
| "lx_tok (LxNumber n) = Tok TokNumber n"
| "lx_tok (LxDuration d) = Tok TokDuration d"
| "lx_tok (LxOp t) = Tok t (TokType_String t)"

definition keyword :: "TokType \<Rightarrow> bool" where
  "keyword t \<longleftrightarrow>
     t \<in> {TokBy, TokWithout, TokOn, TokIgnoring, TokGroupLeft, TokGroupRight, TokAnd, TokOr, TokUnless}"

text \<open>A lexeme is possible at a brace depth: inside braces \<^verbatim>\<open>!=\<close> and \<^verbatim>\<open>!~\<close> are matchers.\<close>

fun lx_ok :: "nat \<Rightarrow> lexeme \<Rightarrow> bool" where
  "lx_ok d (LxIdent n) = wf_ident n"
| "lx_ok d (LxString v) = True"
| "lx_ok d (LxRaw v) = CanBackquote v"
| "lx_ok d (LxNumber n) = wf_number n"
| "lx_ok d (LxDuration n) = wf_duration n"
| "lx_ok d (LxOp t) =
     (\<not> free_text t \<and> (t \<in> {TokNeq, TokReNotMatch} \<longrightarrow> 0 < d) \<and> (t \<in> {TokBangEq, TokBangTilde} \<longrightarrow> d = 0))"

definition word_end :: "char \<Rightarrow> bool" where
  "word_end c \<longleftrightarrow> byte_of c < 128 \<and> \<not> ident_char c"

fun lx_stop :: "lexeme \<Rightarrow> char \<Rightarrow> bool" where
  "lx_stop (LxIdent n) c = word_end c"
| "lx_stop (LxString v) c = True"
| "lx_stop (LxRaw v) c = True"
| "lx_stop (LxNumber n) c = word_end c"
| "lx_stop (LxDuration d) c = word_end c"
| "lx_stop (LxOp t) c =
     (if keyword t then word_end c
      else if t = TokPipe then byte_of c < 128 \<and> c \<noteq> CHR ''='' \<and> c \<noteq> CHR ''~'' \<and> c \<noteq> CHR ''>''
      else if t = TokEq then byte_of c < 128 \<and> c \<noteq> CHR ''='' \<and> c \<noteq> CHR ''~''
      else if t = TokLt \<or> t = TokGt then byte_of c < 128 \<and> c \<noteq> CHR ''=''
      else True)"

fun lx_depth :: "nat \<Rightarrow> lexeme \<Rightarrow> nat" where
  "lx_depth d (LxOp t) = (if t = TokLBrace then d + 1 else if t = TokRBrace then d - 1 else d)"
| "lx_depth d _ = d"

lemma skipWS_at:
  assumes "at_text s (replicate k (CHR '' '') @ c # t)" "byte_of c < 128" "\<not> IsSpace (byte_of c)"
  shows "skipWS s = mv k s" "at_text (mv k s) (c # t)"
proof -
  have "IsSpace 32" by (simp add: IsSpace_def)
  then show "skipWS s = mv k s"
    using scanWhile_run [OF assms(1), of IsSpace] assms(2,3) by (simp add: skipWS_def stops_at_def list_all_iff)
  show "at_text (mv k s) (c # t)" using at_mv [OF assms(1)] by simp
qed

lemma word_stop: "rest = [] \<or> word_end (hd rest) \<Longrightarrow> stops_at (isIdentRune U) rest"
  by (auto simp: stops_at_def word_end_def char_class_rune)

text \<open>How \<open>scan_next\<close> chooses its branch by the first character.\<close>

lemma scan_next_word:
  assumes "skipWS s0 = s" "at_text s (c # t)" "word_start c"
  shows "scan_next U s0 = scanIdent U s"
proof -
  have "IsLetter U (byte_of c) \<or> byte_of c = 95"
    using assms(3) char_class_ascii(4) [of c] char_class_rune(3) [of c U] byte_eq_iff [of c "CHR ''_''"]
    by (auto simp: word_start_def letter_char_def)
  moreover have "byte_of c \<notin> {123, 125, 40, 41, 91, 93, 44, 64, 124, 33, 43, 45, 42, 47, 37, 94, 60, 62, 61, 34, 96}"
    using assms(3) byte_eq_iff [of c "CHR ''_''"] by (auto simp: word_start_def isAlphanumeric_def is_digit_def)
  ultimately show ?thesis
    using assms(1) at_peek_ascii [OF assms(2)] char_class_ascii(4) [OF assms(3)] at_nonempty [OF assms(2)]
    by (simp add: scan_next_def)
qed

lemma scan_next_digit:
  assumes "skipWS s0 = s" "at_text s (c # t)" "is_digit c"
  shows "scan_next U s0 = scanNumberOrDuration U s"
proof -
  have b: "48 \<le> byte_of c" "byte_of c \<le> 57" using assms(3) by (auto simp: is_digit_def)
  then have "IsDigit U (byte_of c)" "\<not> IsLetter U (byte_of c)" by (auto simp: IsDigit_def IsLetter_def)
  moreover have "byte_of c \<notin> {123, 125, 40, 41, 91, 93, 44, 64, 124, 33, 43, 45, 42, 47, 37, 94, 60, 62, 61, 34, 96, 95}"
    using b by auto
  ultimately show ?thesis
    using b assms(1) at_peek_ascii [OF assms(2)] at_nonempty [OF assms(2)] by (simp add: scan_next_def)
qed

lemma same_depth [simp]: "(s :: scanner)\<lparr>braceDepth := braceDepth s\<rparr> = s"
  by (cases s) simp

lemma mv_same_depth [simp]: "(mv n s)\<lparr>braceDepth := braceDepth s\<rparr> = mv n s"
  using same_depth [of "mv n s"] by simp

lemma peek_follow:
  assumes "at_text s rest" "rest = [] \<or> byte_of (hd rest) < 128"
  shows "fst (peek s) = (if rest = [] then 0 else byte_of (hd rest))"
  using assms by (cases rest) (auto simp: at_peek_end at_peek_ascii)

definition single_op :: "TokType \<Rightarrow> bool" where
  "single_op t \<longleftrightarrow>
     t \<in> {TokLParen, TokRParen, TokLBracket, TokRBracket, TokComma, TokAt, TokPlus, TokMinus, TokStar, TokSlash,
      TokPercent, TokCaret, TokLBrace, TokRBrace}"

definition double_op :: "TokType \<Rightarrow> bool" where
  "double_op t \<longleftrightarrow>
     t \<in> {TokNeq, TokReMatch, TokReNotMatch, TokPipeEq, TokBangEq, TokPipeTilde, TokBangTilde, TokPipeGt, TokBangGt,
      TokLtEq, TokGtEq, TokEqEq}"

definition short_op :: "TokType \<Rightarrow> bool" where
  "short_op t \<longleftrightarrow> t \<in> {TokPipe, TokEq, TokLt, TokGt}"

lemma op_length:
  "single_op t \<Longrightarrow> length (TokType_String t) = 1" "short_op t \<Longrightarrow> length (TokType_String t) = 1"
  "double_op t \<Longrightarrow> length (TokType_String t) = 2"
  by (auto simp: single_op_def short_op_def double_op_def)

lemma scan_next_single:
  assumes "skipWS s0 = s" "at_text s (TokType_String t @ rest)"
    "single_op t"
  shows "scan_next U s0 =
    (Tok t (TokType_String t), (mv 1 s)\<lparr>braceDepth := lx_depth (braceDepth s) (LxOp t)\<rparr>)"
proof -
  obtain c where c: "TokType_String t = [c]" "byte_of c < 128" using assms(3) by (auto simp: single_op_def)
  with assms(2) have a: "at_text s (c # rest)" by simp
  have "peek s = (byte_of (hd (TokType_String t)), 1)" "read s = (byte_of (hd (TokType_String t)), mv 1 s)"
    "\<not> length (src s) \<le> pos s"
    using at_peek_ascii [OF a c(2)] at_read_ascii [OF a c(2)] at_nonempty [OF a] by (simp_all add: c)
  with assms(1,3) show ?thesis
    unfolding single_op_def by (elim insertE emptyE) (simp_all add: scan_next_def emit_def Let_def)
qed

lemma scan_next_double:
  assumes "skipWS s0 = s" "at_text s (TokType_String t @ rest)"
    "double_op t"
    "t \<in> {TokNeq, TokReNotMatch} \<Longrightarrow> 0 < braceDepth s" "t \<in> {TokBangEq, TokBangTilde} \<Longrightarrow> braceDepth s = 0"
  shows "scan_next U s0 = (Tok t (TokType_String t), mv 2 s)"
proof -
  obtain c d where c: "TokType_String t = [c, d]" "byte_of c < 128" "byte_of d < 128" using assms(3) by (auto simp: double_op_def)
  with assms(2) have a: "at_text s (c # d # rest)" by simp
  note b = at_Cons [OF a]
  have "peek s = (byte_of (hd (TokType_String t)), 1)" "read s = (byte_of (hd (TokType_String t)), mv 1 s)"
    "peek (mv 1 s) = (byte_of (hd (tl (TokType_String t))), 1)"
    "read (mv 1 s) = (byte_of (hd (tl (TokType_String t))), mv 2 s)" "\<not> length (src s) \<le> pos s"
    using at_peek_ascii [OF a c(2)] at_read_ascii [OF a c(2)] at_nonempty [OF a]
      at_peek_ascii [OF b c(3)] at_read_ascii [OF b c(3)] by (simp_all add: numeral_2_eq_2 c)
  with assms(1,3-5) show ?thesis
    unfolding double_op_def by (elim insertE emptyE)
      (simp_all add: scan_next_def scanPipe_def scanBang_def scanCompare_def emit_def Let_def)
qed

lemma scan_next_short:
  assumes "skipWS s0 = s" "at_text s (TokType_String t @ rest)" "short_op t"
    "rest = [] \<or> lx_stop (LxOp t) (hd rest)"
  shows "scan_next U s0 = (Tok t (TokType_String t), mv 1 s)"
proof -
  obtain c where c: "TokType_String t = [c]" "byte_of c < 128" using assms(3) by (auto simp: short_op_def)
  with assms(2) have a: "at_text s (c # rest)" by simp
  have "rest = [] \<or> byte_of (hd rest) < 128" using assms(3,4) by (auto simp: keyword_def short_op_def)
  note p = peek_follow [OF at_Cons [OF a] this]
  have "peek s = (byte_of (hd (TokType_String t)), 1)" "read s = (byte_of (hd (TokType_String t)), mv 1 s)"
    "\<not> length (src s) \<le> pos s"
    using at_peek_ascii [OF a c(2)] at_read_ascii [OF a c(2)] at_nonempty [OF a] by (simp_all add: c)
  with assms(1,3,4) p byte_eq_iff [of "hd rest" "CHR ''=''"] byte_eq_iff [of "hd rest" "CHR ''~''"]
    byte_eq_iff [of "hd rest" "CHR ''>''"] show ?thesis
    unfolding short_op_def by (elim insertE emptyE)
      (auto simp: scan_next_def scanPipe_def scanBang_def scanCompare_def emit_def Let_def keyword_def)
qed

lemma op_cases: "\<not> free_text t \<Longrightarrow> keyword t \<or> single_op t \<or> double_op t \<or> short_op t"
  by (cases t) (simp_all add: free_text_def keyword_def single_op_def double_op_def short_op_def)

lemma lx_head:
  assumes "lx_ok d lx"
  shows "lx_text U lx \<noteq> [] \<and> byte_of (hd (lx_text U lx)) < 128 \<and> \<not> IsSpace (byte_of (hd (lx_text U lx)))"
proof (cases lx)
  case (LxIdent n)
  then have "n \<noteq> []" "word_start (hd n)" using assms by (auto simp: wf_ident_def wf_word_def)
  then show ?thesis
    using LxIdent char_class_ascii(4) [of "hd n"] byte_eq_iff [of "hd n" "CHR ''_''"]
    by (auto simp: word_start_def isAlphanumeric_def is_digit_def IsSpace_def)
next
  case (LxOp t)
  with assms show ?thesis by (cases t) (simp_all add: free_text_def IsSpace_def)
qed (use assms in \<open>auto simp: wf_number_def wf_duration_def is_digit_def IsSpace_def Quote_def\<close>)

lemma lex_step:
  assumes "at_text s (replicate k (CHR '' '') @ lx_text U lx @ rest)" "lx_ok (braceDepth s) lx"
    "rest = [] \<or> lx_stop lx (hd rest)"
  shows "scan_next U s =
    (lx_tok lx, (mv (k + length (lx_text U lx)) s)\<lparr>braceDepth := lx_depth (braceDepth s) lx\<rparr>)"
proof -
  obtain c t where ct: "lx_text U lx = c # t" "byte_of c < 128" "\<not> IsSpace (byte_of c)"
    using lx_head [OF assms(2), of U] by (cases "lx_text U lx") auto
  have ws: "skipWS s = mv k s" and a: "at_text (mv k s) (c # t @ rest)"
    using skipWS_at [of s k c "t @ rest"] assms(1) ct by auto
  then have a': "at_text (mv k s) (lx_text U lx @ rest)" by (simp add: ct)
  note pk = at_peek_ascii [OF a ct(2)] at_nonempty [OF a]
  show ?thesis
  proof (cases lx)
    case (LxIdent n)
    then have n: "list_all ident_char n" "word_start c" "map_of keywordTypes n = None" "n = c # t"
      using assms(2) ct by (auto simp: wf_ident_def wf_word_def)
    then have "scan_next U s = scanIdent U (mv k s)" by (intro scan_next_word [OF ws a])
    also have "\<dots> = (Tok TokIdent n, mv (length n) (mv k s))"
      using scanIdent_word [of "mv k s" n rest U] n a' assms(3) LxIdent by (auto intro: word_stop)
    finally show ?thesis using LxIdent by simp
  next
    case (LxString v)
    then have c: "byte_of c = 34" using ct by (auto simp: Quote_def)
    have "scan_next U s = scanQuotedString (mv k s)" using ws pk by (simp add: scan_next_def c)
    with scanQuotedString_Quote [of "mv k s" U v rest] a' LxString show ?thesis by simp
  next
    case (LxRaw v)
    then have c: "byte_of c = 96" using ct by auto
    have "scan_next U s = scanRawString (mv k s)" using ws pk by (simp add: scan_next_def c)
    with scanRawString_text [of v "mv k s" rest] a' LxRaw assms(2) show ?thesis by simp
  next
    case (LxNumber n)
    then have n: "wf_number n" "is_digit c" using assms(2) ct by (auto simp: wf_number_def)
    then have "scan_next U s = scanNumberOrDuration U (mv k s)" by (intro scan_next_digit [OF ws a])
    with scanNumber_number [of "mv k s" n rest U] a' n LxNumber assms(3) show ?thesis by (auto intro: word_stop)
  next
    case (LxDuration n)
    then have n: "wf_segments n" "is_digit c" using assms(2) ct by (auto simp: wf_duration_def)
    then have "scan_next U s = scanNumberOrDuration U (mv k s)" by (intro scan_next_digit [OF ws a])
    with scanNumber_duration [of "mv k s" n rest U] a' n LxDuration assms(3) show ?thesis by (auto intro: word_stop)
  next
    case (LxOp tt)
    have kw: "keyword tt \<Longrightarrow> map_of keywordTypes (TokType_String tt) = Some tt \<and>
        list_all ident_char (TokType_String tt) \<and> word_start (hd (TokType_String tt)) \<and> tt \<noteq> TokLBrace \<and> tt \<noteq> TokRBrace"
      by (auto simp: keyword_def keywordTypes_def ident_char_def isAlphanumeric_def word_start_def is_digit_def)
    consider "keyword tt" | "\<not> keyword tt" by blast
    then show ?thesis
    proof cases
      case 1
      then have "scan_next U s = scanIdent U (mv k s)"
        using kw ct LxOp by (intro scan_next_word [OF ws a]) auto
      also have "\<dots> = (Tok tt (TokType_String tt), mv (length (TokType_String tt)) (mv k s))"
        using scanIdent_word [of "mv k s" "TokType_String tt" rest U] kw [OF 1] a' assms(3) LxOp 1
        by (auto intro: word_stop)
      finally show ?thesis using LxOp kw [OF 1] by simp
    next
      case 2
      then consider "single_op tt" | "double_op tt" | "short_op tt" using assms(2) LxOp op_cases [of tt] by auto
      then show ?thesis
      proof cases
        case 1
        with scan_next_single [OF ws _ 1, of rest U] a' LxOp show ?thesis by (simp add: op_length(1))
      next
        case 2
        then have "lx_depth (braceDepth s) lx = braceDepth s" using LxOp by (auto simp: double_op_def)
        with scan_next_double [OF ws _ 2, of rest U] a' LxOp assms(2) 2 show ?thesis by (auto simp: op_length(3))
      next
        case 3
        then have "lx_depth (braceDepth s) lx = braceDepth s" using LxOp by (auto simp: short_op_def)
        with scan_next_short [OF ws _ 3, of rest U] a' LxOp assms(3) 3 show ?thesis by (simp add: op_length(2))
      qed
    qed
  qed
qed


subsection \<open>Texts of lexemes\<close>

text \<open>A lexeme with or without a space in front.\<close>

type_synonym item = "bool \<times> lexeme"

definition item_text :: "unicode \<Rightarrow> item \<Rightarrow> string" where
  "item_text U i = (if fst i then '' '' else []) @ lx_text U (snd i)"

definition items_text :: "unicode \<Rightarrow> item list \<Rightarrow> string" where
  "items_text U is = concat (map (item_text U) is)"

lemma items_text_simps [simp]:
  "items_text U [] = []" "items_text U (i # is) = item_text U i @ items_text U is"
  "items_text U (is @ js) = items_text U is @ items_text U js"
  by (simp_all add: items_text_def)

definition toks :: "item list \<Rightarrow> Token list" where
  "toks is = map (\<lambda>i. lx_tok (snd i)) is"

lemma toks_simps [simp]:
  "toks [] = []" "toks (i # is) = lx_tok (snd i) # toks is" "toks (is @ js) = toks is @ toks js"
  "length (toks is) = length is"
  by (simp_all add: toks_def)

fun lex_chain :: "unicode \<Rightarrow> nat \<Rightarrow> item list \<Rightarrow> bool" where
  "lex_chain U d [] = True"
| "lex_chain U d ((sp, lx) # is) =
     (lx_ok d lx \<and> (is = [] \<or> fst (hd is) \<or> lx_stop lx (hd (lx_text U (snd (hd is))))) \<and>
      lex_chain U (lx_depth d lx) is)"

text \<open>The parser will see these tokens, the current one first.\<close>

fun sees :: "unicode \<Rightarrow> parser \<Rightarrow> Token list \<Rightarrow> bool" where
  "sees U p [] = True"
| "sees U p (t # ts) = (cur p = t \<and> sees U (skip U p) ts)"

fun skipn :: "unicode \<Rightarrow> nat \<Rightarrow> parser \<Rightarrow> parser" where
  "skipn U 0 p = p"
| "skipn U (Suc n) p = skipn U n (skip U p)"

lemma sees_append: "sees U p (xs @ ys) \<longleftrightarrow> sees U p xs \<and> sees U (skipn U (length xs) p) ys"
  by (induction xs arbitrary: p) auto

lemma skipn_add: "skipn U (m + n) p = skipn U n (skipn U m p)"
  by (induction m arbitrary: p) auto

lemma lx_stop_space: "lx_stop lx (CHR '' '')"
  by (cases lx) (auto simp: word_end_def ident_char_def isAlphanumeric_def)

lemma scan_next_end: "at_text s [] \<Longrightarrow> scan_next U s = (Tok TokEOF [], s)"
  by (auto simp: scan_next_def skipWS_def scanWhile_stop at_peek_end at_text_def Let_def)

theorem lex_items:
  assumes "at_text (sc p) (items_text U is)" "lex_chain U (braceDepth (sc p)) is"
  shows "sees U (skip U p) (toks is @ [Tok TokEOF []])"
  using assms
proof (induction "is" arbitrary: p)
  case Nil
  then show ?case by (simp add: skip_sc scan_next_end)
next
  case (Cons i "is")
  obtain sp lx where i: "i = (sp, lx)" by fastforce
  define k where "k = (if sp then 1 else 0 :: nat)"
  let ?rest = "items_text U is"
  have a: "at_text (sc p) (replicate k (CHR '' '') @ lx_text U lx @ ?rest)"
    using Cons.prems(1) by (auto simp: i item_text_def k_def split: if_splits)
  have stop: "?rest = [] \<or> lx_stop lx (hd ?rest)"
  proof (cases "is")
    case (Cons j js)
    obtain sp' lx' where j: "j = (sp', lx')" by fastforce
    then have "lx_text U lx' \<noteq> []" using Cons.prems(2) Cons lx_head by (auto simp: i)
    with Cons.prems(2) Cons j show ?thesis by (auto simp: i item_text_def lx_stop_space)
  qed simp
  have "lx_ok (braceDepth (sc p)) lx" using Cons.prems(2) by (simp add: i)
  from lex_step [OF a this stop]
  have s: "cur (skip U p) = lx_tok lx"
    "sc (skip U p) = (mv (k + length (lx_text U lx)) (sc p))\<lparr>braceDepth := lx_depth (braceDepth (sc p)) lx\<rparr>"
    by (simp_all add: skip_sc)
  have "at_text (mv (k + length (lx_text U lx)) (sc p)) ?rest"
    using at_mv [of "sc p" "replicate k (CHR '' '') @ lx_text U lx" ?rest] a by simp
  then have "sees U (skip U (skip U p)) (toks is @ [Tok TokEOF []])"
    using Cons.prems(2) s(2) by (intro Cons.IH) (auto simp: at_text_def i)
  with s(1) show ?case by (simp add: i)
qed

lemma lex_new:
  assumes "lex_chain U 0 is"
  shows "sees U (skip U (newParser (items_text U is))) (toks is @ [Tok TokEOF []])"
  using assms by (intro lex_items) (simp_all add: newParser_def newScanner_def at_text_def)

end
