(* ===== verification/LogqlTotal.thy ===== *)
theory LogqlTotal
  imports LogqlExprParser
begin

text \<open>
  The LogQL parser is total: whatever the input, \<open>Parse\<close> returns a tree or an error. The theory
  first shows that every method moves forward (\<open>advP\<close>, \<open>leP\<close>), then that no slice expression is
  out of range and that the fuel lasts (\<open>safe\<close>), both by rules that follow the code.
\<close>

subsection \<open>Progress of the expression parser\<close>

lemma parseVectorMatching_leP: "leP p (parseVectorMatching U p)"
  by (auto simp: parseVectorMatching_def Let_def intro!: adv_rules)

lemma quantileNumber_rules [adv_rules]: "le p q \<Longrightarrow> curTyp q \<noteq> TokEOF \<Longrightarrow> leP p (quantileNumber U sign q)"
  by (auto simp: quantileNumber_def split: sum.split intro!: adv_rules)

lemma parseQuantileParam_leP: "leP p (parseQuantileParam U p)"
  by (auto simp: parseQuantileParam_def Let_def intro!: adv_rules)

lemma parseAtModifier_leP: "leP p (parseAtModifier U p)"
  by (auto simp: parseAtModifier_def Let_def intro!: adv_rules)

lemmas parseAtModifier_rules [adv_rules] = lift_leP [OF parseAtModifier_leP]

lemma parseRange_advP: "advP p (parseRange U p)"
  by (auto simp: parseRange_def Let_def intro!: adv_rules)

lemma parseOptGrouping_leP: "leP p (parseOptGrouping U p)"
  using advP_leP [OF parseGrouping_advP, of p U] by (auto simp: parseOptGrouping_def intro!: adv_rules)

lemma parseK_leP: "leP p (parseK U oper p)"
  by (auto simp: parseK_def split: sum.split intro!: adv_rules)

lemmas metric_rules [adv_rules] =
  lift_leP [OF parseVectorMatching_leP] lift_leP [OF parseQuantileParam_leP] lift_advP [OF parseRange_advP]
  lift_leP [OF parseOptGrouping_leP] lift_leP [OF parseK_leP]

lemma balancedParens_le: "le p (snd (balancedParens U d e p))"
proof (induction U d e p rule: balancedParens.induct)
  case (1 U d e p)
  then show ?case
    by (subst balancedParens.simps) (auto intro: le_trans [OF skip_rules(1) [OF le_refl]])
qed

lemma parseOpaque_advP:
  assumes "curTyp p \<noteq> TokEOF"
  shows "advP p (parseOpaque U p)"
proof -
  have "adv p (snd (consumeBalancedParens U (skip U (skip U p))))" if "curTyp (skip U p) = TokLParen"
    using assms that adv_le_trans [OF adv_trans [OF adv_skip [of p U] adv_skip [of "skip U p" U]] balancedParens_le]
    by (simp add: consumeBalancedParens_def split_beta)
  then show ?thesis
    by (auto simp: parseOpaque_def Let_def split_beta split: prod.split option.split intro!: adv_rules)
qed

lemma parseNumber_rules [adv_rules]: "le p q \<Longrightarrow> curTyp q \<noteq> TokEOF \<Longrightarrow> advP p (parseNumber U sign q)"
  by (auto simp: parseNumber_def split: sum.split intro!: adv_rules)

theorem expr_progress:
  "advP p (parseExpr U n p)"
  "advP p (parsePrimary U n p)"
  "0 < m \<Longrightarrow> leP p (parseBinaryRHS U n lhs m p)"
  "curTyp p \<noteq> TokEOF \<Longrightarrow> advP p (parseVectorAggregation U n vop p)"
  "curTyp p \<noteq> TokEOF \<Longrightarrow> advP p (parseRangeAggregation U n rop p)"
proof (induction n arbitrary: p lhs m vop rop)
  case (Suc n)
  note step [adv_rules] = lift_advP [OF Suc(1)] lift_advP [OF Suc(2)] 
  have rhs [adv_rules]: "le p q \<Longrightarrow> 0 < m \<Longrightarrow> leP p (parseBinaryRHS U n lhs m q)" for p q lhs m
    by (rule lift_leP [OF Suc(3)])
  {
    case 1
    show ?case by (auto intro!: adv_rules)
  next
    case 2
    show ?case
      using Suc(4,5) by (auto split: option.split intro!: adv_rules parseOpaque_advP)
  next
    case 3
    have "binaryPrecedence TokEOF = 0" by (simp add: binaryPrecedence_def)
    with 3 show ?case
      by (auto simp: Let_def intro!: adv_rules)
  next
    case 4
    then have "leP (skip U p) (parseVectorAggregation U (Suc n) vop p)" by (auto intro!: adv_rules)
    with 4 show ?case using adv_skip [of p U] by (auto simp: advP_def leP_def intro: adv_le_trans)
  next
    case 5
    then show ?case by (auto split: option.split intro!: adv_rules)
  }
qed (auto intro!: adv_rules)

subsection \<open>Safety of the query parser\<close>

named_theorems safe_rules "methods that neither panic nor run out of fuel"

definition safe :: "'a res \<Rightarrow> bool" where
  "safe r \<longleftrightarrow> r \<noteq> Panic \<and> r \<noteq> Loop"

lemma safe_results [simp, safe_rules]: "safe (Ok x)" "safe (Err e)"
  by (simp_all add: safe_def)

lemma safe_bind [safe_rules]: "safe r \<Longrightarrow> (\<And>x q. r = Ok (x, q) \<Longrightarrow> safe (f (x, q))) \<Longrightarrow> safe (bindR r f)"
  by (cases r) (auto simp: safe_def)

lemma safe_mapErr [safe_rules]: "safe r \<Longrightarrow> safe (mapErr f r)"
  by (cases r) (auto simp: safe_def)

lemma safe_if [safe_rules]: "(b \<Longrightarrow> safe x) \<Longrightarrow> (\<not> b \<Longrightarrow> safe y) \<Longrightarrow> safe (if b then x else y)"
  by simp

lemma safe_expect [safe_rules]: "safe (expect U typ p)"
  by (simp add: expect_def)

lemma expectStringOrRaw_safe [safe_rules]: "safe (expectStringOrRaw U p)"
  by (induction U p rule: expectStringOrRaw.induct)
    (subst expectStringOrRaw.simps, auto simp: Let_def intro!: safe_rules)

lemma parseLabelMatcher_safe [safe_rules]: "safe (parseLabelMatcher U p)"
  by (auto simp: parseLabelMatcher_def split: option.split intro!: safe_rules)

lemma matcherLoop_safe [safe_rules]: "safe (matcherLoop U ms p)"
  by (induction U ms p rule: matcherLoop.induct) (subst matcherLoop.simps, auto intro!: safe_rules)

lemma parseStreamSelector_safe [safe_rules]: "safe (parseStreamSelector U p)"
  by (auto simp: parseStreamSelector_def intro!: safe_rules)

lemma parseLabelList_safe [safe_rules]: "safe (parseLabelList U p)"
  by (auto simp: parseLabelList_def split_beta intro!: safe_rules)

lemma parseGrouping_safe [safe_rules]: "safe (parseGrouping U p)"
  by (auto simp: parseGrouping_def split_beta Let_def intro!: safe_rules)

lemma parseLineFilterOrList_safe [safe_rules]: "safe (parseLineFilterOrList U out p)"
  by (induction U out p rule: parseLineFilterOrList.induct)
    (subst parseLineFilterOrList.simps, auto intro!: safe_rules)

lemma parseLineFilterStage_safe [safe_rules]: "safe (parseLineFilterStage U p)"
  by (auto simp: parseLineFilterStage_def Let_def intro!: safe_rules)

lemma dropKeepItem_safe [safe_rules]: "safe (dropKeepItem U ls ms p)"
  by (auto simp: dropKeepItem_def Let_def split: option.split intro!: safe_rules)

lemma dropKeepLoop_safe [safe_rules]: "safe (dropKeepLoop U ls ms p)"
  by (induction U ls ms p rule: dropKeepLoop.induct) (subst dropKeepLoop.simps, auto intro!: safe_rules)

lemma parseDropKeepList_safe [safe_rules]: "safe (parseDropKeepList U p)"
  by (auto simp: parseDropKeepList_def intro!: safe_rules)

lemma explicitField_safe [safe_rules]: "safe (explicitField U p)"
  by (auto simp: explicitField_def Let_def intro!: safe_rules)

lemma explicitFields_safe [safe_rules]: "safe (explicitFields U e fs p)"
  by (induction U e fs p rule: explicitFields.induct)
    (subst explicitFields.simps, auto simp: Let_def intro!: safe_rules)

lemma labelFormatEntry_safe [safe_rules]: "safe (labelFormatEntry U raw p)"
  by (auto simp: labelFormatEntry_def Let_def intro!: safe_rules)

lemma labelFormatLoop_safe [safe_rules]: "safe (labelFormatLoop U raw fs p)"
  by (induction U raw fs p rule: labelFormatLoop.induct) (subst labelFormatLoop.simps, auto intro!: safe_rules)

lemma parseUnwrap_safe [safe_rules]: "safe (parseUnwrap U p)"
  by (auto simp: parseUnwrap_def Let_def intro!: safe_rules)

text \<open>A parser whose scanner reads the parser's input and has not run past it.\<close>

definition wf_parser :: "parser \<Rightarrow> bool" where
  "wf_parser p \<longleftrightarrow> src (sc p) = input p \<and> scPos p \<le> length (input p) \<and> token_ok p"

lemma adv_wf: "adv p q \<Longrightarrow> wf_parser p \<Longrightarrow> wf_parser q"
  by (auto simp: adv_def wf_parser_def forward_def)

lemma le_wf: "le p q \<Longrightarrow> wf_parser p \<Longrightarrow> wf_parser q"
  by (auto simp: le_def intro: adv_wf)

lemma le_pos: "le p q \<Longrightarrow> scPos p \<le> scPos q"
  by (auto simp: le_def adv_def forward_def)

lemma explicitField_end:
  assumes "explicitField U p = Ok ((e, f), q)" "curTyp p \<noteq> TokEOF"
  shows "scPos p \<le> e \<and> e \<le> scPos q"
proof -
  have "le p (skip U p)" using assms(2) by (auto intro!: adv_rules)
  moreover have "le (skip U p) (skip U (skip U p)) \<and> le (skip U (skip U p)) (skip U (skip U (skip U p)))"
    if "curTyp (skip U p) = TokEq" "curTyp (skip U (skip U p)) \<noteq> TokEOF"
    using that by (auto intro!: adv_rules)
  ultimately show ?thesis
    using assms(1) by (fastforce simp: explicitField_def Let_def split: if_splits dest: le_pos)
qed

lemma explicitFields_end:
  "explicitFields U e fs p = Ok ((e', fs'), q) \<Longrightarrow> e \<le> scPos p \<Longrightarrow> e \<le> e' \<and> e' \<le> scPos q"
proof (induction U e fs p rule: explicitFields.induct)
  case (1 U e fs p)
  show ?case
  proof (cases "curTyp p = TokIdent")
    case True
    with "1.prems" obtain e1 f p1 where f: "explicitField U p = Ok ((e1, f), p1)"
      by (subst (asm) explicitFields.simps, cases "explicitField U p") auto
    note e1 = explicitField_end [OF f]
    show ?thesis
    proof (cases "curTyp p1 = TokComma")
      case comma: True
      with "1.prems" True f have r: "curTyp (skip U p1) = TokIdent"
        "explicitFields U (scPos p1) (fs @ [f]) (skip U p1) = Ok ((e', fs'), q)"
        by (subst (asm) explicitFields.simps, auto simp: Let_def split: if_splits)+
      have "le p1 (skip U p1)" using comma by (auto intro!: adv_rules)
      then have "scPos p1 \<le> e' \<and> e' \<le> scPos q"
        using "1.IH" [OF True f refl _ refl] comma r by (auto dest: le_pos)
      with e1 True "1.prems"(2) show ?thesis by auto
    next
      case False
      with "1.prems" True f e1 show ?thesis by (subst (asm) explicitFields.simps) auto
    qed
  next
    case False
    with "1.prems" show ?thesis by (subst (asm) explicitFields.simps) auto
  qed
qed

lemma consumeExplicitFieldList_safe:
  assumes "wf_parser p" "start \<le> scPos p"
  shows "safe (consumeExplicitFieldList U start p)"
proof -
  have bounds: "start \<le> e \<and> e \<le> length (input q)"
    if f: "explicitFields U start [] p = Ok ((e, fs), q)" for e fs q
  proof -
    have "wf_parser q" using f explicitFields_leP [of p U start "[]"] assms(1) by (auto simp: leP_def intro: le_wf)
    with explicitFields_end [OF f assms(2)] show ?thesis by (simp add: wf_parser_def)
  qed
  then show ?thesis
    unfolding consumeExplicitFieldList_def
    by (intro safe_bind explicitFields_safe) (auto simp: goSlice_def dest: bounds)
qed

lemma skip_wf: "wf_parser p \<Longrightarrow> curTyp p \<noteq> TokEOF \<Longrightarrow> wf_parser (skip U p)"
  by (rule adv_wf [OF adv_skip])

lemma fieldListStage_safe: "wf_parser p \<Longrightarrow> curTyp p \<noteq> TokEOF \<Longrightarrow> safe (fieldListStage U typ p)"
  unfolding fieldListStage_def
  by (intro safe_bind consumeExplicitFieldList_safe skip_wf le_pos) (auto intro!: adv_rules)

lemma parsePipeBody_safe: "wf_parser p \<Longrightarrow> safe (parsePipeBody U p)"
  using fieldListStage_safe [of p U]
  by (auto simp: parsePipeBody_def stringStage_def parseLabelFormat_def Let_def split_beta intro!: safe_rules)

lemma parsePipelineStage_safe: "wf_parser p \<Longrightarrow> safe (parsePipelineStage U p)"
  using parsePipeBody_safe [OF skip_wf [of p U]] by (auto simp: parsePipelineStage_def intro!: safe_rules)

lemma stageLoop_safe: "wf_parser p \<Longrightarrow> safe (stageLoop U ss p)"
proof (induction U ss p rule: stageLoop.induct)
  case (1 U ss p)
  have "safe (stageLoop U (ss @ [s]) q)" if "parsePipelineStage U p = Ok (Some s, q)" for s q
    using 1 that adv_wf [OF parsePipelineStage_adv [OF that]] by blast
  then show ?case
    using parsePipelineStage_safe [OF "1.prems"]
    by (subst stageLoop.simps) (auto split: option.split intro!: safe_bind)
qed

lemma parseLogQuery_safe: "wf_parser p \<Longrightarrow> safe (parseLogQuery U p)"
  unfolding parseLogQuery_def using parseStreamSelector_advP [of p U]
  by (auto intro!: safe_rules stageLoop_safe intro: adv_wf simp: advP_def)

subsection \<open>Safety of the expression parser\<close>

lemma metric_helpers_safe [safe_rules]:
  "safe (parseVectorMatching U p)" "safe (quantileNumber U sign p)" "safe (parseAtModifier U p)"
  "safe (parseOptGrouping U p)" "safe (parseK U vop p)" "safe (parseNumber U sign p)"
  by (auto simp: parseVectorMatching_def quantileNumber_def parseAtModifier_def parseOptGrouping_def parseK_def
      parseNumber_def Let_def split: sum.split intro!: safe_rules)

lemma parseQuantileParam_safe [safe_rules]: "safe (parseQuantileParam U p)"
  by (auto simp: parseQuantileParam_def Let_def intro!: safe_rules)

lemma parseRange_safe [safe_rules]: "safe (parseRange U p)"
  by (auto simp: parseRange_def Let_def intro!: safe_rules)

lemma balancedParens_end:
  "wf_parser p \<Longrightarrow> e \<le> length (input p) \<Longrightarrow> snd (fst (balancedParens U d e p)) \<le> length (input p)"
proof (induction U d e p rule: balancedParens.induct)
  case (1 U d e p)
  show ?case
  proof (cases "0 < d \<and> curTyp p \<noteq> TokEOF")
    case True
    then have "wf_parser (skip U p)" using 1 by (auto intro: skip_wf)
    with 1 True show ?thesis by (subst balancedParens.simps) (auto simp: wf_parser_def)
  next
    case False
    with 1 show ?thesis by (subst balancedParens.simps) auto
  qed
qed

lemma parseOpaque_safe:
  assumes "wf_parser p" "curTyp p = TokIdent"
  shows "safe (parseOpaque U p)"
proof -
  have start: "0 \<le> int (scPos p) - int (length (curVal p))" using assms by (simp add: wf_parser_def token_ok_def)
  have "e \<le> length (input p)"
    if "consumeBalancedParens U (skip U (skip U p)) = (Some e, q)" "curTyp (skip U p) = TokLParen" for e q
  proof -
    have "wf_parser (skip U (skip U p))" using assms that(2) by (auto intro!: skip_wf)
    from balancedParens_end [OF this, of 0 U 1] that(1) show ?thesis
      by (auto simp: consumeBalancedParens_def split_beta split: if_splits)
  qed
  with start show ?thesis
    by (auto simp: parseOpaque_def Let_def goSlice_def split: prod.split option.split)
qed

text \<open>The bind rule for a method that runs behind some consumed token of \<open>p\<close>.\<close>

lemma safe_bind_adv: "safe r \<Longrightarrow> advP p r \<Longrightarrow> (\<And>x q. adv p q \<Longrightarrow> safe (f (x, q))) \<Longrightarrow> safe (bindR r f)"
  by (cases r) (auto simp: safe_def advP_def)

lemma advP_from: "adv p q \<Longrightarrow> leP q r \<Longrightarrow> advP p r"
  by (auto simp: leP_def advP_def intro: adv_le_trans)

lemma expr_safe:
  "wf_parser p \<Longrightarrow> 4 * remaining p + 4 \<le> n \<Longrightarrow> safe (parseExpr U n p)"
  "wf_parser p \<Longrightarrow> 4 * remaining p + 3 \<le> n \<Longrightarrow> safe (parsePrimary U n p)"
  "wf_parser p \<Longrightarrow> 0 < m \<Longrightarrow> 4 * remaining p + 1 \<le> n \<Longrightarrow> safe (parseBinaryRHS U n lhs m p)"
  "wf_parser p \<Longrightarrow> curTyp p \<noteq> TokEOF \<Longrightarrow> 4 * remaining p + 2 \<le> n \<Longrightarrow> safe (parseVectorAggregation U n vop p)"
  "wf_parser p \<Longrightarrow> curTyp p \<noteq> TokEOF \<Longrightarrow> 4 * remaining p + 2 \<le> n \<Longrightarrow> safe (parseRangeAggregation U n rop p)"
proof (induction n arbitrary: p lhs m vop rop)
  case (Suc n)
  have E: "safe (parseExpr U n q)" if "adv p q" "wf_parser p" "4 * remaining p + 1 \<le> Suc n" for p q
    using that by (intro Suc(1)) (auto dest: adv_remaining adv_wf)
  have P: "safe (parsePrimary U n q)" if "adv p q" "wf_parser p" "4 * remaining p + 1 \<le> Suc n" for p q
    using that by (intro Suc(2)) (auto dest: adv_remaining adv_wf)
  have R: "safe (parseBinaryRHS U n lhs m q)" if "adv p q" "wf_parser p" "0 < m" "4 * remaining p + 1 \<le> Suc n" for p q lhs m
    using that by (intro Suc(3)) (auto dest: adv_remaining adv_wf)
  {
    case 1
    have "safe (parsePrimary U n p)" using 1 by (intro Suc(2)) auto
    moreover have "safe (parseBinaryRHS U n lhs 1 q)" if "parsePrimary U n p = Ok (lhs, q)" for lhs q
      using that 1 expr_progress(2) [of p U n] by (intro R [of p]) (auto simp: advP_def)
    ultimately show ?case by (auto intro!: safe_bind)
  next
    case 2
    have "safe (parseExpr U n (skip U p))" if "curTyp p = TokLParen"
      using that 2 by (intro E [of p]) (auto intro: adv_skip)
    moreover have "safe (parseVectorAggregation U n vop p)" "safe (parseRangeAggregation U n rop p)"
      if "curTyp p = TokIdent" for vop rop
      using that 2 by (intro Suc(4,5); auto)+
    ultimately show ?case
      using 2 by (auto split: option.split intro!: safe_rules parseOpaque_safe parseLogQuery_safe)
  next
    case 3
    show ?case
    proof (cases "binaryPrecedence (curTyp p) < m")
      case False
      then have "curTyp p \<noteq> TokEOF" using 3 by (auto simp: binaryPrecedence_def)
      define p2 where "p2 = (if curTyp (skip U p) = TokIdent \<and> curVal (skip U p) = ''bool'' then skip U (skip U p) else skip U p)"
      have p2: "adv p p2" using \<open>curTyp p \<noteq> TokEOF\<close> by (auto simp: p2_def intro!: adv_rules)
      have V: "advP p (parseVectorMatching U p2)" by (rule advP_from [OF p2 parseVectorMatching_leP])
      have P': "advP p (parsePrimary U n q)" if "adv p q" for q
        using advP_from [OF that advP_leP [OF expr_progress(2)]] .
      have R': "advP p (parseBinaryRHS U n l k q)" if "adv p q" "0 < k" for q l k
        using advP_from [OF that(1) expr_progress(3) [OF that(2)]] .
      show ?thesis
        using False 3
        by (auto simp: Let_def simp flip: p2_def
            intro!: safe_bind_adv [where p = p] V P' R' P [of p] R [of p] metric_helpers_safe(1))
    qed simp
  next
    case 4
    have sp: "adv p (skip U p)" using 4 by (auto intro: adv_skip)
    have G: "advP p (parseOptGrouping U q)" "advP p (expect U TokLParen q)" "advP p (expect U TokRParen q)"
      "advP p (parseK U vop q)" "advP p (parseExpr U n q)"
      if "adv p q" for q
      by (rule advP_from [OF that]; auto intro!: adv_rules advP_leP [OF expr_progress(1)])+
    show ?case
      using 4 sp by (auto intro!: safe_bind_adv [where p = p] G safe_results safe_if safe_expect metric_helpers_safe E [of p] result_rules)
  next
    case 5
    have sp: "adv p (skip U p)" using 5 by (auto intro: adv_skip)
    have G: "advP p (parseOptGrouping U q)" "advP p (expect U TokLParen q)" "advP p (parseQuantileParam U q)"
      "advP p (parsePrimary U n q)" "advP p (parseRange U q)" "advP p (parseLogQuery U q)"
      if "adv p q" for q
      by (rule advP_from [OF that]; auto intro!: adv_rules advP_leP [OF expr_progress(2)])+
    show ?case
      using 5 sp
      by (auto split: option.split intro!: safe_bind_adv [where p = p] G safe_results safe_if safe_expect
          metric_helpers_safe parseQuantileParam_safe parseRange_safe P [of p] parseLogQuery_safe adv_wf [of p] if_rules result_rules bind_rules)
  }
qed simp_all

lemma start_parser: "wf_parser (skip U (newParser s))" "remaining (skip U (newParser s)) \<le> length s + 1"
proof -
  have n: "sc (newParser s) = newScanner s" "src (newScanner s) = s" "pos (newScanner s) = 0" "input (newParser s) = s"
    by (simp_all add: newParser_def newScanner_def)
  have f: "forward (newScanner s) (snd (scan_next U (newScanner s)))" by (rule scan_next_forward)
  show "wf_parser (skip U (newParser s))"
    using f scan_next_ident [of U "newScanner s"] scan_next_fixed [of U "newScanner s"]
    by (simp add: wf_parser_def token_ok_def skip_sc forward_def n)
  show "remaining (skip U (newParser s)) \<le> length s + 1"
    using f by (simp add: remaining_def skip_sc forward_def n)
qed

text \<open>
  C24: \<open>Parse\<close> is total. For every input and every extension of the Unicode tables it returns
  a syntax tree or an error: the recursion ends within the given fuel and no slice of the input
  is taken out of range.
\<close>

theorem parse_total: "(\<exists>e. Parse U s = Ok e) \<or> (\<exists>err. Parse U s = Err err)"
proof -
  have "safe (parseExpr U (4 * length s + 8) (skip U (newParser s)))"
    using start_parser [of U s] by (intro expr_safe(1)) auto
  then have "safe (Parse U s)"
    unfolding Parse_def by (intro safe_bind) (auto intro!: safe_rules)
  then show ?thesis by (cases "Parse U s") (auto simp: safe_def)
qed

end
