(* ===== verification/LogqlRoundtrip.thy ===== *)
theory LogqlRoundtrip
  imports LogqlLex LogqlTotal
begin

text \<open>
  Parsing what the printer prints. For every syntax tree node the theory gives its lexemes, shows
  that their text is what \<open>String\<close> prints, and that the parser turns the tokens back into the node.
\<close>

abbreviation J :: "lexeme \<Rightarrow> item" where
  "J lx \<equiv> (False, lx)"

abbreviation S :: "lexeme \<Rightarrow> item" where
  "S lx \<equiv> (True, lx)"

fun space_first :: "item list \<Rightarrow> item list" where
  "space_first [] = []"
| "space_first ((sp, lx) # is) = (True, lx) # is"

fun join_items :: "item list list \<Rightarrow> item list" where
  "join_items [] = []"
| "join_items [x] = x"
| "join_items (x # y # zs) = x @ J (LxOp TokComma) # space_first (join_items (y # zs))"

lemma skip_skipn: "skip U (skipn U n p) = skipn U (n + 1) p"
  by (induction n arbitrary: p) auto

lemma space_first_simps [simp]:
  "toks (space_first is) = toks is" "length (space_first is) = length is" "(space_first is = []) = (is = [])"
  "is \<noteq> [] \<Longrightarrow> fst (hd (space_first is))" "is \<noteq> [] \<Longrightarrow> snd (hd (space_first is)) = snd (hd is)"
  by (cases "is"; auto)+

lemma space_first_text:
  "is \<noteq> [] \<Longrightarrow> \<not> fst (hd is) \<Longrightarrow> items_text U (space_first is) = '' '' @ items_text U is"
  by (cases "is") (auto simp: item_text_def)

lemma space_first_append [simp]: "is \<noteq> [] \<Longrightarrow> space_first (is @ js) = space_first is @ js"
  by (cases "is") auto

lemma lex_chain_space_first [simp]: "lex_chain U d (space_first is) = lex_chain U d is"
  by (cases "is") auto

lemma join_items_nonempty: "xs \<noteq> [] \<Longrightarrow> \<forall>x\<in>set xs. x \<noteq> [] \<Longrightarrow> join_items xs \<noteq> [] \<and> hd (join_items xs) = hd (hd xs)"
  by (cases xs rule: join_items.cases) auto

lemma space_first_last [simp]: "is \<noteq> [] \<Longrightarrow> snd (last (space_first is)) = snd (last is)"
  by (cases "is") auto

lemma join_items_last:
  "xs \<noteq> [] \<Longrightarrow> \<forall>x\<in>set xs. x \<noteq> [] \<Longrightarrow> snd (last (join_items xs)) = snd (last (last xs))"
proof (induction xs rule: join_items.induct)
  case (3 x y zs)
  with join_items_nonempty [of "y # zs"] show ?case by (simp add: last_append)
qed auto

lemma join_items_text:
  "\<forall>x\<in>set xs. x \<noteq> [] \<and> \<not> fst (hd x) \<Longrightarrow> items_text U (join_items xs) = Join (map (items_text U) xs) '', ''"
proof (induction xs rule: join_items.induct)
  case (3 x y zs)
  then have "join_items (y # zs) \<noteq> []" "\<not> fst (hd (join_items (y # zs)))"
    using join_items_nonempty [of "y # zs"] by auto
  with 3 show ?case by (simp add: space_first_text item_text_def)
qed simp_all

subsection \<open>Chains of lexemes\<close>

text \<open>
  Depth of braces behind a text, and what may follow it. \<open>ends_with\<close> says that the last lexeme
  stops before the character \<open>c\<close>.
\<close>

fun chain_depth :: "nat \<Rightarrow> item list \<Rightarrow> nat" where
  "chain_depth d [] = d"
| "chain_depth d ((sp, lx) # is) = chain_depth (lx_depth d lx) is"

lemma chain_depth_append [simp]: "chain_depth d (is @ js) = chain_depth (chain_depth d is) js"
  by (induction d "is" rule: chain_depth.induct) auto

lemma lex_chain_append:
  "lex_chain U d (is @ js) \<longleftrightarrow>
     lex_chain U d is \<and> lex_chain U (chain_depth d is) js \<and>
     (is = [] \<or> js = [] \<or> fst (hd js) \<or> lx_stop (snd (last is)) (hd (lx_text U (snd (hd js)))))"
  by (induction U d "is" rule: lex_chain.induct) (auto simp: hd_append)

text \<open>Lists that keep the brace depth and that may stand before a comma.\<close>

definition closed :: "unicode \<Rightarrow> nat \<Rightarrow> item list \<Rightarrow> bool" where
  "closed U d is \<longleftrightarrow>
     is \<noteq> [] \<and> lex_chain U d is \<and> chain_depth d is = d \<and> lx_stop (snd (last is)) (CHR '','')"

lemma chain_depth_space_first [simp]: "chain_depth d (space_first is) = chain_depth d is"
  by (cases "is") auto

lemma join_items_closed: "xs \<noteq> [] \<Longrightarrow> \<forall>x\<in>set xs. closed U d x \<Longrightarrow> closed U d (join_items xs)"
proof (induction xs rule: join_items.induct)
  case (3 x y zs)
  then have IH: "closed U d (join_items (y # zs))" by simp
  then have "join_items (y # zs) \<noteq> []" "space_first (join_items (y # zs)) \<noteq> []" by (auto simp: closed_def)
  then show ?case
    using 3 IH by (auto simp: closed_def lex_chain_append free_text_def)
qed auto

subsection \<open>Selectors\<close>

fun matchTok :: "MatchOp \<Rightarrow> TokType" where
  "matchTok MatchEq = TokEq"
| "matchTok MatchNeq = TokNeq"
| "matchTok MatchRe = TokReMatch"
| "matchTok MatchNotRe = TokReNotMatch"

definition matcher_items :: "LabelMatcher \<Rightarrow> item list" where
  "matcher_items m = [J (LxIdent (lm_Name m)), J (LxOp (matchTok (lm_Op m))), J (LxString (lm_Value m))]"

definition selector_items :: "StreamSelector \<Rightarrow> item list" where
  "selector_items s = J (LxOp TokLBrace) # join_items (map matcher_items (Matchers s)) @ [J (LxOp TokRBrace)]"

definition wf_selector :: "StreamSelector \<Rightarrow> bool" where
  "wf_selector s \<longleftrightarrow> list_all (\<lambda>m. wf_ident (lm_Name m)) (Matchers s)"

lemma Quote_head [simp]: "hd (Quote U v) = CHR 0x22" "Quote U v \<noteq> []"
  by (simp_all add: Quote_def)

lemma matcher_text: "items_text U (matcher_items m) = LabelMatcher_String U m"
  by (cases "lm_Op m") (simp_all add: matcher_items_def LabelMatcher_String_def item_text_def)

lemma selector_text: "items_text U (selector_items s) = StreamSelector_String U s"
proof -
  have "items_text U (join_items (map matcher_items (Matchers s))) = Join (map (items_text U) (map matcher_items (Matchers s))) '', ''"
    by (rule join_items_text) (simp add: matcher_items_def)
  then show ?thesis by (simp add: selector_items_def StreamSelector_String_def item_text_def matcher_text comp_def)
qed

lemma word_head: "wf_ident n \<Longrightarrow> n \<noteq> [] \<and> \<not> ident_char (CHR ''='')"
  by (auto simp: wf_ident_def wf_word_def ident_char_def isAlphanumeric_def)

lemma matcher_closed:
  assumes "wf_ident (lm_Name m)" "0 < d"
  shows "closed U d (matcher_items m)"
  using assms
  by (cases "lm_Op m")
    (auto simp: closed_def matcher_items_def free_text_def word_end_def ident_char_def isAlphanumeric_def keyword_def)

lemma selector_chain:
  assumes "wf_selector s"
  shows "lex_chain U 0 (selector_items s)" "chain_depth 0 (selector_items s) = 0"
    "selector_items s \<noteq> []" "last (selector_items s) = J (LxOp TokRBrace)"
proof -
  let ?is = "join_items (map matcher_items (Matchers s))"
  have c: "closed U 1 ?is" if "Matchers s \<noteq> []"
    using that assms by (intro join_items_closed) (auto simp: wf_selector_def list_all_iff intro: matcher_closed)
  have "lex_chain U 0 (selector_items s) \<and> chain_depth 0 (selector_items s) = 0"
  proof (cases "Matchers s = []")
    case False
    then have "snd (last ?is) = snd (last (matcher_items (last (Matchers s))))"
      using join_items_last [of "map matcher_items (Matchers s)"] by (simp add: matcher_items_def last_map)
    then have "lx_stop (snd (last ?is)) (CHR ''}'')" by (simp add: matcher_items_def)
    with c False show ?thesis
      by (auto simp: selector_items_def lex_chain_append closed_def free_text_def keyword_def)
  qed (simp add: selector_items_def free_text_def keyword_def)
  then show "lex_chain U 0 (selector_items s)" "chain_depth 0 (selector_items s) = 0" by simp_all
qed (simp_all add: selector_items_def)

lemma parse_matcher:
  assumes "sees U p (toks (matcher_items m))"
  shows "parseLabelMatcher U p = Ok (m, skipn U 3 p)"
  using assms
  by (cases "lm_Op m")
    (simp_all add: matcher_items_def parseLabelMatcher_def expect_def advance_skip matchOpOf_def
      expectStringOrRaw.simps numeral_3_eq_3)

lemma parse_matchers:
  assumes "sees U p (toks (join_items (map matcher_items (m # ms))) @ [t])" "Typ t \<noteq> TokComma"
  shows "matcherLoop U acc p = Ok (acc @ m # ms, skipn U (length (join_items (map matcher_items (m # ms)))) p)"
  using assms
proof (induction ms arbitrary: m acc p)
  case Nil
  then have "parseLabelMatcher U p = Ok (m, skipn U 3 p)" "cur (skipn U 3 p) = t"
    using parse_matcher [of U p m] by (simp_all add: sees_append matcher_items_def numeral_3_eq_3)
  with Nil show ?case by (subst matcherLoop.simps) (simp add: matcher_items_def numeral_3_eq_3)
next
  case (Cons m' ms)
  let ?rest = "join_items (map matcher_items (m' # ms))"
  have e: "join_items (map matcher_items (m # m' # ms)) = matcher_items m @ J (LxOp TokComma) # space_first ?rest" by simp
  have l: "length (matcher_items m) = 3" by (simp add: matcher_items_def)
  from Cons.prems(1) have s: "sees U p (toks (matcher_items m))" "cur (skipn U 3 p) = Tok TokComma '',''"
    "sees U (skip U (skipn U 3 p)) (toks ?rest @ [t])"
    unfolding e by (simp_all add: sees_append l del: join_items.simps)
  have "matcherLoop U acc p = matcherLoop U (acc @ [m]) (skip U (skipn U 3 p))"
    using parse_matcher [OF s(1)] s(2) by (subst matcherLoop.simps) simp
  also have "\<dots> = Ok ((acc @ [m]) @ m' # ms, skipn U (length ?rest) (skip U (skipn U 3 p)))"
    by (rule Cons.IH [OF s(3) Cons.prems(2)])
  also have "skipn U (length ?rest) (skip U (skipn U 3 p)) = skipn U (length (join_items (map matcher_items (m # m' # ms)))) p"
    unfolding e by (simp add: l skipn_add skip_skipn del: join_items.simps)
  finally show ?case by simp
qed

lemma parse_selector:
  assumes "sees U p (toks (selector_items s))"
  shows "parseStreamSelector U p = Ok (s, skipn U (length (selector_items s)) p)"
proof (cases "Matchers s")
  case Nil
  with assms show ?thesis
    by (cases s) (simp add: selector_items_def parseStreamSelector_def expect_def advance_skip)
next
  case (Cons m ms)
  let ?is = "join_items (map matcher_items (m # ms))"
  have s: "cur p = Tok TokLBrace ''{''" "sees U (skip U p) (toks ?is @ [Tok TokRBrace ''}''])"
    using assms by (simp_all add: selector_items_def Cons del: join_items.simps)
  obtain i "is" where "?is = i # is" "snd i = LxIdent (lm_Name m)"
    using join_items_nonempty [of "map matcher_items (m # ms)"]
    by (cases ?is) (auto simp: matcher_items_def)
  then have "curTyp (skip U p) = TokIdent" using s(2) by auto
  moreover note parse_matchers [OF s(2), of "[]"]
  moreover have "cur (skipn U (length ?is) (skip U p)) = Tok TokRBrace ''}''" using s(2) by (simp add: sees_append)
  ultimately show ?thesis
    using s(1) Cons
    by (cases s) (simp add: selector_items_def parseStreamSelector_def expect_def advance_skip skipn_add skip_skipn
        del: join_items.simps)
qed

subsection \<open>Line filters\<close>

fun lineTok :: "LineFilterOp \<Rightarrow> TokType" where
  "lineTok LineFilterContains = TokPipeEq"
| "lineTok LineFilterExcludes = TokBangEq"
| "lineTok LineFilterMatchRe = TokPipeTilde"
| "lineTok LineFilterExcludeRe = TokBangTilde"
| "lineTok LineFilterContainsPat = TokPipeGt"
| "lineTok LineFilterExcludePat = TokBangGt"

definition or_items :: "string list \<Rightarrow> item list" where
  "or_items vs = concat (map (\<lambda>v. [S (LxOp TokOr), S (LxString v)]) vs)"

definition lineFilter_items :: "LineFilter \<Rightarrow> item list" where
  "lineFilter_items f =
     S (LxOp (lineTok (lf_Op f))) #
     (if lf_IP f then [S (LxIdent ''ip''), J (LxOp TokLParen), J (LxString (lf_Value f)), J (LxOp TokRParen)]
      else S (LxString (lf_Value f)) # or_items (lf_Or f))"

definition wf_lineFilter :: "LineFilter \<Rightarrow> bool" where
  "wf_lineFilter f \<longleftrightarrow>
     (lf_IP f \<longrightarrow>
        (lf_Op f = LineFilterContains \<or> lf_Op f = LineFilterExcludes) \<and> validIPPattern (lf_Value f) \<and> lf_Or f = [])"

lemma or_items_simps [simp]:
  "or_items [] = []" "or_items (v # vs) = [S (LxOp TokOr), S (LxString v)] @ or_items vs"
  "length (or_items vs) = 2 * length vs"
  by (simp_all add: or_items_def, induction vs, auto)

lemma or_text: "foldl (\<lambda>out alt. out @ '' or '' @ Quote U alt) b vs = b @ items_text U (or_items vs)"
  by (induction vs arbitrary: b) (simp_all add: item_text_def)

lemma lineFilter_text: "items_text U (lineFilter_items f) = '' '' @ LineFilter_String U f"
  by (cases "lf_Op f") (simp_all add: lineFilter_items_def LineFilter_String_def or_text [simplified] item_text_def Let_def)

lemma or_chain: "lex_chain U d (or_items vs)" "chain_depth d (or_items vs) = d"
  by (induction vs) (auto simp: free_text_def keyword_def lex_chain_append)

lemma wf_ident_ip: "wf_ident ''ip''"
  by (simp add: wf_ident_def wf_word_def word_start_def isAlphanumeric_def is_digit_def ident_char_def keywordTypes_def)

lemma or_items_last: "or_items vs \<noteq> [] \<Longrightarrow> \<exists>v. last (or_items vs) = S (LxString v)"
  by (induction vs) (auto simp: last_append)

text \<open>What follows a stage: nothing that its last lexeme runs into.\<close>

definition stage_chain :: "unicode \<Rightarrow> item list \<Rightarrow> bool" where
  "stage_chain U is \<longleftrightarrow>
     is \<noteq> [] \<and> fst (hd is) \<and> lex_chain U 0 is \<and> chain_depth 0 is = 0 \<and> lx_stop (snd (last is)) (CHR ''['')"

lemma stage_chainI:
  "is \<noteq> [] \<Longrightarrow> fst (hd is) \<Longrightarrow> lex_chain U 0 is \<Longrightarrow> chain_depth 0 is = 0 \<Longrightarrow>
     lx_stop (snd (last is)) (CHR ''['') \<Longrightarrow> stage_chain U is"
  by (simp add: stage_chain_def)

lemma lineFilter_chain: "stage_chain U (lineFilter_items f)"
proof -
  have "lx_stop (snd (last (or_items (lf_Or f)))) (CHR ''['')" if "or_items (lf_Or f) \<noteq> []"
    using or_items_last [OF that] by auto
  then show ?thesis
    using wf_ident_ip or_chain
    by (cases "lf_Op f"; cases "or_items (lf_Or f) = []")
      (auto simp: stage_chain_def lineFilter_items_def free_text_def keyword_def word_end_def ident_char_def
        isAlphanumeric_def)
qed

lemma parse_or_list:
  assumes "sees U p (toks (or_items vs) @ [t])" "Typ t \<noteq> TokOr"
  shows "parseLineFilterOrList U acc p = Ok (acc @ vs, skipn U (length (or_items vs)) p)"
  using assms
proof (induction vs arbitrary: acc p)
  case Nil
  then show ?case by (subst parseLineFilterOrList.simps) simp
next
  case (Cons v vs)
  then have "parseLineFilterOrList U acc p = parseLineFilterOrList U (acc @ [v]) (skip U (skip U p))"
    by (subst parseLineFilterOrList.simps) (simp add: peekTyp_def expectStringOrRaw.simps)
  also have "\<dots> = Ok ((acc @ [v]) @ vs, skipn U (length (or_items vs)) (skip U (skip U p)))"
    using Cons.prems by (intro Cons.IH) simp_all
  finally show ?case by simp
qed

lemma trim_ip: "TrimSuffix (TrimPrefix (''ip('' @ v @ '')'') ''ip('') '')'' = v"
  by (simp add: TrimSuffix_def TrimPrefix_def HasPrefix_def HasSuffix_def)

lemma lineFilterOpOf_lineTok: "lineFilterOpOf (lineTok oper) = oper" "isLineFilterOperator (lineTok oper)"
  by (cases oper; simp add: lineFilterOpOf_def isLineFilterOperator_def)+

lemma parse_lineFilter:
  assumes "sees U p (toks (lineFilter_items f) @ [t])" "wf_lineFilter f" "Typ t \<noteq> TokOr"
  shows "parseLineFilterStage U p = Ok (LineFilterStage f, skipn U (length (lineFilter_items f)) p)"
proof (cases "lf_IP f")
  case True
  with assms have "parseLineFilterStage U p =
      Ok (LineFilterStage \<lparr>lf_Op = lineFilterOpOf (lineTok (lf_Op f)), lf_Value = TrimSuffix (TrimPrefix (''ip('' @ lf_Value f @ '')'') ''ip('') '')'',
        lf_IP = True, lf_Or = []\<rparr>, skipn U 5 p)"
    by (auto simp: lineFilter_items_def parseLineFilterStage_def expectStringOrRaw.simps expect_def advance_skip
        wf_lineFilter_def numeral_eq_Suc)
  with assms(2) True show ?thesis
    unfolding trim_ip lineFilterOpOf_lineTok by (cases f) (simp add: wf_lineFilter_def lineFilter_items_def numeral_eq_Suc)
next
  case False
  with assms(1) have s: "cur p = Tok (lineTok (lf_Op f)) (TokType_String (lineTok (lf_Op f)))"
    "cur (skip U p) = Tok TokString (lf_Value f)" "sees U (skip U (skip U p)) (toks (or_items (lf_Or f)) @ [t])"
    by (simp_all add: lineFilter_items_def)
  with parse_or_list [OF s(3) assms(3), of "[]"] False show ?thesis
    by (cases f) (simp add: parseLineFilterStage_def expectStringOrRaw.simps lineFilterOpOf_lineTok lineFilter_items_def)
qed

subsection \<open>Drop and keep lists\<close>

text \<open>An entry is a label, or a label with an operator and a value.\<close>

type_synonym dk_entry = "string \<times> (TokType \<times> string) option"

fun dk_items :: "dk_entry \<Rightarrow> item list" where
  "dk_items (n, None) = [J (LxIdent n)]"
| "dk_items (n, Some (t, v)) = [J (LxIdent n), J (LxOp t), J (LxString v)]"

definition dk_label :: "dk_entry \<Rightarrow> string list" where
  "dk_label e = (if snd e = None then [fst e] else [])"

fun dk_matcher :: "dk_entry \<Rightarrow> DropMatcher list" where
  "dk_matcher (n, None) = []"
| "dk_matcher (n, Some (t, v)) = [\<lparr>dm_Name = n, dm_Op = TokType_String t, dm_Value = v\<rparr>]"

definition filter_op :: "TokType \<Rightarrow> bool" where
  "filter_op t \<longleftrightarrow> t = TokEq \<or> t = TokBangEq \<or> t = TokReMatch \<or> t = TokBangTilde"

definition wf_dk :: "dk_entry \<Rightarrow> bool" where
  "wf_dk e \<longleftrightarrow> wf_ident (fst e) \<and> (\<forall>t v. snd e = Some (t, v) \<longrightarrow> filter_op t)"

lemma dk_items_ne [simp]: "dk_items e \<noteq> []" "\<not> fst (hd (dk_items e))"
  by (cases e rule: dk_items.cases; simp)+

lemma filter_op_lx: "filter_op t \<Longrightarrow> lx_ok 0 (LxOp t) \<and> lx_depth 0 (LxOp t) = 0 \<and> lx_stop (LxOp t) (CHR 0x22) \<and>
    word_end (hd (TokType_String t)) \<and> dropOpOf t = Some (TokType_String t)"
  by (auto simp: filter_op_def free_text_def keyword_def dropOpOf_def word_end_def ident_char_def isAlphanumeric_def)

lemma word_end_simps [simp]:
  "word_end (CHR '','')" "word_end (CHR ''['')" "word_end (CHR ''('')" "word_end (CHR '')'')" "word_end (CHR '' '')"
  "word_end (CHR ''='')" "word_end (CHR ''}'')"
  by (simp_all add: word_end_def ident_char_def isAlphanumeric_def)

lemma dk_closed: "wf_dk e \<Longrightarrow> closed U 0 (dk_items e)"
  by (cases e rule: dk_items.cases) (auto simp: closed_def wf_dk_def dest!: filter_op_lx)

lemma parse_dk_item:
  assumes "sees U p (toks (dk_items e) @ [t])" "wf_dk e" "snd e = None \<Longrightarrow> \<not> filter_op (Typ t)"
  shows "dropKeepItem U ls ms p = Ok ((ls @ dk_label e, ms @ dk_matcher e), skipn U (length (dk_items e)) p)"
proof (cases e rule: dk_items.cases)
  case (1 n)
  then have "dropOpOf (Typ t) = None" using assms(3) by (cases "Typ t") (auto simp: filter_op_def dropOpOf_def)
  with assms(1) 1 show ?thesis by (simp add: dropKeepItem_def dk_label_def)
next
  case (2 n tt v)
  with assms show ?thesis
    by (auto simp: dropKeepItem_def dk_label_def wf_dk_def expectStringOrRaw.simps dest!: filter_op_lx)
qed

lemma parse_dk_list:
  assumes "sees U p (toks (join_items (map dk_items (e # es))) @ [t])" "\<forall>e\<in>set (e # es). wf_dk e"
    "Typ t \<noteq> TokComma" "snd (last (e # es)) = None \<Longrightarrow> \<not> filter_op (Typ t)"
  shows "dropKeepLoop U ls ms p =
    Ok ((ls @ concat (map dk_label (e # es)), ms @ concat (map dk_matcher (e # es))),
        skipn U (length (join_items (map dk_items (e # es)))) p)"
  using assms
proof (induction es arbitrary: e ls ms p)
  case Nil
  obtain n r where "dk_items e = J (LxIdent n) # r" by (cases e rule: dk_items.cases) auto
  then have "curTyp p = TokIdent" using Nil.prems(1) by simp
  with parse_dk_item [of U p e t ls ms] Nil.prems show ?case
    by (subst dropKeepLoop.simps) (simp add: sees_append)
next
  case (Cons e' es)
  let ?rest = "join_items (map dk_items (e' # es))" and ?n = "length (dk_items e)"
  have eq: "join_items (map dk_items (e # e' # es)) = dk_items e @ J (LxOp TokComma) # space_first ?rest" by simp
  have s: "sees U p (toks (dk_items e) @ [Tok TokComma '',''])" "sees U (skip U (skipn U ?n p)) (toks ?rest @ [t])"
    using Cons.prems(1) unfolding eq by (simp_all add: sees_append del: join_items.simps)
  obtain n r where "dk_items e = J (LxIdent n) # r" by (cases e rule: dk_items.cases) auto
  then have "curTyp p = TokIdent" using s(1) by simp
  moreover have "dropKeepItem U ls ms p = Ok ((ls @ dk_label e, ms @ dk_matcher e), skipn U ?n p)"
    using Cons.prems(2) by (intro parse_dk_item [OF s(1)]) (auto simp: filter_op_def)
  moreover have "curTyp (skipn U ?n p) = TokComma" using s(1) by (simp add: sees_append)
  ultimately have "dropKeepLoop U ls ms p = dropKeepLoop U (ls @ dk_label e) (ms @ dk_matcher e) (skip U (skipn U ?n p))"
    by (subst dropKeepLoop.simps) simp
  also have "\<dots> = Ok (((ls @ dk_label e) @ concat (map dk_label (e' # es)), (ms @ dk_matcher e) @ concat (map dk_matcher (e' # es))),
      skipn U (length ?rest) (skip U (skipn U ?n p)))"
    using Cons.prems(2-4) by (intro Cons.IH [OF s(2)]) auto
  finally show ?case unfolding eq by (simp add: skipn_add skip_skipn del: join_items.simps)
qed

subsection \<open>Label formats\<close>

definition fmt_items :: "LabelFormat \<Rightarrow> item list" where
  "fmt_items f =
     [J (LxIdent (fm_Name f)), J (LxOp TokEq), J (if fm_Rename f then LxIdent (fm_Value f) else LxString (fm_Value f))]"

definition wf_fmt :: "LabelFormat \<Rightarrow> bool" where
  "wf_fmt f \<longleftrightarrow> wf_ident (fm_Name f) \<and> (fm_Rename f \<longrightarrow> wf_ident (fm_Value f))"

lemma fmt_closed: "wf_fmt f \<Longrightarrow> closed U 0 (fmt_items f)"
proof -
  assume f: "wf_fmt f"
  have "byte_of (hd v) < 128 \<and> hd v \<noteq> CHR ''='' \<and> hd v \<noteq> CHR ''~''" if "wf_ident v" for v
    using that char_class_ascii(4) [of "hd v"]
    by (auto simp: wf_ident_def wf_word_def word_start_def isAlphanumeric_def)
  with f show ?thesis by (auto simp: closed_def fmt_items_def wf_fmt_def free_text_def keyword_def)
qed

lemma append_token:
  "b = [] \<or> last b = CHR '' '' \<or> last b = CHR ''='' \<Longrightarrow> appendStageToken U b tok = b @ tokenRaw U tok"
  by (auto simp: appendStageToken_def Let_def isAlphanumeric_def)

lemma append_symbol: "tokenRaw U tok \<noteq> [] \<Longrightarrow> \<not> isAlphanumeric (hd (tokenRaw U tok)) \<Longrightarrow> appendStageToken U b tok = b @ tokenRaw U tok"
  by (simp add: appendStageToken_def Let_def)

lemma parse_fmt:
  assumes "sees U p (toks (fmt_items f))" "raw = [] \<or> last raw = CHR '' ''"
  shows "labelFormatEntry U raw p = Ok ((raw @ items_text U (fmt_items f), f), skipn U 3 p)"
proof -
  have "appendStageToken U raw (Tok TokIdent n) = raw @ n" for n
    using assms(2) append_token [of raw U "Tok TokIdent n"] by (auto simp: tokenRaw_def)
  moreover have "appendStageToken U b (Tok TokEq ''='') = b @ ''=''" for b
    by (subst append_symbol) (auto simp: tokenRaw_def isAlphanumeric_def)
  moreover have "appendStageToken U (b @ c @ ''='') tok = b @ c @ ''='' @ tokenRaw U tok" for b c tok
    by (subst append_token) auto
  ultimately show ?thesis
    using assms(1)
    by (cases f) (auto simp: fmt_items_def labelFormatEntry_def Let_def item_text_def tokenRaw_def numeral_3_eq_3)
qed

lemma parse_fmts:
  assumes "sees U p (toks (join_items (map fmt_items (f # fs))) @ [t])" "Typ t \<noteq> TokComma"
    "raw = [] \<or> last raw = CHR '' ''"
  shows "labelFormatLoop U raw acc p =
    Ok (LabelFormatStage (raw @ items_text U (join_items (map fmt_items (f # fs)))) (acc @ f # fs),
        skipn U (length (join_items (map fmt_items (f # fs)))) p)"
  using assms
proof (induction fs arbitrary: f raw acc p)
  case Nil
  have l: "length (fmt_items f) = 3" by (simp add: fmt_items_def)
  with Nil have s: "sees U p (toks (fmt_items f))" "cur (skipn U 3 p) = t" by (simp_all add: sees_append)
  with parse_fmt [OF s(1) Nil.prems(3)] Nil.prems(2) show ?case
    by (subst labelFormatLoop.simps) (simp add: l)
next
  case (Cons f' fs)
  let ?rest = "join_items (map fmt_items (f' # fs))"
  have eq: "join_items (map fmt_items (f # f' # fs)) = fmt_items f @ J (LxOp TokComma) # space_first ?rest" by simp
  have l: "length (fmt_items f) = 3" by (simp add: fmt_items_def)
  have s: "sees U p (toks (fmt_items f))" "cur (skipn U 3 p) = Tok TokComma '',''"
    "sees U (skip U (skipn U 3 p)) (toks ?rest @ [t])"
    using Cons.prems(1) unfolding eq by (simp_all add: sees_append l del: join_items.simps)
  have c: "appendStageToken U b (Tok TokComma '','') = b @ '', ''" for b
    by (subst append_symbol) (auto simp: tokenRaw_def isAlphanumeric_def)
  have "labelFormatLoop U raw acc p =
      labelFormatLoop U ((raw @ items_text U (fmt_items f)) @ '', '') (acc @ [f]) (skip U (skipn U 3 p))"
    using parse_fmt [OF s(1) Cons.prems(3)] s(2) by (subst labelFormatLoop.simps) (simp add: c)
  also have "\<dots> = Ok (LabelFormatStage (((raw @ items_text U (fmt_items f)) @ '', '') @ items_text U ?rest) ((acc @ [f]) @ f' # fs),
      skipn U (length ?rest) (skip U (skipn U 3 p)))"
    using Cons.prems(2) by (intro Cons.IH [OF s(3)]) auto
  also have "items_text U (join_items (map fmt_items (f # f' # fs))) = items_text U (fmt_items f) @ '', '' @ items_text U ?rest"
  proof -
    have "?rest \<noteq> [] \<and> \<not> fst (hd ?rest)"
      using join_items_nonempty [of "map fmt_items (f' # fs)"] by (auto simp: fmt_items_def)
    then show ?thesis unfolding eq by (simp add: space_first_text item_text_def del: join_items.simps)
  qed
  then have "((raw @ items_text U (fmt_items f)) @ '', '') @ items_text U ?rest = raw @ items_text U (join_items (map fmt_items (f # f' # fs)))"
    by simp
  finally show ?case unfolding eq by (simp add: l skipn_add skip_skipn del: join_items.simps)
qed

subsection \<open>Stages\<close>

abbreviation pipe_items :: "string \<Rightarrow> item list \<Rightarrow> item list" where
  "pipe_items kw is \<equiv> S (LxOp TokPipe) # S (LxIdent kw) # is"

definition quote_lx :: "string \<Rightarrow> lexeme" where
  "quote_lx v = (if CanBackquote v then LxRaw v else LxString v)"

definition stage_keywords :: "string list" where
  "stage_keywords =
     [''json'', ''logfmt'', ''regexp'', ''pattern'', ''unpack'', ''drop'', ''keep'', ''decolorize'', ''unwrap'',
      ''line_format'', ''label_format'']"

text \<open>The value of a comparison in a label filter, with the operators it takes.\<close>

fun filter_value :: "TokType \<Rightarrow> lexeme \<Rightarrow> bool" where
  "filter_value t (LxString v) = filter_op t"
| "filter_value t (LxNumber n) = (wf_number n \<and> t \<in> {TokEq, TokBangEq, TokLt, TokGt, TokLtEq, TokGtEq, TokEqEq})"
| "filter_value t (LxDuration d) = (wf_duration d \<and> t \<in> {TokEq, TokBangEq, TokLt, TokGt, TokLtEq, TokGtEq, TokEqEq})"
| "filter_value t _ = False"

text \<open>
  \<open>prints U st is\<close>: the stage \<open>st\<close> is printed as the lexemes \<open>is\<close>. A stage without lexemes here is one
  that the parser does not build, or whose raw text it rewrites.
\<close>

inductive prints :: "unicode \<Rightarrow> Stage \<Rightarrow> item list \<Rightarrow> bool" for U where
  line: "wf_lineFilter f \<Longrightarrow> prints U (LineFilterStage f) (lineFilter_items f)"
| json: "prints U (ParserStage ParserJSON [] []) (pipe_items ''json'' [])"
| logfmt: "prints U (ParserStage ParserLogfmt [] []) (pipe_items ''logfmt'' [])"
| regexp: "prints U (ParserStage ParserRegexp v []) (pipe_items ''regexp'' [S (quote_lx v)])"
| pattern: "prints U (ParserStage ParserPattern v []) (pipe_items ''pattern'' [S (quote_lx v)])"
| unpack: "prints U (ParserStage ParserUnpack [] []) (pipe_items ''unpack'' [])"
| label: "wf_ident n \<Longrightarrow> n \<notin> set stage_keywords \<Longrightarrow> filter_value t lx \<Longrightarrow>
    prints U (LabelFilterStage (n @ TokType_String t @ lx_text U lx)) (pipe_items n [J (LxOp t), J lx])"
| drop: "es \<noteq> [] \<Longrightarrow> list_all wf_dk es \<Longrightarrow> es = map (\<lambda>l. (l, None)) ls @ map (\<lambda>(n, tv). (n, Some tv)) ms \<Longrightarrow>
    prints U (DropStage ls (concat (map dk_matcher es)))
      (pipe_items ''drop'' (space_first (join_items (map dk_items es))))"
| keep: "es \<noteq> [] \<Longrightarrow> list_all wf_dk es \<Longrightarrow> es = map (\<lambda>l. (l, None)) ls @ map (\<lambda>(n, tv). (n, Some tv)) ms \<Longrightarrow>
    prints U (KeepStage ls (concat (map dk_matcher es)))
      (pipe_items ''keep'' (space_first (join_items (map dk_items es))))"
| decolorize: "prints U DecolorizeStage (pipe_items ''decolorize'' [])"
| unwrap: "wf_ident l \<Longrightarrow> prints U (UnwrapStage l []) (pipe_items ''unwrap'' [S (LxIdent l)])"
| convert: "wf_ident l \<Longrightarrow> wf_ident c \<Longrightarrow>
    prints U (UnwrapStage l c)
      (pipe_items ''unwrap'' [S (LxIdent c), J (LxOp TokLParen), J (LxIdent l), J (LxOp TokRParen)])"
| line_format: "prints U (LineFormatStage v) (pipe_items ''line_format'' [S (LxString v)])"
| label_format: "fs \<noteq> [] \<Longrightarrow> list_all wf_fmt fs \<Longrightarrow>
    prints U (LabelFormatStage (items_text U (join_items (map fmt_items fs))) fs)
      (pipe_items ''label_format'' (space_first (join_items (map fmt_items fs))))"

lemma stage_words [simp]: "list_all wf_ident stage_keywords"
  by (simp add: stage_keywords_def wf_ident_def wf_word_def word_start_def isAlphanumeric_def is_digit_def
      ident_char_def keywordTypes_def)

lemmas stage_word [simp] = stage_words [unfolded stage_keywords_def, simplified]

lemma quote_lx_simps [simp]:
  "lx_text U (quote_lx v) = quoteParserArgument U v" "lx_ok d (quote_lx v)" "lx_stop (quote_lx v) c"
  "lx_depth d (quote_lx v) = d" "Val (lx_tok (quote_lx v)) = v"
  "Typ (lx_tok (quote_lx v)) = TokString \<or> Typ (lx_tok (quote_lx v)) = TokRawString"
  by (simp_all add: quote_lx_def quoteParserArgument_def)

lemma dk_text:
  assumes "es = map (\<lambda>l. (l, None)) ls @ map (\<lambda>(n, tv). (n, Some tv)) ms"
  shows "items_text U (join_items (map dk_items es)) =
    Join (ls @ map (DropMatcher_String U) (concat (map dk_matcher es))) '', ''"
proof -
  have "ls @ map (DropMatcher_String U) (concat (map dk_matcher es)) = map (\<lambda>e. items_text U (dk_items e)) es"
    unfolding assms
    by (induction ls; induction ms) (auto simp: DropMatcher_String_def item_text_def)
  moreover have "items_text U (join_items (map dk_items es)) = Join (map (items_text U) (map dk_items es)) '', ''"
    by (rule join_items_text) simp
  ultimately show ?thesis by (simp add: comp_def)
qed

lemma trimmed: "TrimSpace ''| json '' = ''| json''" "TrimSpace ''| logfmt '' = ''| logfmt''" "TrimSpace [] = []"
  by code_simp+

lemma dk_join_head:
  "es \<noteq> [] \<Longrightarrow> join_items (map dk_items es) \<noteq> [] \<and> \<not> fst (hd (join_items (map dk_items es)))"
  using join_items_nonempty [of "map dk_items es"] by (auto simp: hd_map)

lemma prints_text: "prints U st is \<Longrightarrow> items_text U is = '' '' @ Stage_String U st"
proof (induction rule: prints.induct)
  case (drop es ls ms)
  from dk_join_head [OF drop(1)] show ?case by (simp add: space_first_text dk_text [OF drop(3)] DropStage_String_def item_text_def)
next
  case (keep es ls ms)
  from dk_join_head [OF keep(1)] show ?case by (simp add: space_first_text dk_text [OF keep(3)] KeepStage_String_def item_text_def)
next
  case (label_format fs)
  then have "join_items (map fmt_items fs) \<noteq> []" "\<not> fst (hd (join_items (map fmt_items fs)))"
    using join_items_nonempty [of "map fmt_items fs"] by (auto simp: hd_map fmt_items_def)
  then show ?case by (simp add: space_first_text item_text_def)
next
  case (line f)
  show ?case by (simp add: lineFilter_text)
next
  case (convert l c)
  then show ?case by (auto simp: item_text_def UnwrapStage_String_def wf_ident_def wf_word_def)
qed (simp_all add: item_text_def UnwrapStage_String_def trimmed)

lemma filter_value_lx:
  assumes "filter_value t lx"
  shows "lx_ok 0 (LxOp t) \<and> lx_ok 0 lx \<and> lx_depth 0 (LxOp t) = 0 \<and> lx_depth 0 lx = 0 \<and>
    lx_stop (LxOp t) (hd (lx_text U lx)) \<and> word_end (hd (TokType_String t)) \<and> lx_stop lx (CHR ''['')"
proof -
  have d: "byte_of (hd v) < 128 \<and> hd v \<noteq> CHR ''='' \<and> hd v \<noteq> CHR ''~''" if "is_digit (hd v)" for v
    using that by (auto simp: is_digit_def)
  have t: "lx_ok 0 (LxOp t) \<and> lx_depth 0 (LxOp t) = 0 \<and> word_end (hd (TokType_String t)) \<and>
      (byte_of c < 128 \<and> c \<noteq> CHR ''='' \<and> c \<noteq> CHR ''~'' \<longrightarrow> lx_stop (LxOp t) c)"
    if "t \<in> {TokEq, TokBangEq, TokLt, TokGt, TokLtEq, TokGtEq, TokEqEq}" for c
    using that by (auto simp: free_text_def keyword_def word_end_def ident_char_def isAlphanumeric_def)
  show ?thesis
  proof (cases lx)
    case (LxString v)
    with assms show ?thesis using filter_op_lx [of t] by simp
  next
    case (LxNumber n)
    with assms show ?thesis using t [of "hd n"] d [of n] by (simp add: wf_number_def)
  next
    case (LxDuration n)
    with assms show ?thesis using t [of "hd n"] d [of n] by (simp add: wf_duration_def)
  qed (use assms in auto)
qed

lemma pipe_chain:
  assumes "wf_ident kw" "closed U 0 is" "lx_stop (snd (last is)) (CHR ''['')"
  shows "stage_chain U (pipe_items kw (space_first is))"
  using assms by (cases "is") (auto simp: stage_chain_def closed_def free_text_def keyword_def)

lemma dk_last: "wf_dk e \<Longrightarrow> lx_stop (snd (last (dk_items e))) (CHR ''['')"
  by (cases e rule: dk_items.cases) (auto simp: wf_dk_def)

lemma dk_list_chain:
  assumes "es \<noteq> []" "list_all wf_dk es" "wf_ident kw"
  shows "stage_chain U (pipe_items kw (space_first (join_items (map dk_items es))))"
proof (rule pipe_chain)
  show "closed U 0 (join_items (map dk_items es))"
    using assms by (intro join_items_closed) (auto simp: list_all_iff intro: dk_closed)
  show "lx_stop (snd (last (join_items (map dk_items es)))) (CHR ''['')"
    using assms dk_last [of "last es"] join_items_last [of "map dk_items es"] by (auto simp: list_all_iff last_map)
qed (rule assms)

lemma prints_chain: "prints U st is \<Longrightarrow> stage_chain U is"
proof (induction rule: prints.induct)
  case (line f)
  show ?case by (rule lineFilter_chain)
next
  case (label n t lx)
  with filter_value_lx [of t lx U] show ?case
    by (simp add: stage_chain_def free_text_def keyword_def)
next
  case (label_format fs)
  have "lx_stop (snd (last (join_items (map fmt_items fs)))) (CHR ''['')"
    using label_format join_items_last [of "map fmt_items fs"] by (auto simp: last_map fmt_items_def)
  moreover have "closed U 0 (join_items (map fmt_items fs))"
    using label_format by (intro join_items_closed) (auto simp: list_all_iff intro: fmt_closed)
  ultimately show ?case by (intro pipe_chain) simp_all
next
  case (drop es ls ms)
  then show ?case by (intro dk_list_chain) simp_all
next
  case (keep es ls ms)
  then show ?case by (intro dk_list_chain) simp_all
qed (simp_all add: stage_chain_def free_text_def keyword_def)

subsection \<open>Parsing stages\<close>

text \<open>The tokens that may follow a stage; a label at the end of a drop or keep list is not followed by an operator.\<close>

definition stage_end :: "TokType \<Rightarrow> bool" where
  "stage_end t \<longleftrightarrow> t = TokEOF \<or> t = TokLBracket \<or> t = TokRParen \<or> t = TokPipe \<or> isLineFilterOperator t"

fun bare_list :: "Stage \<Rightarrow> bool" where
  "bare_list (DropStage ls ms) = (ms = [])"
| "bare_list (KeepStage ls ms) = (ms = [])"
| "bare_list _ = False"

lemma stage_end_simps:
  "stage_end t \<Longrightarrow> t \<noteq> TokIdent \<and> t \<noteq> TokComma \<and> t \<noteq> TokOr \<and> t \<noteq> TokLParen \<and> t \<noteq> TokEq \<and> t \<noteq> TokReMatch"
  by (auto simp: stage_end_def isLineFilterOperator_def)

lemma parse_fieldless:
  assumes "cur p = Tok TokIdent kw" "cur (skip U p) = t" "stage_end (Typ t)" "wf_parser p"
  shows "fieldListStage U typ p = Ok (ParserStage typ [] [], skip U p)"
proof -
  have "scPos p \<le> length (input p)" using assms(4) by (simp add: wf_parser_def)
  moreover have "explicitFields U (scPos p) [] (skip U p) = Ok ((scPos p, []), skip U p)"
    using assms stage_end_simps by (subst explicitFields.simps) auto
  ultimately show ?thesis
    by (simp add: fieldListStage_def consumeExplicitFieldList_def goSlice_def slice_def trimmed)
qed

lemma rest_end: "stage_end (curTyp p) \<Longrightarrow> b \<noteq> [] \<Longrightarrow> Typ prev \<noteq> TokIdent \<Longrightarrow> restOfStage U b 0 prev pp p = (b, p)"
  by (subst restOfStage.simps) (auto simp: stage_end_def isLineFilterOperator_def Let_def)

lemma filter_value_tok:
  assumes "filter_value t lx"
  shows "tokenRaw U (Tok t (TokType_String t)) = TokType_String t" "tokenRaw U (lx_tok lx) = lx_text U lx"
    "t \<notin> {TokEOF, TokPipe, TokPipeEq, TokPipeTilde, TokPipeGt, TokBangGt, TokLBracket, TokRParen, TokLParen, TokIdent}"
    "Typ (lx_tok lx) \<in> {TokString, TokNumber, TokDuration}" "TokType_String t \<noteq> []" "\<not> isAlphanumeric (last (TokType_String t))"
    "last (TokType_String t) \<noteq> CHR 0x22 \<and> last (TokType_String t) \<noteq> CHR 0x60"
proof -
  have "t = TokEq \<or> t = TokBangEq \<or> t = TokReMatch \<or> t = TokBangTilde \<or> t = TokLt \<or> t = TokGt \<or> t = TokLtEq \<or> t = TokGtEq \<or> t = TokEqEq"
    using assms by (cases lx) (auto simp: filter_op_def)
  then have "tokenRaw U (Tok t (TokType_String t)) = TokType_String t \<and>
      t \<notin> {TokEOF, TokPipe, TokPipeEq, TokPipeTilde, TokPipeGt, TokBangGt, TokLBracket, TokRParen, TokLParen, TokIdent} \<and>
      TokType_String t \<noteq> [] \<and> \<not> isAlphanumeric (last (TokType_String t)) \<and>
      last (TokType_String t) \<noteq> CHR 0x22 \<and> last (TokType_String t) \<noteq> CHR 0x60"
    by (elim disjE) (simp_all add: tokenRaw_def isAlphanumeric_def)
  then show "tokenRaw U (Tok t (TokType_String t)) = TokType_String t"
    "t \<notin> {TokEOF, TokPipe, TokPipeEq, TokPipeTilde, TokPipeGt, TokBangGt, TokLBracket, TokRParen, TokLParen, TokIdent}"
    "TokType_String t \<noteq> []" "\<not> isAlphanumeric (last (TokType_String t))"
    "last (TokType_String t) \<noteq> CHR 0x22 \<and> last (TokType_String t) \<noteq> CHR 0x60" by blast+
  show "tokenRaw U (lx_tok lx) = lx_text U lx" "Typ (lx_tok lx) \<in> {TokString, TokNumber, TokDuration}"
    using assms by (cases lx; simp add: tokenRaw_def)+
qed

lemma parse_comparison:
  assumes "sees U p [Tok t (TokType_String t), lx_tok lx, e]" "filter_value t lx" "stage_end (Typ e)"
  shows "consumeRestOfStage U p = (TokType_String t @ lx_text U lx, skip U (skip U p))"
proof -
  note v = filter_value_tok [OF assms(2)]
  have a: "appendStageToken U [] (Tok t (TokType_String t)) = TokType_String t"
    "appendStageToken U (TokType_String t) (lx_tok lx) = TokType_String t @ lx_text U lx"
    using v by (simp_all add: appendStageToken_def Let_def)
  have "restOfStage U [] 0 (Tok TokEOF []) (Tok TokEOF []) p =
      restOfStage U (TokType_String t) 0 (Tok t (TokType_String t)) (Tok TokEOF []) (skip U p)"
    using assms(1) v(3) a(1) by (subst restOfStage.simps) (simp add: Let_def)
  also have "\<dots> = restOfStage U (TokType_String t @ lx_text U lx) 0 (lx_tok lx) (Tok t (TokType_String t)) (skip U (skip U p))"
    using assms(1) v(4) a(2) by (subst restOfStage.simps) (auto simp: Let_def)
  also have "\<dots> = (TokType_String t @ lx_text U lx, skip U (skip U p))"
    using assms(1,3) v(4,5) by (intro rest_end) auto
  finally show ?thesis by (simp add: consumeRestOfStage_def)
qed

lemma parse_string:
  assumes "cur (skip U p) = lx_tok lx" "lx = LxString v \<or> lx = quote_lx v" "stage_end (curTyp (skip U (skip U p)))"
  shows "stringStage U mk p = Ok (mk v, skip U (skip U p))"
proof -
  have "Val (lx_tok lx) = v" "Typ (lx_tok lx) = TokString \<or> Typ (lx_tok lx) = TokRawString"
    using assms(2) by (auto simp: quote_lx_def)
  with assms show ?thesis
    by (subst stringStage_def, subst expectStringOrRaw.simps) (auto simp: stage_end_simps)
qed

lemma parse_dk_stage:
  assumes "sees U p (toks (space_first (join_items (map dk_items es))) @ [t])" "es \<noteq> []" "list_all wf_dk es"
    "es = map (\<lambda>l. (l, None)) ls @ map (\<lambda>(n, tv). (n, Some tv)) ms" "stage_end (Typ t)"
    "concat (map dk_matcher es) = [] \<Longrightarrow> \<not> filter_op (Typ t)"
  shows "parseDropKeepList U p = Ok ((ls, concat (map dk_matcher es)), skipn U (length (join_items (map dk_items es))) p)"
proof -
  obtain e es' where es: "es = e # es'" using assms(2) by (cases es) auto
  have l: "concat (map dk_label es) = ls"
    unfolding assms(4) by (induction ls; induction ms) (auto simp: dk_label_def)
  have b: "snd (last es) = None \<Longrightarrow> concat (map dk_matcher es) = []"
  proof -
    assume "snd (last es) = None"
    then have "ms = []" unfolding assms(4) by (cases ms rule: rev_cases) auto
    then show ?thesis unfolding assms(4) by (induction ls) auto
  qed
  have "dropKeepLoop U [] [] p = Ok (([] @ concat (map dk_label es), [] @ concat (map dk_matcher es)),
      skipn U (length (join_items (map dk_items es))) p)"
    using assms b unfolding es by (intro parse_dk_list) (auto simp: list_all_iff stage_end_simps)
  moreover have "curTyp p = TokIdent"
    using assms(1) join_items_nonempty [of "map dk_items es"] assms(2)
    by (cases "join_items (map dk_items es)"; cases e rule: dk_items.cases) (auto simp: es)
  ultimately show ?thesis using l by (simp add: parseDropKeepList_def)
qed

lemma parse_stage:
  assumes "prints U st is" "sees U p (toks is @ [t])" "stage_end (Typ t)" "bare_list st \<Longrightarrow> \<not> filter_op (Typ t)"
    "wf_parser p"
  shows "parsePipelineStage U p = Ok (Some st, skipn U (length is) p)"
proof -
  note n = stage_end_simps [OF assms(3)]
  have pipe: ?thesis
    if "is = pipe_items kw js" "parsePipeBody U (skip U p) = Ok (st, skipn U (length js) (skip U (skip U p)))" for kw js
    using that assms(2) by (simp add: parsePipelineStage_def isLineFilterOperator_def)
  have w: "wf_parser (skip U p)" if "is = pipe_items kw js" for kw js
    using that assms(2,5) by (auto intro: skip_wf)
  show ?thesis
    using assms(1)
  proof cases
    case (line f)
    then have "cur p = Tok (lineTok (lf_Op f)) (TokType_String (lineTok (lf_Op f)))"
      using assms(2) by (simp add: lineFilter_items_def)
    with line parse_lineFilter [of U p f t] assms(2) n show ?thesis
      by (simp add: parsePipelineStage_def lineFilterOpOf_lineTok)
  next
    case (label k tt lx)
    then have "consumeRestOfStage U (skip U (skip U p)) = (TokType_String tt @ lx_text U lx, skip U (skip U (skip U (skip U p))))"
      using assms(2,3) by (intro parse_comparison) auto
    with label assms(2) filter_value_tok(3) [OF label(5)] show ?thesis
      by (intro pipe [OF label(2)]) (auto simp: parsePipeBody_def stage_keywords_def)
  next
    case (drop es ls ms)
    have "parseDropKeepList U (skip U (skip U p)) =
        Ok ((ls, concat (map dk_matcher es)), skipn U (length (join_items (map dk_items es))) (skip U (skip U p)))"
      using assms(2-4) drop(1,2) by (intro parse_dk_stage [OF _ drop(3-5)]) simp_all
    with assms(2) drop(1,2) show ?thesis
      by (intro pipe [OF drop(2)]) (simp add: parsePipeBody_def)
  next
    case (keep es ls ms)
    have "parseDropKeepList U (skip U (skip U p)) =
        Ok ((ls, concat (map dk_matcher es)), skipn U (length (join_items (map dk_items es))) (skip U (skip U p)))"
      using assms(2-4) keep(1,2) by (intro parse_dk_stage [OF _ keep(3-5)]) simp_all
    with assms(2) keep(1,2) show ?thesis
      by (intro pipe [OF keep(2)]) (simp add: parsePipeBody_def)
  next
    case (label_format fs)
    then obtain f fs' where fs: "fs = f # fs'" by (cases fs) auto
    with label_format parse_fmts [of U "skip U (skip U p)" f fs' t "[]" "[]"] assms(2) n show ?thesis
      by (intro pipe [OF label_format(2)]) (auto simp: parsePipeBody_def parseLabelFormat_def)
  next
    case json
    with assms(2,3) w parse_fieldless [of "skip U p" "''json''" U t] show ?thesis
      by (intro pipe [OF json(2)]) (auto simp: parsePipeBody_def)
  next
    case logfmt
    with assms(2,3) w parse_fieldless [of "skip U p" "''logfmt''" U t] show ?thesis
      by (intro pipe [OF logfmt(2)]) (auto simp: parsePipeBody_def)
  next
    case (regexp v)
    with parse_string [of U "skip U p" "quote_lx v" v "\<lambda>v. ParserStage ParserRegexp v []"] assms(2,3) show ?thesis
      by (intro pipe [OF regexp(2)]) (simp add: parsePipeBody_def)
  next
    case (pattern v)
    with parse_string [of U "skip U p" "quote_lx v" v "\<lambda>v. ParserStage ParserPattern v []"] assms(2,3) show ?thesis
      by (intro pipe [OF pattern(2)]) (simp add: parsePipeBody_def)
  next
    case (line_format v)
    with parse_string [of U "skip U p" "LxString v" v "LineFormatStage"] assms(2,3) show ?thesis
      by (intro pipe [OF line_format(2)]) (simp add: parsePipeBody_def)
  qed (use assms(2) n in \<open>simp_all add: parsePipelineStage_def isLineFilterOperator_def parsePipeBody_def parseUnwrap_def
        expect_def advance_skip Let_def\<close>)
qed

subsection \<open>Log queries\<close>

text \<open>
  A drop or keep list that ends with a bare label swallows a line filter \<^verbatim>\<open>!=\<close> or
  \<^verbatim>\<open>!~\<close> behind it; \<open>separated\<close> excludes this.
\<close>

fun swallowed :: "Stage \<Rightarrow> bool" where
  "swallowed (LineFilterStage f) = (lf_Op f = LineFilterExcludes \<or> lf_Op f = LineFilterExcludeRe)"
| "swallowed _ = False"

fun separated :: "Stage list \<Rightarrow> bool" where
  "separated (s # s' # ss) = (\<not> (bare_list s \<and> swallowed s') \<and> separated (s' # ss))"
| "separated _ = True"

definition query_end :: "TokType \<Rightarrow> bool" where
  "query_end t \<longleftrightarrow> t = TokEOF \<or> t = TokLBracket \<or> t = TokRParen"

lemma query_end_simps:
  "query_end t \<Longrightarrow> stage_end t \<and> \<not> filter_op t \<and> t \<noteq> TokPipe \<and> \<not> isLineFilterOperator t"
  by (auto simp: query_end_def stage_end_def filter_op_def isLineFilterOperator_def)

lemma prints_head:
  assumes "prints U st is"
  shows "\<exists>t js. is = S (LxOp t) # js \<and> stage_end t \<and> (filter_op t \<longleftrightarrow> swallowed st)"
  using assms
proof cases
  case (line f)
  then show ?thesis
    by (cases "lf_Op f") (auto simp: lineFilter_items_def stage_end_def isLineFilterOperator_def filter_op_def)
qed (auto simp: stage_end_def filter_op_def)

lemma parse_stages:
  assumes "list_all2 (prints U) sts iss" "separated sts" "sees U p (toks (concat iss) @ [t])" "query_end (Typ t)"
    "wf_parser p"
  shows "stageLoop U acc p = Ok (acc @ sts, skipn U (length (concat iss)) p)"
  using assms
proof (induction arbitrary: acc p rule: list_all2_induct)
  case Nil
  with query_end_simps [of "Typ t"] show ?case by (subst stageLoop.simps) (simp add: parsePipelineStage_def)
next
  case (Cons st sts js iss)
  obtain t' ts where ts: "toks (concat iss) @ [t] = t' # ts" by (cases "toks (concat iss)") auto
  have s: "sees U p (toks js @ [t'])" "sees U (skipn U (length js) p) (toks (concat iss) @ [t])"
    using Cons.prems(2) ts by (auto simp: sees_append)
  have t': "stage_end (Typ t') \<and> (bare_list st \<longrightarrow> \<not> filter_op (Typ t'))"
  proof (cases sts)
    case Nil
    with Cons.hyps ts query_end_simps [OF Cons.prems(3)] show ?thesis by auto
  next
    case (Cons st' sts')
    then obtain js' iss' where "iss = js' # iss'" "prints U st' js'" using Cons.hyps by (cases iss) auto
    with prints_head [of U st' js'] ts Cons \<open>separated (st # sts)\<close> show ?thesis by auto
  qed
  have step: "parsePipelineStage U p = Ok (Some st, skipn U (length js) p)"
    using Cons.hyps(1) s(1) t' Cons.prems(4) by (intro parse_stage) auto
  moreover have "wf_parser (skipn U (length js) p)" using parsePipelineStage_adv [OF step] Cons.prems(4) by (rule adv_wf)
  moreover have "separated sts" using Cons.prems(1) by (cases sts) auto
  ultimately show ?case
    using Cons.IH [of "skipn U (length js) p" "acc @ [st]"] s(2) Cons.prems(3)
    by (subst stageLoop.simps) (simp add: skipn_add)
qed

text \<open>\<open>prints_query U q is\<close>: the query \<open>q\<close> is printed as the lexemes \<open>is\<close>.\<close>

definition prints_query :: "unicode \<Rightarrow> LogQuery \<Rightarrow> item list \<Rightarrow> bool" where
  "prints_query U q is \<longleftrightarrow>
     wf_selector (Selector q) \<and> separated (Pipeline q) \<and>
     (\<exists>iss. list_all2 (prints U) (Pipeline q) iss \<and> is = selector_items (Selector q) @ concat iss)"

lemma stages_text:
  "list_all2 (prints U) sts iss \<Longrightarrow> items_text U (concat iss) = concat (map (\<lambda>s. '' '' @ Stage_String U s) sts)"
  by (induction rule: list_all2_induct) (simp_all add: prints_text)

lemma stages_chain:
  assumes "list_all2 (prints U) sts iss"
  shows "lex_chain U 0 (concat iss) \<and> chain_depth 0 (concat iss) = 0 \<and>
    (concat iss = [] \<or> fst (hd (concat iss)) \<and> lx_stop (snd (last (concat iss))) (CHR ''[''))"
  using assms
proof (induction rule: list_all2_induct)
  case (Cons st sts js iss)
  from prints_chain [OF Cons(1)] Cons.IH show ?case
    by (auto simp: stage_chain_def lex_chain_append last_append)
qed simp

lemma query_text: "prints_query U q is \<Longrightarrow> items_text U is = LogQuery_String U q"
  by (auto simp: prints_query_def LogQuery_String_def selector_text stages_text)

lemma query_chain:
  assumes "prints_query U q is"
  shows "is \<noteq> []" "fst (hd is) = False" "hd (lx_text U (snd (hd is))) = CHR ''{''"
    "lex_chain U 0 is" "chain_depth 0 is = 0" "lx_stop (snd (last is)) (CHR ''['')"
proof -
  obtain iss where q: "wf_selector (Selector q)" "list_all2 (prints U) (Pipeline q) iss"
      "is = selector_items (Selector q) @ concat iss"
    using assms by (auto simp: prints_query_def)
  note s = selector_chain(1) [OF q(1), of U] selector_chain(2-4) [OF q(1)] and t = stages_chain [OF q(2)]
  show "is \<noteq> []" "fst (hd is) = False" "hd (lx_text U (snd (hd is))) = CHR ''{''"
    unfolding q(3) by (simp_all add: selector_items_def)
  show "lex_chain U 0 is" "chain_depth 0 is = 0" unfolding q(3) using s t by (auto simp: lex_chain_append)
  show "lx_stop (snd (last is)) (CHR ''['')"
    unfolding q(3) using s(4) t by (auto simp: last_append keyword_def)
qed

lemma parse_query:
  assumes "prints_query U q is" "sees U p (toks is @ [t])" "query_end (Typ t)" "wf_parser p"
  shows "parseLogQuery U p = Ok (q, skipn U (length is) p)"
proof -
  obtain iss where q: "separated (Pipeline q)" "list_all2 (prints U) (Pipeline q) iss"
      "is = selector_items (Selector q) @ concat iss"
    using assms by (auto simp: prints_query_def)
  let ?p = "skipn U (length (selector_items (Selector q))) p"
  have s: "sees U p (toks (selector_items (Selector q)))" "sees U ?p (toks (concat iss) @ [t])"
    using assms(2) by (simp_all add: q(3) sees_append)
  note sel = parse_selector [OF s(1)]
  have "wf_parser ?p"
    using parseStreamSelector_advP [of p U] sel assms(4) by (auto simp: advP_def intro: adv_wf)
  from parse_stages [OF q(2,1) s(2) assms(3) this, of "[]"] sel show ?thesis
    by (cases q) (simp add: parseLogQuery_def q(3) skipn_add)
qed

end
