(* ===== verification/LogqlExprRoundtrip.thy ===== *)
theory LogqlExprRoundtrip
  imports LogqlRoundtrip
begin

text \<open>
  Parsing printed expressions: literals, aggregations and binary operators over the log queries of
  \<^theory_text>\<open>LogqlRoundtrip\<close>. \<^verbatim>\<open>internal/proxy\<close> takes binary expressions apart and
  parses the printed operands again, which is sound by the round trip shown here.
\<close>

subsection \<open>Label lists, groupings and numbers\<close>

definition labels_items :: "string list \<Rightarrow> item list" where
  "labels_items ns = J (LxOp TokLParen) # join_items (map (\<lambda>n. [J (LxIdent n)]) ns) @ [J (LxOp TokRParen)]"

definition group_items :: "Grouping option \<Rightarrow> item list" where
  "group_items go =
     (case go of
        None \<Rightarrow> []
      | Some g \<Rightarrow> S (LxOp (if gr_Without g then TokWithout else TokBy)) # space_first (labels_items (gr_Labels g)))"

definition wf_group :: "Grouping option \<Rightarrow> bool" where
  "wf_group go \<longleftrightarrow> (case go of None \<Rightarrow> True | Some g \<Rightarrow> list_all wf_ident (gr_Labels g))"

definition num_items :: "float64 \<Rightarrow> item list" where
  "num_items v =
     (case formatG v of
        [] \<Rightarrow> []
      | c # n \<Rightarrow> if c = CHR ''-'' then [J (LxOp TokMinus), J (LxNumber n)] else [J (LxNumber (c # n))])"

text \<open>A number that is printed without an exponent and read back as itself.\<close>

definition plain_number :: "float64 \<Rightarrow> bool" where
  "plain_number v \<longleftrightarrow>
     (case formatG v of
        [] \<Rightarrow> False
      | c # n \<Rightarrow>
          if c = CHR ''-'' then wf_number n \<and> (case ParseFloat n of Inl _ \<Rightarrow> False | Inr w \<Rightarrow> f64_uminus w = v)
          else wf_number (c # n) \<and> ParseFloat (c # n) = Inr v)"

lemma labels_text: "items_text U (labels_items ns) = ''('' @ Join ns '', '' @ '')''"
proof -
  have "items_text U (join_items (map (\<lambda>n. [J (LxIdent n)]) ns)) = Join (map (items_text U) (map (\<lambda>n. [J (LxIdent n)]) ns)) '', ''"
    by (rule join_items_text) simp
  then show ?thesis by (simp add: labels_items_def item_text_def comp_def)
qed

lemma group_text:
  "items_text U (group_items go) = (case go of None \<Rightarrow> [] | Some g \<Rightarrow> '' '' @ Grouping_String g)"
proof (cases go)
  case (Some g)
  have "items_text U (space_first (labels_items (gr_Labels g))) = '' '' @ items_text U (labels_items (gr_Labels g))"
    by (rule space_first_text) (simp_all add: labels_items_def)
  then show ?thesis by (simp add: Some group_items_def Grouping_String_def labels_text item_text_def)
qed (simp add: group_items_def)

lemma num_text: "plain_number v \<Longrightarrow> items_text U (num_items v) = formatG v"
  by (auto simp: plain_number_def num_items_def item_text_def split: list.splits)

text \<open>Lists that stand alone outside braces and may be followed by a closing parenthesis or a comma.\<close>

definition expr_chain :: "unicode \<Rightarrow> item list \<Rightarrow> bool" where
  "expr_chain U is \<longleftrightarrow>
     is \<noteq> [] \<and> lex_chain U 0 is \<and> chain_depth 0 is = 0 \<and> lx_stop (snd (last is)) (CHR '')'') \<and>
     lx_stop (snd (last is)) (CHR '','')"

lemma labels_chain: "list_all wf_ident ns \<Longrightarrow> expr_chain U (labels_items ns)"
proof -
  assume n: "list_all wf_ident ns"
  let ?is = "join_items (map (\<lambda>n. [J (LxIdent n)]) ns)"
  have "closed U 0 ?is" if "ns \<noteq> []"
    using that n by (intro join_items_closed) (auto simp: list_all_iff closed_def)
  moreover have "lx_stop (snd (last ?is)) (CHR '')'')" if "ns \<noteq> []"
    using that join_items_last [of "map (\<lambda>n. [J (LxIdent n)]) ns"] by (simp add: last_map)
  ultimately show ?thesis
    by (cases "ns = []") (auto simp: expr_chain_def labels_items_def lex_chain_append closed_def free_text_def keyword_def)
qed

lemma group_chain:
  assumes "wf_group go"
  shows "group_items go = [] \<or> expr_chain U (group_items go) \<and> fst (hd (group_items go))"
proof (cases go)
  case (Some g)
  with assms labels_chain [of "gr_Labels g" U] show ?thesis
    by (auto simp: wf_group_def expr_chain_def group_items_def free_text_def keyword_def)
qed (simp add: group_items_def)

lemma num_chain: "plain_number v \<Longrightarrow> expr_chain U (num_items v) \<and> \<not> fst (hd (num_items v))"
  by (auto simp: plain_number_def num_items_def expr_chain_def free_text_def keyword_def split: list.splits if_splits)

lemma parse_names:
  assumes "sees U p (toks (join_items (map (\<lambda>n. [J (LxIdent n)]) ns)) @ [t])" "Typ t = TokRParen"
  shows "labelNames U acc p = (acc @ ns, skipn U (length (join_items (map (\<lambda>n. [J (LxIdent n)]) ns))) p)"
  using assms(1)
proof (induction ns arbitrary: acc p)
  case Nil
  with assms(2) show ?case by (subst labelNames.simps) simp
next
  case (Cons n ns)
  show ?case
  proof (cases ns)
    case Nil
    with Cons.prems assms(2) show ?thesis
      by (subst labelNames.simps, simp) (subst labelNames.simps, simp)
  next
    case (Cons n' ns')
    have "labelNames U acc p = labelNames U (acc @ [n]) (skip U (skip U p))"
      using Cons.prems Cons by (subst labelNames.simps) simp
    with Cons.IH [of "skip U (skip U p)" "acc @ [n]"] Cons.prems Cons show ?thesis by simp
  qed
qed

lemma parse_labels:
  assumes "sees U p (toks (labels_items ns))"
  shows "parseLabelList U p = Ok (ns, skipn U (length (labels_items ns)) p)"
proof -
  let ?is = "join_items (map (\<lambda>n. [J (LxIdent n)]) ns)"
  have s: "cur p = Tok TokLParen ''(''" "sees U (skip U p) (toks ?is @ [Tok TokRParen '')''])"
    using assms by (simp_all add: labels_items_def)
  moreover have "cur (skipn U (length ?is) (skip U p)) = Tok TokRParen '')''" using s(2) by (simp add: sees_append)
  ultimately show ?thesis
    using parse_names [OF s(2), of "[]"]
    by (simp add: parseLabelList_def labels_items_def expect_def advance_skip skipn_add skip_skipn)
qed

lemma parse_group:
  assumes "sees U p (toks (group_items (Some g)))"
  shows "parseOptGrouping U p = Ok (Some g, skipn U (length (group_items (Some g))) p)"
proof -
  let ?is = "join_items (map (\<lambda>n. [J (LxIdent n)]) (gr_Labels g))" and ?p = "skip U (skip U p)"
  have s: "curTyp p = (if gr_Without g then TokWithout else TokBy)" "cur (skip U p) = Tok TokLParen ''(''"
    "sees U ?p (toks ?is @ [Tok TokRParen '')''])"
    using assms by (simp_all add: labels_items_def group_items_def)
  moreover have "cur (skipn U (length ?is) ?p) = Tok TokRParen '')''" using s(3) by (simp add: sees_append)
  ultimately show ?thesis
    using parse_names [OF s(3), of "[]"]
    by (cases g) (simp add: parseOptGrouping_def parseGrouping_def labels_items_def group_items_def expect_def advance_skip
        skipn_add skip_skipn)
qed

lemma parse_number:
  assumes "plain_number v" "sees U p (toks (num_items v))"
  shows "parsePrimary U (Suc n) p = Ok (ELiteral v, skipn U (length (num_items v)) p)"
  using assms
  by (auto simp: plain_number_def num_items_def parseNumber_def split: list.splits if_splits sum.splits)

lemma parse_quantile:
  assumes "plain_number v" "sees U p (toks (num_items v) @ [Tok TokComma '',''])"
  shows "parseQuantileParam U p = Ok (Some v, skip U (skipn U (length (num_items v)) p))"
  using assms
  by (auto simp: plain_number_def num_items_def parseQuantileParam_def quantileNumber_def expect_def advance_skip Let_def
      split: list.splits if_splits sum.splits)

subsection \<open>Vector matching\<close>

definition vm_items :: "VectorMatching option \<Rightarrow> item list" where
  "vm_items vmo =
     (case vmo of
        None \<Rightarrow> []
      | Some vm \<Rightarrow>
          S (LxOp (if vm_Card vm = ''on'' then TokOn else TokIgnoring)) # labels_items (vm_MatchLabels vm) @
          (if vm_GroupSide vm = [] then []
           else S (LxOp (if vm_GroupSide vm = ''group_left'' then TokGroupLeft else TokGroupRight)) #
             labels_items (vm_Include vm)))"

definition wf_vm :: "VectorMatching option \<Rightarrow> bool" where
  "wf_vm vmo \<longleftrightarrow>
     (case vmo of
        None \<Rightarrow> True
      | Some vm \<Rightarrow>
          vm_Card vm \<in> {''on'', ''ignoring''} \<and> list_all wf_ident (vm_MatchLabels vm) \<and>
          vm_GroupSide vm \<in> {[], ''group_left'', ''group_right''} \<and> list_all wf_ident (vm_Include vm) \<and>
          (vm_GroupSide vm = [] \<longrightarrow> vm_Include vm = []))"

lemma vm_text:
  "wf_vm vmo \<Longrightarrow> items_text U (vm_items vmo) =
     (if VectorMatching_String vmo \<noteq> [] then '' '' @ VectorMatching_String vmo else [])"
  by (auto simp: vm_items_def wf_vm_def VectorMatching_String_def labels_text item_text_def Let_def split: option.splits)

lemma labels_head [simp]: "labels_items ns \<noteq> []" "hd (labels_items ns) = J (LxOp TokLParen)"
  "last (labels_items ns) = J (LxOp TokRParen)"
  by (simp_all add: labels_items_def)

lemma vm_chain:
  assumes "wf_vm vmo"
  shows "vm_items vmo = [] \<or>
    vm_items vmo \<noteq> [] \<and> fst (hd (vm_items vmo)) \<and> lex_chain U 0 (vm_items vmo) \<and> chain_depth 0 (vm_items vmo) = 0"
proof (cases vmo)
  case (Some vm)
  with assms labels_chain [of "vm_MatchLabels vm" U] labels_chain [of "vm_Include vm" U] show ?thesis
    by (auto simp: wf_vm_def vm_items_def expr_chain_def free_text_def keyword_def lex_chain_append)
qed (simp add: vm_items_def)

lemma parse_vm:
  assumes "sees U p (toks (vm_items vmo) @ [t])" "wf_vm vmo"
    "Typ t \<notin> {TokOn, TokIgnoring, TokGroupLeft, TokGroupRight}"
  shows "parseVectorMatching U p = Ok (vmo, skipn U (length (vm_items vmo)) p)"
proof (cases vmo)
  case None
  with assms show ?thesis by (simp add: vm_items_def parseVectorMatching_def)
next
  case (Some vm)
  let ?ls = "labels_items (vm_MatchLabels vm)" and ?is = "labels_items (vm_Include vm)"
  let ?p = "skipn U (length ?ls) (skip U p)"
  have s: "sees U (skip U p) (toks ?ls)" "cur p = Tok (if vm_Card vm = ''on'' then TokOn else TokIgnoring) (vm_Card vm)"
    using assms(1,2) Some by (auto simp: vm_items_def wf_vm_def sees_append)
  show ?thesis
  proof (cases "vm_GroupSide vm = []")
    case True
    then have "cur ?p = t" using assms(1) Some by (simp add: vm_items_def sees_append)
    with True parse_labels [OF s(1)] s(2) assms(2,3) Some show ?thesis
      by (cases vm) (auto simp: parseVectorMatching_def vm_items_def wf_vm_def)
  next
    case False
    then have g: "cur ?p = Tok (if vm_GroupSide vm = ''group_left'' then TokGroupLeft else TokGroupRight) (vm_GroupSide vm)"
      "sees U (skip U ?p) (toks ?is)"
      using assms(1,2) Some by (auto simp: vm_items_def wf_vm_def sees_append)
    with False parse_labels [OF s(1)] parse_labels [OF g(2)] s(2) assms(2) Some show ?thesis
      by (cases vm) (auto simp: parseVectorMatching_def vm_items_def wf_vm_def skipn_add skip_skipn)
  qed
qed

subsection \<open>Expressions\<close>

definition range_items :: "string \<Rightarrow> string \<Rightarrow> item list" where
  "range_items rng off =
     [J (LxOp TokLBracket), J (LxDuration rng), J (LxOp TokRBracket)] @
     (if off = [] then [] else [S (LxIdent ''offset''), S (LxDuration off)]) @ [J (LxOp TokRParen)]"

definition phi_items :: "float64 option \<Rightarrow> item list" where
  "phi_items phi = (case phi of None \<Rightarrow> [] | Some v \<Rightarrow> num_items v @ [J (LxOp TokComma)])"

definition wf_phi :: "RangeOp \<Rightarrow> float64 option \<Rightarrow> bool" where
  "wf_phi oper phi \<longleftrightarrow> (case phi of None \<Rightarrow> True | Some v \<Rightarrow> oper = RangeQuantileOverTime \<and> plain_number v)"

definition k_items :: "float64 option \<Rightarrow> item list" where
  "k_items k = (case k of None \<Rightarrow> [] | Some v \<Rightarrow> [J (LxNumber (formatG v)), J (LxOp TokComma)])"

definition wf_k :: "VectorOp \<Rightarrow> float64 option \<Rightarrow> bool" where
  "wf_k oper k \<longleftrightarrow>
     (case k of
        None \<Rightarrow> oper \<noteq> VectorTopK \<and> oper \<noteq> VectorBottomK
      | Some v \<Rightarrow>
          (oper = VectorTopK \<or> oper = VectorBottomK) \<and> wf_number (formatG v) \<and>
          (case Atoi (formatG v) of Inl _ \<Rightarrow> False | Inr i \<Rightarrow> 0 < i \<and> float64_of_int i = v))"

definition operand_items :: "Expr \<Rightarrow> item list \<Rightarrow> item list" where
  "operand_items e is = (if is_BinOp e then J (LxOp TokLParen) # is @ [J (LxOp TokRParen)] else is)"

text \<open>\<open>xprints U e is\<close>: the expression \<open>e\<close> is printed as the lexemes \<open>is\<close>.\<close>

inductive xprints :: "unicode \<Rightarrow> Expr \<Rightarrow> item list \<Rightarrow> bool" for U where
  query: "prints_query U q is \<Longrightarrow> xprints U (ELogQuery q) is"
| literal: "plain_number v \<Longrightarrow> xprints U (ELiteral v) (num_items v)"
| rangeAgg: "prints_query U q is \<Longrightarrow> wf_duration rng \<Longrightarrow> off = [] \<or> wf_duration off \<Longrightarrow> wf_phi oper phi \<Longrightarrow> wf_group g \<Longrightarrow>
    xprints U (ERangeAgg oper (ELogQuery q) rng off phi g)
      ([J (LxIdent (RangeOp_String oper)), J (LxOp TokLParen)] @ phi_items phi @ is @ range_items rng off @ group_items g)"
| vectorAgg: "xprints U e is \<Longrightarrow> wf_group g \<Longrightarrow> wf_k oper k \<Longrightarrow>
    xprints U (EVectorAgg oper g k e)
      (J (LxIdent (VectorOp_String oper)) # group_items g @ [S (LxOp TokLParen)] @ k_items k @ is @ [J (LxOp TokRParen)])"
| binOp: "xprints U l is \<Longrightarrow> xprints U r js \<Longrightarrow> \<not> is_LogQuery l \<Longrightarrow> \<not> is_LogQuery r \<Longrightarrow>
    0 < binaryPrecedence t \<Longrightarrow> wf_vm vm \<Longrightarrow>
    xprints U (EBinOp l r (TokType_String t) b vm)
      (operand_items l is @ [S (LxOp t)] @ (if b then [S (LxIdent ''bool'')] else []) @ vm_items vm @
       space_first (operand_items r js))"

lemmas word_defs =
  wf_ident_def wf_word_def word_start_def isAlphanumeric_def is_digit_def ident_char_def keywordTypes_def

lemma oper_words [simp]:
  "wf_ident (RangeOp_String rop)" "wf_ident (VectorOp_String vop)" "wf_ident ''offset''" "wf_ident ''bool''"
proof -
  show "wf_ident (RangeOp_String rop)" by (cases rop) (simp_all add: word_defs)
  show "wf_ident (VectorOp_String vop)" by (cases vop) (simp_all add: word_defs)
qed (simp_all add: word_defs)

lemma stop_bracket: "lx_stop lx (CHR ''['') \<Longrightarrow> lx_stop lx (CHR '')'') \<and> lx_stop lx (CHR '','')"
  by (cases lx) (auto split: if_splits)

lemma query_expr_chain: "prints_query U q is \<Longrightarrow> expr_chain U is \<and> \<not> fst (hd is)"
  using query_chain [of U q "is"] stop_bracket by (auto simp: expr_chain_def)

lemma duration_range_chain:
  assumes "wf_duration rng" "off = [] \<or> wf_duration off"
  shows "lex_chain U 0 (range_items rng off)" "chain_depth 0 (range_items rng off) = 0"
    "range_items rng off \<noteq> []" "hd (range_items rng off) = J (LxOp TokLBracket)" "last (range_items rng off) = J (LxOp TokRParen)"
  using assms by (auto simp: range_items_def free_text_def keyword_def word_end_def ident_char_def isAlphanumeric_def)

lemma phi_chain: "wf_phi oper phi \<Longrightarrow> phi_items phi = [] \<or> expr_chain U (phi_items phi) \<and> last (phi_items phi) = J (LxOp TokComma) \<and> \<not> fst (hd (phi_items phi))"
  using num_chain [of "the phi" U]
  by (cases phi) (auto simp: wf_phi_def phi_items_def expr_chain_def lex_chain_append free_text_def keyword_def hd_append)

lemma k_chain: "wf_k oper k \<Longrightarrow> k_items k = [] \<or> expr_chain U (k_items k) \<and> last (k_items k) = J (LxOp TokComma) \<and> \<not> fst (hd (k_items k))"
  by (cases k) (auto simp: wf_k_def k_items_def expr_chain_def free_text_def keyword_def)

lemma k_text: "items_text U (k_items k) = (case k of None \<Rightarrow> [] | Some k \<Rightarrow> formatG k @ '','')"
  by (auto simp: k_items_def item_text_def split: option.splits)

lemma phi_text: "wf_phi oper phi \<Longrightarrow> items_text U (phi_items phi) = (case phi of None \<Rightarrow> [] | Some phi \<Rightarrow> formatG phi @ '','')"
  by (auto simp: phi_items_def item_text_def wf_phi_def num_text split: option.splits)

lemma binary_op: "0 < binaryPrecedence t \<Longrightarrow> lx_ok 0 (LxOp t) \<and> lx_depth 0 (LxOp t) = 0"
  by (cases t) (simp_all add: binaryPrecedence_def free_text_def)

text \<open>Printed expressions are chains of lexemes.\<close>

lemma expr_chain_head: "expr_chain U is \<Longrightarrow> expr_chain U (space_first is)"
  by (auto simp: expr_chain_def)

lemma operand_chain:
  "expr_chain U is \<Longrightarrow> \<not> fst (hd is) \<Longrightarrow> expr_chain U (operand_items e is) \<and> \<not> fst (hd (operand_items e is))"
  by (auto simp: operand_items_def expr_chain_def lex_chain_append free_text_def keyword_def)

lemma xprints_chain: "xprints U e is \<Longrightarrow> expr_chain U is \<and> \<not> fst (hd is)"
proof (induction rule: xprints.induct)
  case (query q "is")
  then show ?case by (rule query_expr_chain)
next
  case (literal v)
  then show ?case using num_chain by auto
next
  case (rangeAgg q "is" rng off oper phi g)
  note q = query_chain [OF rangeAgg(1)] and r = duration_range_chain(1) [OF rangeAgg(2,3), of U] duration_range_chain(2-5) [OF rangeAgg(2,3)] and p = phi_chain [OF rangeAgg(4), of U]
  show ?case
    using group_chain [OF rangeAgg(5), of U] q r p
    by (auto simp: expr_chain_def lex_chain_append free_text_def keyword_def hd_append last_append)
next
  case (vectorAgg e "is" g oper k)
  from group_chain [OF vectorAgg(2), of U] vectorAgg.IH k_chain [OF vectorAgg(3), of U] show ?case
    by (auto simp: expr_chain_def lex_chain_append free_text_def keyword_def hd_append)
next
  case (binOp l "is" r js t vm b)
  have "expr_chain U (operand_items l is)" "\<not> fst (hd (operand_items l is))" "expr_chain U (operand_items r js)"
    using operand_chain binOp.IH by auto
  with vm_chain [OF binOp.hyps(6), of U] binary_op [OF binOp.hyps(5)] show ?case
    by (cases b) (auto simp: expr_chain_def lex_chain_append hd_append)
qed

lemma operand_text:
  "items_text U (operand_items e is) = (if is_BinOp e then ''('' @ items_text U is @ '')'' else items_text U is)"
  by (simp add: operand_items_def item_text_def)

lemma xprints_text: "xprints U e is \<Longrightarrow> items_text U is = Expr_String U e"
proof (induction rule: xprints.induct)
  case (query q "is")
  then show ?case by (simp add: query_text)
next
  case (literal v)
  then show ?case by (simp add: num_text)
next
  case (rangeAgg q "is" rng off oper phi g)
  then show ?case
    by (simp add: RangeAggregation_String_def group_text phi_text query_text range_items_def item_text_def Let_def)
next
  case (vectorAgg e "is" g oper k)
  then show ?case by (simp add: VectorAggregation_String_def group_text k_text item_text_def)
next
  case (binOp l "is" r js t vm b)
  have "expr_chain U (operand_items r js) \<and> \<not> fst (hd (operand_items r js))"
    using xprints_chain [OF binOp.hyps(2)] by (intro operand_chain) auto
  then have "items_text U (space_first (operand_items r js)) = '' '' @ items_text U (operand_items r js)"
    by (intro space_first_text) (auto simp: expr_chain_def)
  with binOp show ?case
    by (simp add: BinOpExpr_String_def vm_text operand_text item_text_def Let_def)
qed

subsection \<open>Parsing expressions\<close>

lemma parse_range:
  assumes "sees U p (toks (range_items rng off))"
  shows "parseRange U p = Ok ((rng, off), skipn U (length (range_items rng off)) p)"
  using assms
  by (cases "off = []") (simp_all add: range_items_def parseRange_def parseAtModifier_def expect_def advance_skip Let_def)

lemma parse_k:
  assumes "sees U p (toks (k_items k))" "wf_k oper k"
  shows "parseK U oper p = Ok (k, skipn U (length (k_items k)) p)"
  using assms
  by (cases k)
    (auto simp: k_items_def wf_k_def parseK_def expect_def advance_skip split: sum.splits)

lemma parse_phi:
  assumes "sees U p (toks (phi_items phi) @ [Tok TokLBrace ''{''])" "wf_phi oper phi"
  shows "(if oper = RangeQuantileOverTime then parseQuantileParam U p else Ok (None, p)) =
    Ok (phi, skipn U (length (phi_items phi)) p)"
proof (cases phi)
  case None
  with assms show ?thesis by (simp add: phi_items_def parseQuantileParam_def)
next
  case (Some v)
  with assms parse_quantile [of v U p] show ?thesis
    by (auto simp: phi_items_def wf_phi_def sees_append skipn_add skip_skipn)
qed

lemma opt_group:
  assumes "sees U p (toks (group_items g) @ [t])" "Typ t \<noteq> TokBy \<and> Typ t \<noteq> TokWithout"
  shows "parseOptGrouping U p = Ok (g, skipn U (length (group_items g)) p)"
proof (cases g)
  case None
  with assms show ?thesis by (simp add: group_items_def parseOptGrouping_def)
next
  case (Some gr)
  with assms parse_group [of U p gr] show ?thesis by (simp add: sees_append)
qed

lemma oper_lookup:
  "map_of vectorOps (VectorOp_String vop) = Some vop" "map_of vectorOps (RangeOp_String rop) = None"
  "map_of rangeOps (RangeOp_String rop) = Some rop"
proof -
  show "map_of vectorOps (VectorOp_String vop) = Some vop" by (cases vop) (simp_all add: vectorOps_def)
  show "map_of vectorOps (RangeOp_String rop) = None" by (cases rop) (simp_all add: vectorOps_def)
  show "map_of rangeOps (RangeOp_String rop) = Some rop" by (cases rop) (simp_all add: rangeOps_def)
qed

lemma sees_wf:
  assumes "sees U p (toks is @ ts)" "\<forall>i\<in>set is. Typ (lx_tok (snd i)) \<noteq> TokEOF" "wf_parser p"
  shows "wf_parser (skipn U (length is) p)"
  using assms
proof (induction "is" arbitrary: p)
  case (Cons i "is")
  then have "wf_parser (skip U p)" by (intro skip_wf) auto
  with Cons show ?case by simp
qed simp

lemma chain_not_EOF: "lex_chain U d is \<Longrightarrow> \<forall>i\<in>set is. Typ (lx_tok (snd i)) \<noteq> TokEOF"
proof (induction U d "is" rule: lex_chain.induct)
  case (2 U d sp lx "is")
  then show ?case by (cases lx) (auto simp: free_text_def)
qed simp

lemma sees_chain_wf:
  "sees U p (toks is @ ts) \<Longrightarrow> lex_chain U d is \<Longrightarrow> wf_parser p \<Longrightarrow> wf_parser (skipn U (length is) p)"
  using sees_wf chain_not_EOF by blast

text \<open>The parser reads the expression as a primary, before any token that does not continue it.\<close>

definition reads_primary :: "unicode \<Rightarrow> Expr \<Rightarrow> item list \<Rightarrow> bool" where
  "reads_primary U e is \<longleftrightarrow>
     (\<forall>p t n. sees U p (toks is @ [t]) \<longrightarrow> wf_parser p \<longrightarrow> Typ t \<noteq> TokBy \<and> Typ t \<noteq> TokWithout \<longrightarrow>
        (is_LogQuery e \<longrightarrow> query_end (Typ t)) \<longrightarrow> 2 * length is < n \<longrightarrow>
        parsePrimary U n p = Ok (e, skipn U (length is) p))"

definition reads_expr :: "unicode \<Rightarrow> Expr \<Rightarrow> item list \<Rightarrow> bool" where
  "reads_expr U e is \<longleftrightarrow>
     (\<forall>p t n. sees U p (toks is @ [t]) \<longrightarrow> wf_parser p \<longrightarrow> Typ t = TokEOF \<or> Typ t = TokRParen \<longrightarrow>
        2 * length is + 1 < n \<longrightarrow> parseExpr U n p = Ok (e, skipn U (length is) p))"

lemma reads_primaryD:
  "reads_primary U e is \<Longrightarrow> sees U p (toks is @ [t]) \<Longrightarrow> wf_parser p \<Longrightarrow> Typ t \<noteq> TokBy \<and> Typ t \<noteq> TokWithout \<Longrightarrow>
     (is_LogQuery e \<longrightarrow> query_end (Typ t)) \<Longrightarrow> 2 * length is < n \<Longrightarrow> parsePrimary U n p = Ok (e, skipn U (length is) p)"
  unfolding reads_primary_def by blast

lemma reads_exprD:
  "reads_expr U e is \<Longrightarrow> sees U p (toks is @ [t]) \<Longrightarrow> wf_parser p \<Longrightarrow> Typ t = TokEOF \<or> Typ t = TokRParen \<Longrightarrow>
     2 * length is + 1 < n \<Longrightarrow> parseExpr U n p = Ok (e, skipn U (length is) p)"
  unfolding reads_expr_def by blast

lemma reads_primaryI:
  assumes "\<And>p t n. sees U p (toks is @ [t]) \<Longrightarrow> wf_parser p \<Longrightarrow> Typ t \<noteq> TokBy \<and> Typ t \<noteq> TokWithout \<Longrightarrow>
      (is_LogQuery e \<longrightarrow> query_end (Typ t)) \<Longrightarrow> 2 * length is \<le> n \<Longrightarrow>
      parsePrimary U (Suc n) p = Ok (e, skipn U (length is) p)"
  shows "reads_primary U e is"
  unfolding reads_primary_def
proof (intro allI impI)
  fix p t n
  assume "sees U p (toks is @ [t])" "wf_parser p" "Typ t \<noteq> TokBy \<and> Typ t \<noteq> TokWithout" "is_LogQuery e \<longrightarrow> query_end (Typ t)"
    "2 * length is < n"
  with assms [of p t "n - 1"] show "parsePrimary U n p = Ok (e, skipn U (length is) p)" by (cases n) auto
qed

lemma primary_expr: "reads_primary U e is \<Longrightarrow> is \<noteq> [] \<Longrightarrow> reads_expr U e is"
  unfolding reads_expr_def
proof (intro allI impI)
  fix p t n
  assume a: "reads_primary U e is" "is \<noteq> []" "sees U p (toks is @ [t])" "wf_parser p" "Typ t = TokEOF \<or> Typ t = TokRParen"
    "2 * length is + 1 < n"
  then obtain m where m: "n = Suc (Suc m)" "2 * length is < Suc m" by (cases n; cases "n - 1") auto
  have "parsePrimary U (Suc m) p = Ok (e, skipn U (length is) p)"
    using a m by (intro reads_primaryD) (auto simp: query_end_def)
  moreover have "cur (skipn U (length is) p) = t" using a(3) by (simp add: sees_append)
  ultimately show "parseExpr U n p = Ok (e, skipn U (length is) p)"
    using a(5) by (auto simp: m binaryPrecedence_def simp del: parsePrimary.simps)
qed

lemma query_primary: "prints_query U q is \<Longrightarrow> reads_primary U (ELogQuery q) is"
proof (rule reads_primaryI)
  fix p t n
  assume a: "prints_query U q is" "sees U p (toks is @ [t])" "wf_parser p" "is_LogQuery (ELogQuery q) \<longrightarrow> query_end (Typ t)"
  moreover have "curTyp p = TokLBrace"
    using a(1,2) by (auto simp: prints_query_def selector_items_def)
  ultimately show "parsePrimary U (Suc n) p = Ok (ELogQuery q, skipn U (length is) p)"
    using parse_query [of U q "is" p t] by simp
qed

lemma range_primary:
  assumes "prints_query U q is" "wf_duration rng" "off = [] \<or> wf_duration off" "wf_phi oper phi" "wf_group g"
  shows "reads_primary U (ERangeAgg oper (ELogQuery q) rng off phi g)
    ([J (LxIdent (RangeOp_String oper)), J (LxOp TokLParen)] @ phi_items phi @ is @ range_items rng off @ group_items g)"
proof (rule reads_primaryI)
  fix p t n
  let ?all = "[J (LxIdent (RangeOp_String oper)), J (LxOp TokLParen)] @ phi_items phi @ is @ range_items rng off @ group_items g"
  assume s: "sees U p (toks ?all @ [t])" and w: "wf_parser p" and t: "Typ t \<noteq> TokBy \<and> Typ t \<noteq> TokWithout" and n: "2 * length ?all \<le> n"
  let ?p1 = "skip U (skip U p)"
  let ?p2 = "skipn U (length (phi_items phi)) ?p1"
  let ?p3 = "skipn U (length is) ?p2"
  let ?p4 = "skipn U (length (range_items rng off)) ?p3"
  obtain is' where is': "is = J (LxOp TokLBrace) # is'" using assms(1) by (auto simp: prints_query_def selector_items_def)
  obtain rs where rs: "range_items rng off = J (LxOp TokLBracket) # rs" by (simp add: range_items_def)
  have h: "cur p = Tok TokIdent (RangeOp_String oper)" "cur (skip U p) = Tok TokLParen ''(''"
      "sees U ?p1 (toks (phi_items phi) @ [Tok TokLBrace ''{''])" "sees U ?p2 (toks is @ [Tok TokLBracket ''[''])"
      "sees U ?p3 (toks (range_items rng off))" "sees U ?p4 (toks (group_items g) @ [t])"
    using s by (simp_all add: sees_append skipn_add is' rs)
  have w1: "wf_parser ?p1" using w h(1,2) by (auto intro!: skip_wf)
  have w2: "wf_parser ?p2"
    using phi_chain [OF assms(4), of U] h(3) w1 sees_chain_wf [of U ?p1 "phi_items phi" _ 0] by (auto simp: expr_chain_def)
  have c: "cur ?p2 = Tok TokLBrace ''{''" using h(3) by (simp add: sees_append)
  then have chk: "checkRangeAggregationArgument U b ?p2 = None" for b
    by (simp add: checkRangeAggregationArgument_def probeParens.simps [of U _ ?p2])
  have "parseLogQuery U ?p2 = Ok (q, ?p3)" using parse_query [OF assms(1) h(4)] w2 by (simp add: query_end_def)
  moreover obtain m where m: "n = Suc m" using n by (cases n) auto
  moreover note parse_range [OF h(5)] opt_group [OF h(6) t] parse_phi [OF h(3) assms(4)]
  ultimately have "parsePrimary U (Suc n) p =
      Ok (ERangeAgg oper (ELogQuery q) rng off phi g, skipn U (length (group_items g)) ?p4)"
    using h(1,2) c chk by (simp add: oper_lookup expect_def advance_skip)
  moreover have "skipn U (length ?all) p = skipn U (length (group_items g)) ?p4" by (simp add: skipn_add)
  ultimately show "parsePrimary U (Suc n) p = Ok (ERangeAgg oper (ELogQuery q) rng off phi g, skipn U (length ?all) p)"
    by (simp only:)
qed

lemma skip_past: "skip U (skipn U n p) = skipn U n (skip U p)"
  by (induction n arbitrary: p) auto

lemma vector_primary:
  assumes "reads_expr U e is" "expr_chain U is" "wf_group g" "wf_k oper k"
  shows "reads_primary U (EVectorAgg oper g k e)
    (J (LxIdent (VectorOp_String oper)) # group_items g @ [S (LxOp TokLParen)] @ k_items k @ is @ [J (LxOp TokRParen)])"
proof (rule reads_primaryI)
  fix p t n
  let ?all = "J (LxIdent (VectorOp_String oper)) # group_items g @ [S (LxOp TokLParen)] @ k_items k @ is @ [J (LxOp TokRParen)]"
  assume s: "sees U p (toks ?all @ [t])" and w: "wf_parser p" and t: "Typ t \<noteq> TokBy \<and> Typ t \<noteq> TokWithout" and n: "2 * length ?all \<le> n"
  let ?p1 = "skipn U (length (group_items g)) (skip U p)"
  let ?p2 = "skipn U (length (k_items k)) (skip U ?p1)"
  let ?p3 = "skipn U (length is) ?p2"
  have h: "cur p = Tok TokIdent (VectorOp_String oper)" "sees U (skip U p) (toks (group_items g) @ [Tok TokLParen ''(''])"
      "cur ?p1 = Tok TokLParen ''(''" "sees U (skip U ?p1) (toks (k_items k))" "sees U ?p2 (toks is @ [Tok TokRParen '')''])"
      "cur ?p3 = Tok TokRParen '')''" "cur (skip U ?p3) = t"
    using s by (simp_all add: sees_append)
  have w1: "wf_parser (skip U p)" using w h(1) by (auto intro!: skip_wf)
  have "wf_parser ?p1"
    using group_chain [OF assms(3), of U] h(2) w1 sees_chain_wf [of U "skip U p" "group_items g" _ 0] by (auto simp: expr_chain_def)
  then have "wf_parser (skip U ?p1)" using h(3) by (auto intro!: skip_wf)
  then have "wf_parser ?p2"
    using k_chain [OF assms(4), of U] h(4) sees_chain_wf [of U "skip U ?p1" "k_items k" "[]" 0] by (auto simp: expr_chain_def)
  moreover obtain m where m: "n = Suc m" "2 * length is + 1 < m" using n by (cases n) auto
  ultimately have "parseExpr U m ?p2 = Ok (e, ?p3)" using assms(1) h(5) by (intro reads_exprD) auto
  moreover note parse_k [OF h(4) assms(4)] opt_group [OF h(2)]
  moreover have "parseOptGrouping U (skip U ?p3) = Ok (None, skip U ?p3)" using h(7) t by (simp add: parseOptGrouping_def)
  ultimately have "parsePrimary U (Suc n) p = Ok (EVectorAgg oper g k e, skip U ?p3)"
    using h(1,3,6) by (cases g) (simp_all add: oper_lookup expect_def advance_skip m del: parseExpr.simps)
  moreover have "skipn U (length ?all) p = skip U ?p3" by (simp add: skipn_add skip_past)
  ultimately show "parsePrimary U (Suc n) p = Ok (EVectorAgg oper g k e, skipn U (length ?all) p)" by (simp only:)
qed

lemma operand_primary:
  assumes "reads_expr U e is" "\<not> is_BinOp e \<longrightarrow> reads_primary U e is" "expr_chain U is"
  shows "reads_primary U e (operand_items e is)"
proof (cases "is_BinOp e")
  case False
  with assms show ?thesis by (simp add: operand_items_def)
next
  case True
  let ?all = "J (LxOp TokLParen) # is @ [J (LxOp TokRParen)]"
  have "reads_primary U e ?all"
  proof (rule reads_primaryI)
    fix p t n
    assume s: "sees U p (toks ?all @ [t])" and w: "wf_parser p" and n: "2 * length ?all \<le> n"
    let ?p = "skipn U (length is) (skip U p)"
    have h: "cur p = Tok TokLParen ''(''" "sees U (skip U p) (toks is @ [Tok TokRParen '')''])" "cur ?p = Tok TokRParen '')''"
      using s by (simp_all add: sees_append)
    have "wf_parser (skip U p)" using w h(1) by (auto intro!: skip_wf)
    then have "parseExpr U n (skip U p) = Ok (e, ?p)" using assms(1) h(2) n by (intro reads_exprD) auto
    with h show "parsePrimary U (Suc n) p = Ok (e, skipn U (length ?all) p)"
      by (simp add: expect_def advance_skip skipn_add skip_skipn del: parseExpr.simps)
  qed
  with True show ?thesis by (simp add: operand_items_def)
qed

lemma primary_start:
  assumes "xprints U e is" "\<not> is_LogQuery e"
  shows "\<exists>i js. operand_items e is = i # js \<and>
    Typ (lx_tok (snd i)) \<notin> {TokOn, TokIgnoring, TokGroupLeft, TokGroupRight} \<and> lx_tok (snd i) \<noteq> Tok TokIdent ''bool''"
proof -
  have "RangeOp_String rop \<noteq> ''bool'' \<and> VectorOp_String vop \<noteq> ''bool''" for rop vop
    by (cases rop; cases vop; simp)
  with assms show ?thesis
    by cases (auto simp: operand_items_def num_items_def plain_number_def split: list.splits)
qed

lemma binary_expr:
  assumes l: "reads_primary U l ls" "expr_chain U ls" "\<not> is_LogQuery l"
    and r: "reads_primary U r rs" "expr_chain U rs" "\<not> is_LogQuery r"
    and h: "rs = i # js" "Typ (lx_tok (snd i)) \<notin> {TokOn, TokIgnoring, TokGroupLeft, TokGroupRight}" "lx_tok (snd i) \<noteq> Tok TokIdent ''bool''"
    and t: "0 < binaryPrecedence t" and vm: "wf_vm vm"
  shows "reads_expr U (EBinOp l r (TokType_String t) b vm)
    (ls @ [S (LxOp t)] @ (if b then [S (LxIdent ''bool'')] else []) @ vm_items vm @ space_first rs)"
  unfolding reads_expr_def
proof (intro allI impI)
  fix p e n
  let ?bs = "if b then [S (LxIdent ''bool'')] else []"
  let ?all = "ls @ [S (LxOp t)] @ ?bs @ vm_items vm @ space_first rs"
  assume s: "sees U p (toks ?all @ [e])" and w: "wf_parser p" and e: "Typ e = TokEOF \<or> Typ e = TokRParen" and n: "2 * length ?all + 1 < n"
  let ?p1 = "skipn U (length ls) p"
  let ?p2 = "skipn U (length ?bs) (skip U ?p1)"
  let ?p3 = "skipn U (length (vm_items vm)) ?p2"
  let ?p4 = "skipn U (length rs) ?p3"
  have k: "sees U p (toks ls @ [Tok t (TokType_String t)])" "cur ?p1 = Tok t (TokType_String t)" "sees U (skip U ?p1) (toks ?bs)"
      "sees U ?p2 (toks (vm_items vm) @ [lx_tok (snd i)])" "sees U ?p3 (toks rs @ [e])" "cur ?p4 = e"
    using s by (simp_all add: sees_append h(1))
  have nt: "t \<noteq> TokBy \<and> t \<noteq> TokWithout \<and> t \<noteq> TokEOF" using t by (auto simp: binaryPrecedence_def)
  have "wf_parser ?p1" using sees_chain_wf [OF k(1)] l(2) w by (auto simp: expr_chain_def)
  then have w1: "wf_parser (skip U ?p1)" using k(2) nt by (auto intro!: skip_wf)
  have w2: "wf_parser ?p2" using sees_wf [of U "skip U ?p1" ?bs "[]"] w1 k(3) by (auto split: if_splits)
  have w3: "wf_parser ?p3"
    using vm_chain [OF vm, of U] w2 k(4) sees_chain_wf [of U ?p2 "vm_items vm" _ 0] by auto
  obtain m where m: "n = Suc (Suc (Suc m))" "2 * length ls < Suc (Suc m)" "2 * length rs < Suc m"
    using n r(2) by (cases n; cases "n - 1"; cases "n - 2") (auto simp: expr_chain_def)
  have L: "parsePrimary U (Suc (Suc m)) p = Ok (l, ?p1)" using l k(1) w nt m(2) by (intro reads_primaryD) auto
  have R: "parsePrimary U (Suc m) ?p3 = Ok (r, ?p4)" using r k(5) w3 e m(3) by (intro reads_primaryD) auto
  have V: "parseVectorMatching U ?p2 = Ok (vm, ?p3)" using parse_vm [OF k(4) vm h(2)] by simp
  have B: "(curTyp (skip U ?p1) = TokIdent \<and> curVal (skip U ?p1) = ''bool'') = b"
  proof (cases b)
    case False
    have "cur ?p2 \<noteq> Tok TokIdent ''bool''"
      using k(4) h(3) vm by (cases vm) (auto simp: vm_items_def split: if_splits)
    with False show ?thesis by (cases "cur (skip U ?p1)") auto
  qed (use k(3) in auto)
  have P: "binaryPrecedence (curTyp ?p4) = 0" using e k(6) by (auto simp: binaryPrecedence_def)
  have stop: "parseBinaryRHS U (Suc j) x q ?p4 = Ok (x, ?p4)" if "0 < q" for j x q using that P by simp
  have p2: "(if b then skip U (skip U ?p1) else skip U ?p1) = ?p2" by simp
  have "parseBinaryRHS U (Suc (Suc m)) l 1 ?p1 = Ok (EBinOp l r (TokType_String t) b vm, ?p4)"
    using t by (subst parseBinaryRHS.simps(2), unfold Let_def B k(2) Token.simps p2 V bindR.simps split_conv R)
      (simp add: stop del: parsePrimary.simps parseBinaryRHS.simps)
  then have "parseExpr U n p = Ok (EBinOp l r (TokType_String t) b vm, ?p4)"
    unfolding m(1) parseExpr.simps L bindR.simps split_conv .
  moreover have "skipn U (length ?all) p = ?p4" by (simp add: skipn_add skip_past)
  ultimately show "parseExpr U n p = Ok (EBinOp l r (TokType_String t) b vm, skipn U (length ?all) p)" by (simp only:)
qed

lemma xprints_reads: "xprints U e is \<Longrightarrow> reads_expr U e is \<and> (\<not> is_BinOp e \<longrightarrow> reads_primary U e is)"
proof (induction rule: xprints.induct)
  case (query q "is")
  then show ?case using query_primary primary_expr query_chain(1) by blast
next
  case (literal v)
  then have "reads_primary U (ELiteral v) (num_items v)"
    by (intro reads_primaryI) (simp add: sees_append parse_number del: parsePrimary.simps)
  then show ?case using primary_expr num_chain [OF literal] by (auto simp: expr_chain_def)
next
  case (rangeAgg q "is" rng off oper phi g)
  from range_primary [OF rangeAgg] show ?case by (auto intro: primary_expr)
next
  case (vectorAgg e "is" g oper k)
  then have "expr_chain U is" using xprints_chain by blast
  with vectorAgg have "reads_primary U (EVectorAgg oper g k e)
      (J (LxIdent (VectorOp_String oper)) # group_items g @ [S (LxOp TokLParen)] @ k_items k @ is @ [J (LxOp TokRParen)])"
    by (intro vector_primary) auto
  then show ?case by (auto intro: primary_expr)
next
  case (binOp l "is" r js t vm b)
  note c = xprints_chain [OF binOp.hyps(1)] xprints_chain [OF binOp.hyps(2)]
  obtain i ks where s: "operand_items r js = i # ks"
      "Typ (lx_tok (snd i)) \<notin> {TokOn, TokIgnoring, TokGroupLeft, TokGroupRight}" "lx_tok (snd i) \<noteq> Tok TokIdent ''bool''"
    using primary_start [OF binOp.hyps(2,4)] by blast
  have "reads_expr U (EBinOp l r (TokType_String t) b vm)
      (operand_items l is @ [S (LxOp t)] @ (if b then [S (LxIdent ''bool'')] else []) @ vm_items vm @ space_first (operand_items r js))"
    using binOp c operand_chain
    by (intro binary_expr [OF operand_primary _ _ operand_primary _ _ s]) auto
  then show ?case by simp
qed

lemma items_length: "lex_chain U d is \<Longrightarrow> length is \<le> length (items_text U is)"
proof (induction U d "is" rule: lex_chain.induct)
  case (2 U d sp lx "is")
  then obtain c cs where "lx_text U lx = c # cs" using lx_head [of d lx U] by (cases "lx_text U lx") auto
  with 2 show ?case by (simp add: item_text_def)
qed simp

lemma parse_printed:
  assumes "xprints U e is"
  shows "Parse U (Expr_String U e) = Ok e"
proof -
  let ?p = "skip U (newParser (Expr_String U e))"
  have c: "lex_chain U 0 is" using xprints_chain [OF assms] by (simp add: expr_chain_def)
  have s: "sees U ?p (toks is @ [Tok TokEOF []])" using lex_new [OF c] xprints_text [OF assms] by simp
  have "length is \<le> length (Expr_String U e)" using items_length [OF c] xprints_text [OF assms] by simp
  then have "parseExpr U (4 * length (Expr_String U e) + 8) ?p = Ok (e, skipn U (length is) ?p)"
    using xprints_reads [OF assms] s start_parser(1) by (intro reads_exprD) auto
  moreover have "cur (skipn U (length is) ?p) = Tok TokEOF []" using s by (simp add: sees_append)
  ultimately show ?thesis by (simp add: Parse_def del: parseExpr.simps)
qed

text \<open>
  C2. An expression in the printable fragment is read back from its text: every node that \<open>Parse\<close>
  builds except opaque calls, with numbers that print without an exponent.
\<close>

theorem Parse_String:
  assumes "xprints U e is"
  shows "Parse U (Expr_String U e) = Ok e"
  by (rule parse_printed [OF assms])

text \<open>An alert rule's expression as an example: the five busiest applications above ten errors per second.\<close>

definition ascii :: unicode where
  "ascii = \<lparr>u_letter = (\<lambda>_. False), u_digit = (\<lambda>_. False), u_print = (\<lambda>_. False)\<rparr>"

definition example_query :: LogQuery where
  "example_query =
     \<lparr>Selector = \<lparr>Matchers = [\<lparr>lm_Name = ''app'', lm_Op = MatchRe, lm_Value = ''web.*''\<rparr>]\<rparr>,
      Pipeline =
        [LineFilterStage \<lparr>lf_Op = LineFilterContains, lf_Value = ''err'', lf_IP = False, lf_Or = [''warn'']\<rparr>,
         ParserStage ParserJSON [] [], LabelFilterStage ''status>=500'', DropStage [''trace''] []]\<rparr>"

definition example_expr :: Expr where
  "example_expr =
     EBinOp
       (EVectorAgg VectorTopK None (Some (F64 False 5))
          (EVectorAgg VectorSum (Some \<lparr>gr_Without = False, gr_Labels = [''app'']\<rparr>) None
             (ERangeAgg RangeRate (ELogQuery example_query) ''5m'' [] None None)))
       (ELiteral (F64 False 10)) ''>'' False None"

lemma example_words:
  "wf_ident ''app''" "wf_ident ''status''" "wf_ident ''trace''" "wf_number ''500''" "wf_number ''5''" "wf_number ''10''"
  "wf_duration ''5m''"
  by (simp_all add: word_defs wf_number_def number_char_def wf_duration_def letter_char_def
      wf_segments.simps [of "''5m''"])

lemma stages_printable: "list_all (\<lambda>st. \<exists>is. prints U st is) sts \<Longrightarrow> \<exists>iss. list_all2 (prints U) sts iss"
proof (induction sts)
  case (Cons st sts)
  then obtain "is" iss where "prints U st is" "list_all2 (prints U) sts iss" by auto
  then have "list_all2 (prints U) (st # sts) (is # iss)" by simp
  then show ?case by blast
qed (rule exI [of _ "[]"], simp)

lemma example_query_prints: "\<exists>is. prints_query U example_query is"
proof -
  have "prints U (LabelFilterStage ''status>=500'') (pipe_items ''status'' [J (LxOp TokGtEq), J (LxNumber ''500'')])"
    using prints.label [of "''status''" TokGtEq "LxNumber ''500''" U] by (simp add: example_words stage_keywords_def)
  moreover have "prints U (DropStage [''trace''] (concat (map dk_matcher [(''trace'', None)])))
      (pipe_items ''drop'' (space_first (join_items (map dk_items [(''trace'', None)]))))"
    by (rule prints.drop [where ms = "[]"]) (simp_all add: example_words wf_dk_def)
  moreover have "prints U (ParserStage ParserJSON [] []) (pipe_items ''json'' [])" by (rule prints.json)
  moreover have "\<exists>is. prints U (LineFilterStage f) is" if "\<not> lf_IP f" for f
    using prints.line [of f U] that by (auto simp: wf_lineFilter_def)
  ultimately have "list_all (\<lambda>st. \<exists>is. prints U st is) (Pipeline example_query)"
    unfolding example_query_def by auto
  then have "\<exists>iss. list_all2 (prints U) (Pipeline example_query) iss"
    by (rule stages_printable)
  then show ?thesis
    by (auto simp: prints_query_def example_query_def wf_selector_def example_words)
qed

lemma ten: "plain_number (F64 False 10)"
proof -
  have "formatG (F64 False 10) = ''10''" "roundF64 10 = 10" "digits_val ''10'' = 10" by code_simp+
  then show ?thesis by (simp add: plain_number_def example_words ParseFloat_def is_digit_def)
qed

lemma five: "wf_k VectorTopK (Some (F64 False 5))"
proof -
  have "formatG (F64 False 5) = ''5''" "Atoi ''5'' = Inr 5" "float64_of_int 5 = F64 False 5" by code_simp+
  then show ?thesis by (simp add: wf_k_def example_words)
qed

lemma example_prints: "\<exists>is. xprints U example_expr is"
proof -
  obtain "is" where q: "prints_query U example_query is" using example_query_prints by blast
  have "\<exists>is. xprints U (ERangeAgg RangeRate (ELogQuery example_query) ''5m'' [] None None) is"
    using xprints.rangeAgg [OF q, of "''5m''" "[]" RangeRate None None] by (auto simp: example_words wf_phi_def wf_group_def)
  then have "\<exists>is. xprints U (EVectorAgg VectorSum (Some \<lparr>gr_Without = False, gr_Labels = [''app'']\<rparr>) None
      (ERangeAgg RangeRate (ELogQuery example_query) ''5m'' [] None None)) is"
    using xprints.vectorAgg [of U _ _ "Some \<lparr>gr_Without = False, gr_Labels = [''app'']\<rparr>" VectorSum None]
    by (force simp: example_words wf_group_def wf_k_def)
  then have "\<exists>is. xprints U (EVectorAgg VectorTopK None (Some (F64 False 5))
      (EVectorAgg VectorSum (Some \<lparr>gr_Without = False, gr_Labels = [''app'']\<rparr>) None
      (ERangeAgg RangeRate (ELogQuery example_query) ''5m'' [] None None))) is"
    using xprints.vectorAgg [of U _ _ None VectorTopK "Some (F64 False 5)"] five by (force simp: wf_group_def)
  then show ?thesis
    using xprints.binOp [of U _ _ "ELiteral (F64 False 10)" "num_items (F64 False 10)" TokGt None False] xprints.literal [OF ten, of U]
    by (force simp: example_expr_def binaryPrecedence_def wf_vm_def)
qed

theorem Parse_String_witness:
  "(\<exists>is. xprints ascii example_expr is) \<and> Parse ascii (Expr_String ascii example_expr) = Ok example_expr"
  using example_prints [of ascii] Parse_String [of ascii example_expr] by blast

text \<open>
  A log query is read back from its text by \<open>ParseLogQuery\<close>, the entry point of the stream handlers.
\<close>

theorem ParseLogQuery_String:
  assumes "prints_query U q is"
  shows "ParseLogQuery U (LogQuery_String U q) = Ok q"
  using parse_printed [OF xprints.query [OF assms]] by (simp add: ParseLogQuery_def)

theorem ParseLogQuery_String_witness:
  "(\<exists>is. prints_query ascii example_query is) \<and> ParseLogQuery ascii (LogQuery_String ascii example_query) = Ok example_query"
  using example_query_prints [of ascii] ParseLogQuery_String [of ascii example_query] by blast

text \<open>
  Printed expressions can be compared instead of syntax trees: two expressions of the fragment
  with the same text are equal, so a key built from the text identifies the expression.
\<close>

theorem Expr_String_inj:
  assumes "xprints U e is" "xprints U e' is'" "Expr_String U e = Expr_String U e'"
  shows "e = e'"
proof -
  have "Ok e = Ok e'"
    using parse_printed [OF assms(1)] parse_printed [OF assms(2)] unfolding assms(3) by (rule trans [OF sym])
  then show ?thesis by simp
qed

theorem Expr_String_inj_witness:
  "(\<exists>is. xprints ascii example_expr is) \<and> (\<exists>is. xprints ascii (ELogQuery example_query) is) \<and>
     Expr_String ascii example_expr \<noteq> Expr_String ascii (ELogQuery example_query)"
proof -
  obtain "is" js where "xprints ascii example_expr is" "xprints ascii (ELogQuery example_query) js"
    using example_prints example_query_prints xprints.query by blast
  moreover from Expr_String_inj [OF this] have "Expr_String ascii example_expr \<noteq> Expr_String ascii (ELogQuery example_query)"
    by (auto simp: example_expr_def)
  ultimately show ?thesis by blast
qed

text \<open>
  C30. The literal 1000000 is accepted, but its text is not: \<open>%g\<close> prints it as \<^verbatim>\<open>1e+06\<close>,
  which the scanner cuts into the duration \<^verbatim>\<open>1e\<close>, a plus sign and a number.
\<close>

theorem million_not_reparsed:
  "Parse U ''1000000'' = Ok (ELiteral (F64 False 1000000)) \<and>
   Parse U (Expr_String U (ELiteral (F64 False 1000000))) =
     Err (Errorf (''logql: unexpected token '' @ TokType_String TokDuration @ '' ('' @ Quote U ''1e'' @ '')''))"
proof
  have n: "lex_chain U 0 [J (LxNumber ''1000000'')]" by (simp add: wf_number_def number_char_def is_digit_def)
  have r: "roundF64 1000000 = 1000000" "digits_val ''1000000'' = 1000000" by code_simp+
  have "sees U (skip U (newParser ''1000000'')) [Tok TokNumber ''1000000'', Tok TokEOF []]"
    using lex_new [OF n] by (simp add: item_text_def)
  moreover have "ParseFloat ''1000000'' = Inr (F64 False 1000000)" by (simp add: ParseFloat_def is_digit_def r)
  ultimately show "Parse U ''1000000'' = Ok (ELiteral (F64 False 1000000))"
    by (simp add: Parse_def numeral_eq_Suc parseNumber_def binaryPrecedence_def)
next
  have d: "lex_chain U 0 [J (LxDuration ''1e''), J (LxOp TokPlus), J (LxNumber ''06'')]"
    by (simp add: wf_duration_def wf_segments.simps [of "''1e''"] wf_number_def number_char_def letter_char_def is_digit_def
        word_end_def ident_char_def isAlphanumeric_def free_text_def keyword_def)
  have f: "formatG (F64 False 1000000) = ''1e+06''" by code_simp
  have "cur (skip U (newParser ''1e+06'')) = Tok TokDuration ''1e''"
    using lex_new [OF d] by (simp add: item_text_def)
  then show "Parse U (Expr_String U (ELiteral (F64 False 1000000))) =
     Err (Errorf (''logql: unexpected token '' @ TokType_String TokDuration @ '' ('' @ Quote U ''1e'' @ '')''))"
    by (simp add: Parse_def f numeral_eq_Suc)
qed

end
