(* ===== verification/LogqlTypes.thy ===== *)
theory LogqlTypes
  imports LogqlExprRoundtrip
begin

text \<open>
  The shape of the trees that the LogQL parser builds. The fields of \<^verbatim>\<open>ast.go\<close> admit more
  than the grammar does: a phi on any range aggregation, a top-k without k, any string as an
  operator. The code behind the parser relies on the combinations that \<open>Parse\<close> can return.
\<close>

subsection \<open>Well-typed trees\<close>

fun wf_stage :: "Stage \<Rightarrow> bool" where
  "wf_stage (LineFilterStage f) = wf_lineFilter f"
| "wf_stage (ParserStage typ param fs) =
     ((fs \<noteq> [] \<longrightarrow> typ = ParserJSON \<or> typ = ParserLogfmt) \<and> (typ = ParserUnpack \<longrightarrow> param = []))"
| "wf_stage (DropStage ls ms) = ((ls \<noteq> [] \<or> ms \<noteq> []) \<and> list_all (\<lambda>m. dm_Op m \<in> {''='', ''!='', ''=~'', ''!~''}) ms)"
| "wf_stage (KeepStage ls ms) = ((ls \<noteq> [] \<or> ms \<noteq> []) \<and> list_all (\<lambda>m. dm_Op m \<in> {''='', ''!='', ''=~'', ''!~''}) ms)"
| "wf_stage (LabelFormatStage raw fs) = (fs \<noteq> [])"
| "wf_stage _ = True"

definition wf_matching :: "VectorMatching option \<Rightarrow> bool" where
  "wf_matching vmo \<longleftrightarrow>
     (case vmo of
        None \<Rightarrow> True
      | Some vm \<Rightarrow>
          vm_Card vm \<in> {''on'', ''ignoring''} \<and> vm_GroupSide vm \<in> {[], ''group_left'', ''group_right''} \<and>
          (vm_GroupSide vm = [] \<longrightarrow> vm_Include vm = []))"

definition binary_operators :: "string list" where
  "binary_operators =
     [''or'', ''and'', ''unless'', ''=='', ''!='', ''<'', ''<='', ''>'', ''>='', ''+'', ''-'', ''*'', ''/'', ''%'', ''^'']"

fun wf_expr :: "Expr \<Rightarrow> bool" where
  "wf_expr (ELogQuery q) = list_all wf_stage (Pipeline q)"
| "wf_expr (ERangeAgg oper inner rng off phi g) =
     (is_LogQuery inner \<and> wf_expr inner \<and> (phi \<noteq> None \<longrightarrow> oper = RangeQuantileOverTime))"
| "wf_expr (EVectorAgg oper g k inner) =
     (wf_expr inner \<and>
      (if oper = VectorTopK \<or> oper = VectorBottomK then \<exists>i. 0 < i \<and> k = Some (float64_of_int i) else k = None))"
| "wf_expr (EBinOp l r oper b vm) = (wf_expr l \<and> wf_expr r \<and> oper \<in> set binary_operators \<and> wf_matching vm)"
| "wf_expr (ELiteral v) = True"
| "wf_expr (EOpaque raw) = True"

subsection \<open>Results\<close>

named_theorems gives_rules "values that the parser's methods return"

definition gives :: "('a \<Rightarrow> bool) \<Rightarrow> ('a \<times> parser) res \<Rightarrow> bool" where
  "gives P r \<longleftrightarrow> (\<forall>x q. r = Ok (x, q) \<longrightarrow> P x)"

lemma gives_results [gives_rules]: "P x \<Longrightarrow> gives P (Ok (x, q))" "gives P (Err e)" "gives P Panic" "gives P Loop"
  by (simp_all add: gives_def)

lemma gives_bind [gives_rules]: "(\<And>x q. r = Ok (x, q) \<Longrightarrow> gives P (f (x, q))) \<Longrightarrow> gives P (bindR r f)"
  by (cases r) (auto simp: gives_def)

lemma gives_slice [gives_rules]: "(\<And>x. gives P (f x)) \<Longrightarrow> gives P (bindR (goSlice s i j) f)"
  by (auto simp: goSlice_def gives_def)

lemma gives_if [gives_rules]: "(b \<Longrightarrow> gives P x) \<Longrightarrow> (\<not> b \<Longrightarrow> gives P y) \<Longrightarrow> gives P (if b then x else y)"
  by simp

lemma givesD: "gives P r \<Longrightarrow> r = Ok (x, q) \<Longrightarrow> P x"
  by (simp add: gives_def)

lemma gives_trivial: "gives (\<lambda>x. True) r"
  by (simp add: gives_def)

subsection \<open>Stages\<close>

lemma string_ip:
  "curTyp p = TokIdent \<Longrightarrow> curVal p = ''ip'' \<Longrightarrow>
     gives (\<lambda>v. \<exists>pat. v = ''ip('' @ pat @ '')'' \<and> validIPPattern pat) (expectStringOrRaw U p)"
  by (subst expectStringOrRaw.simps) (auto simp: Let_def intro!: gives_rules)

lemma lineFilterStage_gives:
  assumes "isLineFilterOperator (curTyp p)"
  shows "gives wf_stage (parseLineFilterStage U p)"
proof (cases "curTyp (skip U p) = TokIdent \<and> curVal (skip U p) = ''ip''")
  case True
  have "wf_lineFilter \<lparr>lf_Op = lineFilterOpOf (curTyp p), lf_Value = TrimSuffix (TrimPrefix v ''ip('') '')'', lf_IP = True, lf_Or = []\<rparr>"
    if "curTyp p = TokPipeEq \<or> curTyp p = TokBangEq" "expectStringOrRaw U (skip U p) = Ok (v, q)" for v q
    using givesD [OF string_ip that(2)] True that(1) trim_ip by (auto simp: wf_lineFilter_def lineFilterOpOf_def)
  with True show ?thesis
    by (auto simp: parseLineFilterStage_def Let_def intro!: gives_rules)
next
  case False
  then show ?thesis by (auto simp: parseLineFilterStage_def Let_def wf_lineFilter_def intro!: gives_rules)
qed

abbreviation drop_lists :: "string list \<times> DropMatcher list \<Rightarrow> bool" where
  "drop_lists lm \<equiv> (fst lm \<noteq> [] \<or> snd lm \<noteq> []) \<and> list_all (\<lambda>m. dm_Op m \<in> {''='', ''!='', ''=~'', ''!~''}) (snd lm)"

lemma dropKeepItem_gives:
  "list_all (\<lambda>m. dm_Op m \<in> {''='', ''!='', ''=~'', ''!~''}) ms \<Longrightarrow> gives drop_lists (dropKeepItem U ls ms p)"
  by (auto simp: dropKeepItem_def dropOpOf_def Let_def split: TokType.split intro!: gives_rules)

lemma dropKeepLoop_gives:
  "list_all (\<lambda>m. dm_Op m \<in> {''='', ''!='', ''=~'', ''!~''}) ms \<Longrightarrow> ls \<noteq> [] \<or> ms \<noteq> [] \<or> curTyp p = TokIdent \<Longrightarrow>
     gives drop_lists (dropKeepLoop U ls ms p)"
proof (induction U ls ms p rule: dropKeepLoop.induct)
  case (1 U ls ms p)
  have item: "drop_lists lm" if "dropKeepItem U ls ms p = Ok (lm, q)" for lm q
    by (rule givesD [OF dropKeepItem_gives that]) (rule "1.prems"(1))
  have "gives drop_lists (dropKeepLoop U (fst lm) (snd lm) (skip U q))"
    if "dropKeepItem U ls ms p = Ok (lm, q)" "curTyp p = TokIdent" "curTyp q = TokComma" for lm q
    using item [OF that(1)] by (intro "1.IH" [OF that(2,1) refl that(3)]) auto
  with item "1.prems" show ?case
    by (subst dropKeepLoop.simps) (auto intro!: gives_rules)
qed

lemma labelFormatLoop_gives: "gives wf_stage (labelFormatLoop U raw fs p)"
proof (induction U raw fs p rule: labelFormatLoop.induct)
  case (1 U raw fs p)
  show ?case
    by (subst labelFormatLoop.simps) (auto intro!: gives_rules "1.IH")
qed

lemma simple_stages_gives [gives_rules]:
  "typ = ParserJSON \<or> typ = ParserLogfmt \<Longrightarrow> gives wf_stage (fieldListStage U typ p)"
  "(\<And>v. wf_stage (mk v)) \<Longrightarrow> gives wf_stage (stringStage U mk p)"
  "gives wf_stage (parseUnwrap U p)"
  by (auto simp: fieldListStage_def stringStage_def parseUnwrap_def Let_def intro!: gives_rules)

lemma dropKeepList_gives [gives_rules]:
  "(\<And>ls ms q. drop_lists (ls, ms) \<Longrightarrow> gives P (f ((ls, ms), q))) \<Longrightarrow> gives P (bindR (parseDropKeepList U p) f)"
  using givesD [OF dropKeepLoop_gives, of "[]" "[]" p U]
  by (intro gives_bind) (auto simp: parseDropKeepList_def split: if_splits)

lemma parsePipeBody_gives: "gives wf_stage (parsePipeBody U p)"
  unfolding parsePipeBody_def Let_def split_beta parseLabelFormat_def
  by (intro gives_if gives_results simple_stages_gives dropKeepList_gives labelFormatLoop_gives) auto

lemma stageLoop_gives: "list_all wf_stage ss \<Longrightarrow> gives (list_all wf_stage) (stageLoop U ss p)"
proof (induction U ss p rule: stageLoop.induct)
  case (1 U ss p)
  have "wf_stage s" if "parsePipelineStage U p = Ok (Some s, q)" for s q
    using that givesD [OF lineFilterStage_gives, of p U s q] givesD [OF parsePipeBody_gives, of U "skip U p" s q]
    by (cases "parseLineFilterStage U p"; cases "parsePipeBody U (skip U p)")
      (auto simp: parsePipelineStage_def split: if_splits)
  with 1 show ?case
    by (subst stageLoop.simps) (auto split: option.split intro!: gives_rules)
qed

lemma parseLogQuery_gives: "gives (\<lambda>q. list_all wf_stage (Pipeline q)) (parseLogQuery U p)"
  by (auto simp: parseLogQuery_def intro!: gives_rules dest: givesD [OF stageLoop_gives, rotated])

subsection \<open>Expressions\<close>

lemma operator_string: "0 < binaryPrecedence t \<Longrightarrow> TokType_String t \<in> set binary_operators"
  by (cases t) (simp_all add: binaryPrecedence_def binary_operators_def)

lemma token_operator: "token_ok p \<Longrightarrow> 0 < binaryPrecedence (curTyp p) \<Longrightarrow> curVal p \<in> set binary_operators"
  using operator_string by (auto simp: token_ok_def fixed_val_def free_text_def binaryPrecedence_def)

lemma parseVectorMatching_gives:
  assumes "token_ok p"
  shows "gives wf_matching (parseVectorMatching U p)"
proof -
  have v: "curVal q = TokType_String (curTyp q)" if "token_ok q" "\<not> free_text (curTyp q)" for q
    using that by (auto simp: token_ok_def fixed_val_def)
  have "token_ok q" if "parseLabelList U (skip U p) = Ok (ls, q)" for ls q
    using that parseLabelList_leP [of "skip U p" U]
    by (auto simp: leP_def le_def adv_def token_ok_def skip_sc scan_next_fixed scan_next_ident)
  with assms v show ?thesis
    by (auto simp: parseVectorMatching_def wf_matching_def Let_def free_text_def intro!: gives_rules)
qed

lemma token_ok_skip: "token_ok (skip U p)"
  by (simp add: token_ok_def skip_sc scan_next_fixed scan_next_ident)

lemma parseK_gives:
  "gives (\<lambda>k. if oper = VectorTopK \<or> oper = VectorBottomK then \<exists>i. 0 < i \<and> k = Some (float64_of_int i) else k = None) (parseK U oper p)"
  by (auto simp: parseK_def not_le split: sum.split intro!: gives_rules)

lemma literal_gives: "gives wf_expr (parseNumber U sign p)" "gives wf_expr (parseOpaque U p)"
  by (auto simp: parseNumber_def parseOpaque_def Let_def split_beta split: option.split sum.split prod.split intro!: gives_rules)

lemma expr_gives:
  "gives wf_expr (parseExpr U n p)"
  "gives wf_expr (parsePrimary U n p)"
  "0 < m \<Longrightarrow> token_ok p \<Longrightarrow> wf_expr lhs \<Longrightarrow> gives wf_expr (parseBinaryRHS U n lhs m p)"
  "gives wf_expr (parseVectorAggregation U n vop p)"
  "gives wf_expr (parseRangeAggregation U n rop p)"
proof (induction n arbitrary: p lhs m vop rop)
  case (Suc n)
  have primary: "wf_expr e \<and> token_ok q" if "parsePrimary U n p = Ok (e, q)" for p e q
    using that givesD [OF Suc(2)] expr_progress(2) [of p U n] by (auto simp: advP_def adv_def)
  have query: "wf_expr (ELogQuery lq)" if "parseLogQuery U p = Ok (lq, q)" for p lq q
    using givesD [OF parseLogQuery_gives that] by simp
  {
    case 1
    show ?case using primary by (auto intro!: gives_rules Suc(3))
  next
    case 2
    show ?case
      using query givesD [OF Suc(1)] Suc(4,5)
      by (auto split: option.split intro!: gives_if gives_results gives_bind literal_gives)
  next
    case 3
    have rhs: "wf_expr e' \<and> token_ok q'"
      if "parseBinaryRHS U n e k q = Ok (e', q')" "wf_expr e" "token_ok q" "0 < k" for e k q e' q'
      using that givesD [OF Suc(3) that(1)] expr_progress(3) [OF that(4), of q U n e] by (auto simp: leP_def le_def adv_def)
    have vm: "wf_matching x" if "parseVectorMatching U (skip U q) = Ok (x, q')" for x q q'
      by (rule givesD [OF parseVectorMatching_gives [OF token_ok_skip] that])
    show ?case
      using 3 token_operator [of p] primary rhs
      by (auto simp: Let_def dest: vm intro!: gives_rules Suc(3))
  next
    case 4
    show ?case using givesD [OF Suc(1)] givesD [OF parseK_gives] by (auto intro!: gives_rules)
  next
    case 5
    have arg1: "gives (\<lambda>e. is_LogQuery e \<and> wf_expr e) (bindR (parseLogQuery U q) (\<lambda>(q, p3). Ok (ELogQuery q, p3)))" for q
      using query by (auto intro!: gives_rules)
    have arg2: "gives (\<lambda>e. is_LogQuery e \<and> wf_expr e)
        (bindR (parsePrimary U n q) (\<lambda>(inner, p3). if is_LogQuery inner then Ok (inner, p3) else Err e))" for q e
      using primary by (auto intro!: gives_rules)
    have phi: "gives (\<lambda>phi. phi = None \<or> rop = RangeQuantileOverTime)
        (if rop = RangeQuantileOverTime then parseQuantileParam U q else Ok (None, q))" for q
      by (auto simp: gives_def)
    show ?case
      by (auto split: option.split intro!: gives_rules dest!: givesD [OF arg1] givesD [OF arg2] givesD [OF phi])
  }
qed (simp_all add: gives_rules)


text \<open>
  C25. Every tree that \<open>Parse\<close> returns is well typed: a range aggregation is over a log query and has
  a phi only if it is a quantile, \<^verbatim>\<open>topk\<close> and \<^verbatim>\<open>bottomk\<close> have a positive k and no
  other aggregation has one, a binary operator is one of the fifteen, a vector matching has
  its cardinality and include labels only with a grouping side, IP filters hold a valid pattern
  with \<^verbatim>\<open>|=\<close> or \<^verbatim>\<open>!=\<close>, and drop, keep and label format lists are not empty.
\<close>

theorem Parse_wf_expr:
  assumes "Parse U s = Ok e"
  shows "wf_expr e"
proof -
  obtain p where "parseExpr U (4 * length s + 8) (skip U (newParser s)) = Ok (e, p)"
    using assms by (cases "parseExpr U (4 * length s + 8) (skip U (newParser s))")
      (auto simp: Parse_def split: if_splits simp del: parseExpr.simps)
  then show ?thesis by (rule givesD [OF expr_gives(1)])
qed

theorem Parse_wf_expr_witness:
  "Parse ascii (Expr_String ascii example_expr) = Ok example_expr \<and> wf_expr example_expr"
  using parse_printed example_prints [of ascii] Parse_wf_expr [of ascii "Expr_String ascii example_expr" example_expr]
  by blast

end
