(* ===== verification/Memlimit.thy ===== *)
theory Memlimit
  imports GoNumbers
begin

text \<open>
  Memory limit and garbage collection at start-up, \<^verbatim>\<open>internal/memlimit/memlimit.go\<close>.
  The machine is a record of its environment variables and files; the state is the pair of
  settings that \<^verbatim>\<open>runtime/debug\<close> keeps, and the log.
\<close>

subsection \<open>Host and runtime\<close>

record host =
  environ :: "string \<Rightarrow> string option"
  readFile :: "string \<Rightarrow> string option"

record runtime =
  gcPercent :: int
  memoryLimit :: int
  logs :: "(string \<times> (string \<times> int) list) list"

definition Getenv :: "host \<Rightarrow> string \<Rightarrow> string" where
  "Getenv h name = (case environ h name of None \<Rightarrow> [] | Some v \<Rightarrow> v)"

text \<open>
  \<^verbatim>\<open>debug.SetMemoryLimit\<close> changes nothing for a negative argument;
  \<^verbatim>\<open>debug.SetGCPercent\<close> switches the collector off for a negative one, which is the
  setting \<open>-1\<close>. Both return the previous setting.
\<close>

definition SetMemoryLimit :: "int \<Rightarrow> runtime \<Rightarrow> int \<times> runtime" where
  "SetMemoryLimit limit rt = (memoryLimit rt, if limit < 0 then rt else rt\<lparr>memoryLimit := limit\<rparr>)"

definition int32 :: "int \<Rightarrow> int" where
  "int32 x = (x + 2 ^ 31) mod 2 ^ 32 - 2 ^ 31"

definition SetGCPercent :: "int \<Rightarrow> runtime \<Rightarrow> int \<times> runtime" where
  "SetGCPercent percent rt = (gcPercent rt, rt\<lparr>gcPercent := (if int32 percent < 0 then - 1 else int32 percent)\<rparr>)"

definition Info :: "string \<Rightarrow> (string \<times> int) list \<Rightarrow> runtime \<Rightarrow> runtime" where
  "Info msg attrs rt = rt\<lparr>logs := logs rt @ [(msg, attrs)]\<rparr>"

subsection \<open>Container limits\<close>

definition cgroupV2MemFile :: string where
  "cgroupV2MemFile = ''/sys/fs/cgroup/memory.max''"

definition cgroupV1MemFile :: string where
  "cgroupV1MemFile = ''/sys/fs/cgroup/memory/memory.limit_in_bytes''"

definition cgroupV1Unlimited :: int where
  "cgroupV1Unlimited = 2 ^ 63 - 1 - 2 ^ 20"

definition readCgroupV2 :: "host \<Rightarrow> int option" where
  "readCgroupV2 h =
     (case readFile h cgroupV2MemFile of
        None \<Rightarrow> None
      | Some data \<Rightarrow>
          let s = TrimSpace data
          in if s = ''max'' then None
             else case Atoi s of Inl _ \<Rightarrow> None | Inr v \<Rightarrow> if v \<le> 0 then None else Some v)"

definition readCgroupV1 :: "host \<Rightarrow> int option" where
  "readCgroupV1 h =
     (case readFile h cgroupV1MemFile of
        None \<Rightarrow> None
      | Some data \<Rightarrow>
          (case Atoi (TrimSpace data) of
             Inl _ \<Rightarrow> None
           | Inr v \<Rightarrow> if v \<le> 0 \<or> v \<ge> cgroupV1Unlimited then None else Some v))"

definition containerMemoryLimit :: "host \<Rightarrow> int option" where
  "containerMemoryLimit h = (case readCgroupV2 h of Some v \<Rightarrow> Some v | None \<Rightarrow> readCgroupV1 h)"

subsection \<open>Apply\<close>

definition applyGCPercent :: "host \<Rightarrow> int \<Rightarrow> runtime \<Rightarrow> runtime" where
  "applyGCPercent h percent rt =
     (if Getenv h ''GOGC'' \<noteq> [] then
        let (current, rt1) = SetGCPercent (- 1) rt
        in Info ''GOGC from environment variable'' [(''gc_percent'', current)] rt1
      else
        let (prev, rt1) = SetGCPercent percent rt
        in if prev \<noteq> percent then Info ''GOGC set'' [(''gc_percent'', percent), (''previous'', prev)] rt1 else rt1)"

definition Apply :: "host \<Rightarrow> int \<Rightarrow> int \<Rightarrow> int \<Rightarrow> runtime \<Rightarrow> runtime" where
  "Apply h explicit percent gc rt =
     (let rt1 = applyGCPercent h gc rt
      in if explicit > 0 then
           Info ''GOMEMLIMIT set from explicit flag'' [(''bytes'', explicit)] (snd (SetMemoryLimit explicit rt1))
         else if Getenv h ''GOMEMLIMIT'' \<noteq> [] then
           let (current, rt2) = SetMemoryLimit (- 1) rt1
           in Info ''GOMEMLIMIT from environment variable'' [(''bytes'', current)] rt2
         else if percent \<le> 0 \<or> percent > 100 then rt1
         else case containerMemoryLimit h of
                None \<Rightarrow> rt1
              | Some cLimit \<Rightarrow>
                  if cLimit \<le> 0 then rt1
                  else let goLimit = goDiv (int64 (cLimit * percent)) 100
                       in if goLimit \<le> 0 then rt1
                          else Info ''GOMEMLIMIT set from container memory limit''
                                 [(''container_bytes'', cLimit), (''percent'', percent), (''go_limit_bytes'', goLimit)]
                                 (snd (SetMemoryLimit goLimit rt1)))"

subsection \<open>Lemmas\<close>

lemma container_positive: "containerMemoryLimit h = Some v \<Longrightarrow> 0 < v \<and> v < 2 ^ 63"
  by (auto simp: containerMemoryLimit_def readCgroupV2_def readCgroupV1_def Atoi_def Let_def
      split: option.splits sum.splits if_splits)

lemma applyGCPercent_memory [simp]: "memoryLimit (applyGCPercent h g rt) = memoryLimit rt"
  by (simp add: applyGCPercent_def SetGCPercent_def Info_def Let_def)

lemma Apply_gcPercent: "gcPercent (Apply h e p g rt) = gcPercent (applyGCPercent h g rt)"
  by (simp add: Apply_def SetMemoryLimit_def Info_def Let_def split: option.split)

text \<open>The limit that start-up chooses, in unbounded arithmetic; \<open>None\<close> leaves the runtime's setting alone.\<close>

definition chosen_limit :: "host \<Rightarrow> int \<Rightarrow> int \<Rightarrow> int option" where
  "chosen_limit h explicit percent =
     (if explicit > 0 then Some explicit
      else if Getenv h ''GOMEMLIMIT'' = [] \<and> 0 < percent \<and> percent \<le> 100 then
        (case containerMemoryLimit h of
           None \<Rightarrow> None
         | Some v \<Rightarrow> if v * percent < 100 then None else Some (v * percent div 100))
      else None)"

lemma chosen_from_container:
  assumes "chosen_limit h explicit percent = Some l" "explicit \<le> 0"
  shows "\<exists>v. containerMemoryLimit h = Some v \<and> 0 < l \<and> l \<le> v"
proof -
  obtain v where v: "containerMemoryLimit h = Some v" "l = v * percent div 100" "100 \<le> v * percent" "0 < percent" "percent \<le> 100"
    using assms by (auto simp: chosen_limit_def split: if_splits option.splits)
  have "v * percent \<le> v * 100" using container_positive [OF v(1)] v(5) by (intro mult_left_mono) auto
  then have "v * percent div 100 \<le> v" using zdiv_mono1 [of "v * percent" "v * 100" 100] by simp
  moreover have "0 < v * percent div 100" using v(3) by (simp add: pos_imp_zdiv_pos_iff)
  ultimately show ?thesis using v by blast
qed

text \<open>
  C29. The memory limit after start-up: an explicit flag wins, even over the variable
  \<^verbatim>\<open>GOMEMLIMIT\<close>; the variable wins over the container; a limit taken from the container
  is positive and at most the container's own, provided the product with the percentage fits
  into 64 bits.
\<close>

theorem memory_limit_choice:
  assumes "\<And>v. containerMemoryLimit h = Some v \<Longrightarrow> v * percent < 2 ^ 63"
  shows "memoryLimit (Apply h explicit percent gc rt) =
      (case chosen_limit h explicit percent of None \<Rightarrow> memoryLimit rt | Some l \<Rightarrow> l) \<and>
    (explicit \<le> 0 \<longrightarrow> (\<forall>l. chosen_limit h explicit percent = Some l \<longrightarrow>
      (\<exists>v. containerMemoryLimit h = Some v \<and> 0 < l \<and> l \<le> v)))"
proof
  show "memoryLimit (Apply h explicit percent gc rt) =
      (case chosen_limit h explicit percent of None \<Rightarrow> memoryLimit rt | Some l \<Rightarrow> l)"
  proof (cases "containerMemoryLimit h")
    case None
    then show ?thesis
      by (auto simp: Apply_def chosen_limit_def SetMemoryLimit_def Info_def Let_def)
  next
    case (Some v)
    note v = container_positive [OF Some]
    have n: "0 \<le> v * percent" if "0 < percent" using that v by simp
    moreover have "int64 (v * percent) = v * percent" if "0 < percent"
      using n [OF that] assms [OF Some] by (intro int64_id) auto
    ultimately show ?thesis
      using Some v
      by (auto simp: Apply_def chosen_limit_def SetMemoryLimit_def Info_def Let_def goDiv_nonneg pos_imp_zdiv_pos_iff not_less)
  qed
  show "explicit \<le> 0 \<longrightarrow> (\<forall>l. chosen_limit h explicit percent = Some l \<longrightarrow>
      (\<exists>v. containerMemoryLimit h = Some v \<and> 0 < l \<and> l \<le> v))"
    using chosen_from_container by blast
qed

definition example_host :: host where
  "example_host =
     \<lparr>environ = [''GOGC'' \<mapsto> ''100''], readFile = [cgroupV2MemFile \<mapsto> ''268435456'' @ [CHR 0x0A]]\<rparr>"

lemma example_limit: "containerMemoryLimit example_host = Some 268435456"
  by code_simp

theorem memory_limit_choice_witness:
  "containerMemoryLimit example_host = Some 268435456 \<and> 268435456 * 90 < (2 :: int) ^ 63 \<and>
   memoryLimit (Apply example_host 0 90 200 \<lparr>gcPercent = 100, memoryLimit = 2 ^ 63 - 1, logs = []\<rparr>) = 241591910"
proof -
  have "chosen_limit example_host 0 90 = Some 241591910"
    by (simp add: chosen_limit_def example_limit) (simp add: Getenv_def example_host_def)
  then show ?thesis
    using memory_limit_choice [of example_host 90 0 200 "\<lparr>gcPercent = 100, memoryLimit = 2 ^ 63 - 1, logs = []\<rparr>"]
    by (simp add: example_limit)
qed

text \<open>
  With the variable \<^verbatim>\<open>GOGC\<close> set, start-up switches the garbage collector off, whatever
  the variable's value: the call meant to query the setting passes a negative percentage, and the
  log line reports the setting that was there before.
\<close>

theorem gogc_disables_collector:
  assumes "Getenv h ''GOGC'' \<noteq> []"
  shows "gcPercent (Apply h explicit percent gc rt) = - 1"
  using assms by (simp add: Apply_gcPercent applyGCPercent_def SetGCPercent_def Info_def int32_def Let_def)

theorem gogc_disables_collector_witness:
  "Getenv example_host ''GOGC'' = ''100'' \<and>
   gcPercent (Apply example_host 0 90 200 \<lparr>gcPercent = 100, memoryLimit = 2 ^ 63 - 1, logs = []\<rparr>) = - 1"
  using gogc_disables_collector [of example_host 0 90 200 "\<lparr>gcPercent = 100, memoryLimit = 2 ^ 63 - 1, logs = []\<rparr>"]
  by (simp add: Getenv_def example_host_def)

end
