(* ===== verification/Budgets.thy ===== *)
theory Budgets
  imports GoStrings
begin

text \<open>
  Budgets that concurrent requests share: the sample slots of proxy-side scans
  (\<^verbatim>\<open>internal/proxy/manual_scan_budget.go\<close>), the permits for backend requests
  (\<^verbatim>\<open>backend_budget.go\<close>) and the work limits of a binary expression
  (\<^verbatim>\<open>binary_budget.go\<close>).
\<close>

subsection \<open>Sample slots\<close>

definition defaultManualScanSampleBudget :: int where
  "defaultManualScanSampleBudget = 2000000"

definition manualScanReservationChunk :: int where
  "manualScanReservationChunk = 4096"

text \<open>
  \<^verbatim>\<open>manualScanBudget\<close> is its counter \<^verbatim>\<open>remaining\<close>. A scan is in one of three places: outside
  \<open>account\<close>, at the top of the loop of \<open>reserve\<close>, or between \<open>Load\<close> and \<open>CompareAndSwap\<close>, with the
  number that it loaded.
\<close>

datatype scan_pc = Outside | Reserving | Loaded int

record manualScanReservation =
  held :: int
  used :: int
  pc :: scan_pc

definition newManualScanBudget :: "int \<Rightarrow> int" where
  "newManualScanBudget tot = (if tot \<le> 0 then defaultManualScanSampleBudget else tot)"

definition newManualScanReservation :: manualScanReservation where
  "newManualScanReservation = \<lparr>held = 0, used = 0, pc = Outside\<rparr>"

text \<open>One turn of the loop of \<open>reserve\<close>: refused, taken, or lost to another scan.\<close>

datatype reserve_result = Refused | Taken | Retry

definition reserve_turn :: "int \<Rightarrow> int \<Rightarrow> int \<Rightarrow> reserve_result \<times> int" where
  "reserve_turn left remaining n =
     (if left < n then (Refused, remaining)
      else if remaining = left then (Taken, left - n) else (Retry, remaining))"

definition release_slots :: "int \<Rightarrow> int \<Rightarrow> int" where
  "release_slots remaining n = (if n > 0 then remaining + n else remaining)"

text \<open>The part of \<open>account\<close> before \<open>reserve\<close>, and after it.\<close>

definition account_begin :: "manualScanReservation \<Rightarrow> manualScanReservation" where
  "account_begin r =
     (let r1 = r\<lparr>used := used r + 1\<rparr> in if used r1 \<le> held r1 then r1 else r1\<lparr>pc := Reserving\<rparr>)"

definition account_end :: "reserve_result \<Rightarrow> manualScanReservation \<Rightarrow> manualScanReservation" where
  "account_end t r =
     (case t of
        Refused \<Rightarrow> r\<lparr>used := used r - 1, pc := Outside\<rparr>
      | Taken \<Rightarrow> r\<lparr>held := held r + manualScanReservationChunk, pc := Outside\<rparr>
      | Retry \<Rightarrow> r\<lparr>pc := Reserving\<rparr>)"

definition release_all :: "manualScanReservation \<Rightarrow> manualScanReservation" where
  "release_all r = r\<lparr>held := 0, used := 0\<rparr>"

text \<open>The steps of the scans, in any interleaving.\<close>

inductive scan_step :: "int \<times> manualScanReservation list \<Rightarrow> int \<times> manualScanReservation list \<Rightarrow> bool" where
  start: "scan_step (b, rs) (b, rs @ [newManualScanReservation])"
| account: "i < length rs \<Longrightarrow> pc (rs ! i) = Outside \<Longrightarrow> scan_step (b, rs) (b, rs[i := account_begin (rs ! i)])"
| load: "i < length rs \<Longrightarrow> pc (rs ! i) = Reserving \<Longrightarrow> scan_step (b, rs) (b, rs[i := (rs ! i)\<lparr>pc := Loaded b\<rparr>])"
| swap: "i < length rs \<Longrightarrow> pc (rs ! i) = Loaded left \<Longrightarrow> reserve_turn left b manualScanReservationChunk = (t, b') \<Longrightarrow>
    scan_step (b, rs) (b', rs[i := account_end t (rs ! i)])"
| release: "i < length rs \<Longrightarrow> pc (rs ! i) = Outside \<Longrightarrow>
    scan_step (b, rs) (release_slots b (held (rs ! i)), rs[i := release_all (rs ! i)])"

inductive scan_reach :: "int \<Rightarrow> int \<times> manualScanReservation list \<Rightarrow> bool" for tot where
  init: "scan_reach tot (newManualScanBudget tot, [])"
| step: "scan_reach tot s \<Longrightarrow> scan_step s s' \<Longrightarrow> scan_reach tot s'"

definition retained :: "manualScanReservation \<Rightarrow> int" where
  "retained r = (if pc r = Outside then used r else used r - 1)"

definition wf_reservation :: "manualScanReservation \<Rightarrow> bool" where
  "wf_reservation r \<longleftrightarrow> 0 \<le> retained r \<and> retained r \<le> held r"

definition scan_inv :: "int \<Rightarrow> int \<times> manualScanReservation list \<Rightarrow> bool" where
  "scan_inv tot s \<longleftrightarrow>
     0 \<le> fst s \<and> fst s + sum_list (map held (snd s)) = newManualScanBudget tot \<and> list_all wf_reservation (snd s)"

lemma sum_list_map_update:
  "i < length xs \<Longrightarrow> sum_list (map f (xs[i := y])) = sum_list (map f xs) - f (xs ! i) + (f y :: int)"
  by (induction xs arbitrary: i) (auto split: nat.split)

lemma list_all_update: "list_all P xs \<Longrightarrow> P y \<Longrightarrow> list_all P (xs[i := y])"
  by (induction xs arbitrary: i) (auto split: nat.split)

lemma scan_inv_update:
  assumes "scan_inv tot (b, rs)" "i < length rs" "wf_reservation r" "b' + held r = b + held (rs ! i)" "0 \<le> b'"
  shows "scan_inv tot (b', rs[i := r])"
  using assms by (auto simp: scan_inv_def sum_list_map_update list_all_update)

lemma scan_step_inv: "scan_step s s' \<Longrightarrow> scan_inv tot s \<Longrightarrow> scan_inv tot s'"
proof (induction rule: scan_step.induct)
  case (start b rs)
  then show ?case by (simp add: scan_inv_def newManualScanReservation_def wf_reservation_def retained_def)
next
  case (account i rs b)
  then have "wf_reservation (rs ! i)" by (auto simp: scan_inv_def list_all_length)
  with account show ?case
    by (intro scan_inv_update [of _ b]) (auto simp: scan_inv_def account_begin_def wf_reservation_def retained_def Let_def)
next
  case (load i rs b)
  then have "wf_reservation (rs ! i)" by (auto simp: scan_inv_def list_all_length)
  with load show ?case
    by (intro scan_inv_update [of _ b]) (auto simp: scan_inv_def wf_reservation_def retained_def)
next
  case (swap i rs left b t b')
  then have "wf_reservation (rs ! i)" by (auto simp: scan_inv_def list_all_length)
  with swap show ?case
    by (intro scan_inv_update [of _ b])
      (auto simp: scan_inv_def wf_reservation_def retained_def account_end_def reserve_turn_def manualScanReservationChunk_def
        split: if_splits)
next
  case (release i rs b)
  then have "wf_reservation (rs ! i)" by (auto simp: scan_inv_def list_all_length)
  with release show ?case
    by (intro scan_inv_update [of _ b])
      (auto simp: scan_inv_def wf_reservation_def retained_def release_all_def release_slots_def)
qed

lemma scan_reach_inv: "scan_reach tot s \<Longrightarrow> scan_inv tot s"
proof (induction rule: scan_reach.induct)
  case init
  show ?case by (simp add: scan_inv_def newManualScanBudget_def defaultManualScanSampleBudget_def)
qed (rule scan_step_inv)

lemma sum_retained_le: "list_all wf_reservation rs \<Longrightarrow> sum_list (map retained rs) \<le> sum_list (map held rs)"
  by (induction rs) (auto simp: wf_reservation_def)


lemma example_scan: "scan_reach 10000 (5904, [\<lparr>held = 4096, used = 1, pc = Outside\<rparr>])"
proof -
  have "scan_step (10000, []) (10000, [newManualScanReservation])"
    using scan_step.start [of 10000 "[]"] by simp
  moreover have "scan_step (10000, [newManualScanReservation]) (10000, [\<lparr>held = 0, used = 1, pc = Reserving\<rparr>])"
    using scan_step.account [of 0 "[newManualScanReservation]" 10000]
    by (simp add: newManualScanReservation_def account_begin_def)
  moreover have "scan_step (10000, [\<lparr>held = 0, used = 1, pc = Reserving\<rparr>]) (10000, [\<lparr>held = 0, used = 1, pc = Loaded 10000\<rparr>])"
    using scan_step.load [of 0 "[\<lparr>held = 0, used = 1, pc = Reserving\<rparr>]" 10000] by simp
  moreover have "scan_step (10000, [\<lparr>held = 0, used = 1, pc = Loaded 10000\<rparr>]) (5904, [\<lparr>held = 4096, used = 1, pc = Outside\<rparr>])"
    using scan_step.swap [of 0 "[\<lparr>held = 0, used = 1, pc = Loaded 10000\<rparr>]" 10000 10000 Taken 5904]
    by (simp add: reserve_turn_def account_end_def manualScanReservationChunk_def)
  moreover have "scan_reach 10000 (10000, [])"
    using scan_reach.init [of 10000] by (simp add: newManualScanBudget_def)
  ultimately show ?thesis by (meson scan_reach.step)
qed



subsection \<open>Permits for backend requests\<close>

text \<open>
  The channel \<^verbatim>\<open>backendBudget\<close> is the number of its elements. A request waits for a permit, runs
  \<^verbatim>\<open>client.Do\<close>, or has a response body; the flag of a body is the state of its
  \<^verbatim>\<open>sync.Once\<close>.
\<close>

datatype backend_request = Waiting | Doing | Body bool | Failed

definition newBackendBudget :: "int \<Rightarrow> nat option" where
  "newBackendBudget limit = (if limit \<le> 0 then None else Some (nat limit))"

text \<open>\<^verbatim>\<open>release\<close>: the first call receives from the channel, later ones do nothing.\<close>

definition once_release :: "bool \<Rightarrow> nat \<Rightarrow> nat" where
  "once_release released n = (if released then n else n - 1)"

inductive backend_step :: "nat \<Rightarrow> nat \<times> backend_request list \<Rightarrow> nat \<times> backend_request list \<Rightarrow> bool" for limit where
  arrive: "backend_step limit (n, qs) (n, qs @ [Waiting])"
| acquire: "i < length qs \<Longrightarrow> qs ! i = Waiting \<Longrightarrow> n < limit \<Longrightarrow> backend_step limit (n, qs) (n + 1, qs[i := Doing])"
| cancelled: "i < length qs \<Longrightarrow> qs ! i = Waiting \<Longrightarrow> backend_step limit (n, qs) (n, qs[i := Failed])"
| do_error: "i < length qs \<Longrightarrow> qs ! i = Doing \<Longrightarrow> backend_step limit (n, qs) (once_release False n, qs[i := Failed])"
| do_ok: "i < length qs \<Longrightarrow> qs ! i = Doing \<Longrightarrow> backend_step limit (n, qs) (n, qs[i := Body False])"
| read_ok: "i < length qs \<Longrightarrow> qs ! i = Body r \<Longrightarrow> backend_step limit (n, qs) (n, qs)"
| read_error: "i < length qs \<Longrightarrow> qs ! i = Body r \<Longrightarrow> backend_step limit (n, qs) (once_release r n, qs[i := Body True])"
| close: "i < length qs \<Longrightarrow> qs ! i = Body r \<Longrightarrow> backend_step limit (n, qs) (once_release r n, qs[i := Body True])"

inductive backend_reach :: "nat \<Rightarrow> nat \<times> backend_request list \<Rightarrow> bool" for limit where
  init: "backend_reach limit (0, [])"
| step: "backend_reach limit s \<Longrightarrow> backend_step limit s s' \<Longrightarrow> backend_reach limit s'"

fun holds :: "backend_request \<Rightarrow> nat" where
  "holds Doing = 1"
| "holds (Body released) = (if released then 0 else 1)"
| "holds _ = 0"

lemma holders_update:
  "i < length xs \<Longrightarrow> sum_list (map holds (xs[i := y])) + holds (xs ! i) = sum_list (map holds xs) + holds y"
  by (induction xs arbitrary: i) (auto split: nat.split)

lemma backend_step_inv:
  "backend_step limit s s' \<Longrightarrow> fst s = sum_list (map holds (snd s)) \<and> fst s \<le> limit \<Longrightarrow>
     fst s' = sum_list (map holds (snd s')) \<and> fst s' \<le> limit"
proof (induction rule: backend_step.induct)
  case (acquire i qs n)
  with holders_update [of i qs Doing] show ?case by simp
next
  case (cancelled i qs n)
  with holders_update [of i qs Failed] show ?case by simp
next
  case (do_error i qs n)
  with holders_update [of i qs Failed] show ?case by (auto simp: once_release_def)
next
  case (do_ok i qs n)
  with holders_update [of i qs "Body False"] show ?case by simp
next
  case (read_error i qs r n)
  with holders_update [of i qs "Body True"] show ?case by (auto simp: once_release_def)
next
  case (close i qs r n)
  with holders_update [of i qs "Body True"] show ?case by (auto simp: once_release_def)
qed simp_all

lemma holder_counts: "i < length qs \<Longrightarrow> holds (qs ! i) \<le> sum_list (map holds qs)"
  by (simp add: member_le_sum_list)

text \<open>
  C27. At most \<open>limit\<close> requests are with the backend at any time, from the start of the request to the end of
  its body, and a permit is given back once: whenever a release is due the channel is not empty, so it
  never blocks and never takes another request's permit.
\<close>

theorem backend_permits:
  assumes "backend_reach limit (n, qs)"
  shows "sum_list (map holds qs) \<le> limit \<and> n = sum_list (map holds qs) \<and>
    (\<forall>i < length qs. holds (qs ! i) = 1 \<longrightarrow> 0 < n)"
proof -
  have "fst s = sum_list (map holds (snd s)) \<and> fst s \<le> limit" if "backend_reach limit s" for s
    using that by (induction rule: backend_reach.induct) (simp, rule backend_step_inv)
  from this [OF assms] holder_counts [of _ qs] show ?thesis by fastforce
qed

lemma example_backend: "backend_reach 1 (1, [Doing, Waiting])"
proof -
  have "backend_step 1 (0, []) (0, [Waiting])" using backend_step.arrive [of 1 0 "[]"] by simp
  moreover have "backend_step 1 (0, [Waiting]) (0, [Waiting, Waiting])" using backend_step.arrive [of 1 0 "[Waiting]"] by simp
  moreover have "backend_step 1 (0, [Waiting, Waiting]) (1, [Doing, Waiting])"
    using backend_step.acquire [of 0 "[Waiting, Waiting]" 0 1] by simp
  ultimately show ?thesis by (meson backend_reach.intros)
qed

theorem backend_permits_witness:
  "backend_reach 1 (1, [Doing, Waiting]) \<and> sum_list (map holds [Doing, Waiting]) \<le> 1"
  using backend_permits [OF example_backend] example_backend by blast

subsection \<open>Work limits of a binary expression\<close>

text \<open>
  \<^verbatim>\<open>ctx.Err()\<close> is asked several times; \<open>ctx k\<close> is the answer to call number \<open>k\<close>. The loop carries that
  number, the position, the two flags and the arrays that are left.
\<close>

definition maxBinaryExecutionBytes :: int where
  "maxBinaryExecutionBytes = 256 * 2 ^ 20"

definition maxBinaryExecutionArrays :: int where
  "maxBinaryExecutionArrays = 2000000"

definition maxBufferedBackendBodyBytes :: int where
  "maxBufferedBackendBodyBytes = 64 * 2 ^ 20"

record binaryExecutionBudget =
  bytes_left :: int
  arrays_left :: int
  outputLabels :: int
  outputSamples :: int

record binaryEvaluationState =
  depth :: int
  remaining_nodes :: "int option"
  exec_budget :: "binaryExecutionBudget option"

definition binaryEvaluationContext :: "binaryEvaluationState \<Rightarrow> binaryEvaluationState" where
  "binaryEvaluationContext st =
     (let st1 = (if remaining_nodes st = None then st\<lparr>remaining_nodes := Some 1024\<rparr> else st)
      in if exec_budget st1 = None
         then st1\<lparr>exec_budget := Some \<lparr>bytes_left = maxBinaryExecutionBytes, arrays_left = maxBinaryExecutionArrays,
                outputLabels = maxBufferedBackendBodyBytes, outputSamples = 1000000\<rparr>\<rparr>
         else st1)"

definition checkBinaryOutputSample ::
  "(nat \<Rightarrow> string option) \<Rightarrow> binaryExecutionBudget \<Rightarrow> string option \<times> binaryExecutionBudget" where
  "checkBinaryOutputSample ctx b =
     (case ctx 0 of
        Some e \<Rightarrow> (Some e, b)
      | None \<Rightarrow>
          if outputSamples b \<le> 0 then (Some ''binary expression output sample budget exceeded'', b)
          else (None, b\<lparr>outputSamples := outputSamples b - 1\<rparr>))"

fun decodeLoop ::
  "(nat \<Rightarrow> string option) \<Rightarrow> nat \<Rightarrow> nat \<Rightarrow> bool \<Rightarrow> bool \<Rightarrow> int \<Rightarrow> string \<Rightarrow> string option \<times> int" where
  "decodeLoop ctx calls i quoted escaped arrays [] = (ctx calls, arrays)"
| "decodeLoop ctx calls i quoted escaped arrays (c # body) =
     (if i mod 4096 = 0 \<and> ctx calls \<noteq> None then (ctx calls, arrays)
      else let calls1 = (if i mod 4096 = 0 then calls + 1 else calls)
           in if quoted then
                (if escaped then decodeLoop ctx calls1 (i + 1) True False arrays body
                 else if c = CHR 0x5C then decodeLoop ctx calls1 (i + 1) True True arrays body
                 else if c = CHR 0x22 then decodeLoop ctx calls1 (i + 1) False False arrays body
                 else decodeLoop ctx calls1 (i + 1) True False arrays body)
              else if c = CHR 0x22 then decodeLoop ctx calls1 (i + 1) True escaped arrays body
              else if c = CHR ''['' then
                (if arrays \<le> 0 then (Some ''binary expression sample/series budget exceeded'', arrays)
                 else decodeLoop ctx calls1 (i + 1) False escaped (arrays - 1) body)
              else decodeLoop ctx calls1 (i + 1) False escaped arrays body)"

definition checkBinaryDecodeBudget ::
  "(nat \<Rightarrow> string option) \<Rightarrow> binaryExecutionBudget option \<Rightarrow> string \<Rightarrow> string option \<times> binaryExecutionBudget option" where
  "checkBinaryDecodeBudget ctx bo body =
     (case ctx 0 of
        Some e \<Rightarrow> (Some e, bo)
      | None \<Rightarrow>
          if int (length body) > maxBufferedBackendBodyBytes
          then (Some ''binary operand exceeds response byte limit'', bo)
          else case bo of
                 None \<Rightarrow> (fst (decodeLoop ctx 1 0 False False maxBinaryExecutionArrays body), None)
               | Some b \<Rightarrow>
                   let (e, n) = decodeLoop ctx 1 0 False False (arrays_left b) body
                   in (e, Some (b\<lparr>arrays_left := n\<rparr>)))"

text \<open>A JSON document and its text, as the reference for the count of arrays.\<close>

datatype json =
  JNull | JBool bool | JNum string | JStr string | JArr "json list" | JObj "(string \<times> json) list"

definition hex4 :: "char \<Rightarrow> string" where
  "hex4 c = [CHR 0x5C] @ ''u00'' @ [digit_char (of_char c div 16), (if (of_char c mod 16 :: nat) < 10 then digit_char (of_char c mod 16)
     else char_of (87 + of_char c mod 16 :: nat))]"

definition json_char :: "char \<Rightarrow> string" where
  "json_char c =
     (if c = CHR 0x22 \<or> c = CHR 0x5C then [CHR 0x5C, c] else if (of_char c :: nat) < 32 then hex4 c else [c])"

definition json_string :: "string \<Rightarrow> string" where
  "json_string s = CHR 0x22 # concat (map json_char s) @ [CHR 0x22]"

fun json_text :: "json \<Rightarrow> string" where
  "json_text JNull = ''null''"
| "json_text (JBool b) = (if b then ''true'' else ''false'')"
| "json_text (JNum n) = n"
| "json_text (JStr s) = json_string s"
| "json_text (JArr js) = ''['' @ Join (map json_text js) '','' @ '']''"
| "json_text (JObj kvs) = ''{'' @ Join (map (\<lambda>kv. json_string (fst kv) @ '':'' @ json_text (snd kv)) kvs) '','' @ ''}''"

fun json_arrays :: "json \<Rightarrow> nat" where
  "json_arrays (JArr js) = 1 + sum_list (map json_arrays js)"
| "json_arrays (JObj kvs) = sum_list (map (\<lambda>kv. json_arrays (snd kv)) kvs)"
| "json_arrays _ = 0"

text \<open>The texts of numbers have neither quotes nor brackets.\<close>

fun json_numbers :: "json \<Rightarrow> bool" where
  "json_numbers (JNum n) = (CHR 0x22 \<notin> set n \<and> CHR ''['' \<notin> set n)"
| "json_numbers (JArr js) = list_all json_numbers js"
| "json_numbers (JObj kvs) = list_all (\<lambda>kv. json_numbers (snd kv)) kvs"
| "json_numbers _ = True"

text \<open>What the loop does to a stretch of text: brackets outside strings, and the flag behind it.\<close>

fun brackets :: "bool \<Rightarrow> bool \<Rightarrow> string \<Rightarrow> nat" where
  "brackets q e [] = 0"
| "brackets q e (c # s) =
     (if q then brackets (e \<or> c \<noteq> CHR 0x22) (\<not> e \<and> c = CHR 0x5C) s
      else if c = CHR 0x22 then brackets True False s
      else (if c = CHR ''['' then 1 else 0) + brackets False False s)"

lemma decodeLoop_brackets:
  assumes "q \<or> \<not> e" "0 \<le> a"
  shows "decodeLoop (\<lambda>_. None) k i q e a s =
    (if int (brackets q e s) \<le> a then (None, a - int (brackets q e s))
     else (Some ''binary expression sample/series budget exceeded'', 0))"
  using assms
proof (induction s arbitrary: k i q e a)
  case (Cons c s)
  have split: "(int (1 + m) \<le> a) = (int m \<le> a - 1)" "a - int (1 + m) = a - 1 - int m" for m by auto
  show ?case
    using Cons by (cases q; cases e; cases "c = CHR 0x22"; cases "c = CHR ''[''"; cases "a \<le> 0") (simp_all add: Let_def split)
qed simp

definition spans :: "string \<Rightarrow> nat \<Rightarrow> bool" where
  "spans s n \<longleftrightarrow> (\<forall>rest. brackets False False (s @ rest) = n + brackets False False rest)"

lemma spans_append: "spans s m \<Longrightarrow> spans t n \<Longrightarrow> spans (s @ t) (m + n)"
  by (simp add: spans_def)

lemma spans_plain: "CHR 0x22 \<notin> set s \<Longrightarrow> CHR ''['' \<notin> set s \<Longrightarrow> spans s 0"
proof -
  assume "CHR 0x22 \<notin> set s" "CHR ''['' \<notin> set s"
  then have "brackets False False (s @ rest) = brackets False False rest" for rest by (induction s) auto
  then show ?thesis by (simp add: spans_def)
qed

lemma hex_digits:
  "n < 10 \<Longrightarrow> digit_char n \<noteq> CHR 0x5C \<and> digit_char n \<noteq> CHR 0x22"
  "10 \<le> n \<Longrightarrow> n < 16 \<Longrightarrow> char_of (87 + n :: nat) \<noteq> CHR 0x5C \<and> char_of (87 + n) \<noteq> CHR 0x22"
proof -
  have d: "char_of m \<noteq> CHR 0x5C \<and> char_of m \<noteq> CHR 0x22" if "m < 256" "m \<noteq> 92" "m \<noteq> 34" for m :: nat
  proof -
    have "(of_char (char_of m) :: nat) = m" using that(1) by simp
    moreover have "(of_char (CHR 0x5C) :: nat) = 92" "(of_char (CHR 0x22) :: nat) = 34" by simp_all
    ultimately show ?thesis using that(2,3) by metis
  qed
  show "n < 10 \<Longrightarrow> digit_char n \<noteq> CHR 0x5C \<and> digit_char n \<noteq> CHR 0x22"
    using d [of "48 + n"] by (simp add: digit_char_def)
  show "10 \<le> n \<Longrightarrow> n < 16 \<Longrightarrow> char_of (87 + n :: nat) \<noteq> CHR 0x5C \<and> char_of (87 + n) \<noteq> CHR 0x22"
    using d [of "87 + n"] by simp
qed

lemma json_char_quoted: "brackets True False (json_char c @ rest) = brackets True False rest"
proof (cases "c = CHR 0x22 \<or> c = CHR 0x5C \<or> \<not> (of_char c :: nat) < 32")
  case True
  then show ?thesis by (auto simp: json_char_def)
next
  case False
  then have "(of_char c :: nat) div 16 < 10" by (auto simp: less_mult_imp_div_less)
  with False hex_digits(1) [of "of_char c div 16"] hex_digits(1) [of "of_char c mod 16"] hex_digits(2) [of "of_char c mod 16"]
  show ?thesis by (simp add: json_char_def hex4_def)
qed

lemma spans_string: "spans (json_string s) 0"
proof -
  have "brackets True False (concat (map json_char s) @ CHR 0x22 # rest) = brackets False False rest" for rest
    by (induction s) (auto simp: json_char_quoted)
  then show ?thesis by (simp add: spans_def json_string_def)
qed

lemma spans_join: "list_all2 spans xs ns \<Longrightarrow> spans (Join xs '','') (sum_list ns)"
proof (induction xs ns rule: list_all2_induct)
  case Nil
  then show ?case by (simp add: spans_def)
next
  case (Cons x xs n ns)
  then show ?case by (cases xs) (auto simp: spans_def)
qed

lemma spans_text: "json_numbers j \<Longrightarrow> spans (json_text j) (json_arrays j)"
proof (induction j)
  case (JArr js)
  then have "spans (Join (map json_text js) '','') (sum_list (map json_arrays js))"
    by (intro spans_join) (auto simp: list_all2_map1 list_all2_map2 list_all_iff intro!: list.rel_refl_strong)
  then show ?case by (simp add: spans_def)
next
  case (JObj kvs)
  have "spans (json_text (snd kv)) (json_arrays (snd kv))" if "kv \<in> set kvs" for kv
  proof (rule JObj.IH [OF that])
    show "snd kv \<in> Basic_BNFs.snds kv" by (simp add: snds.simps)
    show "json_numbers (snd kv)" using that JObj.prems by (auto simp: list_all_iff)
  qed
  then have "spans (json_string (fst kv) @ '':'' @ json_text (snd kv)) (0 + (0 + json_arrays (snd kv)))" if "kv \<in> set kvs" for kv
    using that by (intro spans_append spans_string spans_plain) auto
  then have "spans (Join (map (\<lambda>kv. json_string (fst kv) @ '':'' @ json_text (snd kv)) kvs) '','')
      (sum_list (map (\<lambda>kv. json_arrays (snd kv)) kvs))"
    by (intro spans_join) (auto simp: list_all2_map1 list_all2_map2 intro!: list.rel_refl_strong)
  then show ?case by (simp add: spans_def)
next
  case (JBool b)
  show ?case by (cases b) (simp_all add: spans_plain)
qed (simp_all add: spans_plain spans_string)

text \<open>
  C28. The decoder's budget is charged with the number of arrays of the document, brackets in labels and values
  left out: a JSON text of at most 64 MiB is admitted exactly when its arrays fit into the budget.
\<close>

theorem decode_budget_counts_arrays:
  assumes "json_numbers j" "int (length (json_text j)) \<le> maxBufferedBackendBodyBytes" "0 \<le> arrays_left b"
  shows "checkBinaryDecodeBudget (\<lambda>_. None) (Some b) (json_text j) =
    (if int (json_arrays j) \<le> arrays_left b then (None, Some (b\<lparr>arrays_left := arrays_left b - int (json_arrays j)\<rparr>))
     else (Some ''binary expression sample/series budget exceeded'', Some (b\<lparr>arrays_left := 0\<rparr>)))"
proof -
  have "brackets False False (json_text j @ []) = json_arrays j"
    using spans_text [OF assms(1)] unfolding spans_def by (metis add.right_neutral brackets.simps(1))
  then show ?thesis
    using assms(2,3) by (simp add: checkBinaryDecodeBudget_def decodeLoop_brackets)
qed

theorem decode_budget_counts_arrays_witness:
  "let j = JArr [JStr ''[['', JArr [JNum ''1'']]; b = \<lparr>bytes_left = 0, arrays_left = 5, outputLabels = 0, outputSamples = 0\<rparr>
   in json_numbers j \<and> int (length (json_text j)) \<le> maxBufferedBackendBodyBytes \<and> 0 \<le> arrays_left b \<and>
      checkBinaryDecodeBudget (\<lambda>_. None) (Some b) (json_text j) = (None, Some (b\<lparr>arrays_left := 3\<rparr>))"
  using decode_budget_counts_arrays [of "JArr [JStr ''[['', JArr [JNum ''1'']]"
      "\<lparr>bytes_left = 0, arrays_left = 5, outputLabels = 0, outputSamples = 0\<rparr>"]
  by (simp add: Let_def maxBufferedBackendBodyBytes_def json_string_def json_char_def)

end
