(* ===== verification/TieredCache.thy ===== *)
theory TieredCache
  imports LruCache DiskCache PeerCache GoNumbers
begin

text \<open>
  The three tiers as one cache, the operations of \<^verbatim>\<open>internal/cache/cache.go\<close> that go beyond the
  memory tier, and the side of \<^verbatim>\<open>internal/cache/peer.go\<close> that serves other replicas.

  \<^item> \<open>l1\<close> is the memory tier, \<open>l2\<close> and \<open>l3\<close> are the attached disk and peer tiers, if any.
  \<^item> What an operation starts in the background is part of its result: the deletion of an expired
    entry on disk, and the push of a value to its owner.
  \<^item> The arguments \<open>B\<close>, \<open>Z\<close> and \<open>C\<close> are the database, the compression on disk and the codecs of the
    peers; \<open>ticks\<close> bounds the sweep of a flush; \<open>reply\<close> is the owner's answer, should it be asked.
\<close>

record 'd tiered =
  l1 :: cache
  l2 :: "'d diskCache option"
  l3 :: "peerCache option"

datatype background = DeleteExpired string | PushToOwner push

definition DiskMinTTL :: "'d tiered \<Rightarrow> duration" where
  "DiskMinTTL c = (case l2 c of Some dc \<Rightarrow> dc_minTTL dc | None \<Rightarrow> 0)"

definition SetL2 :: "'d tiered \<Rightarrow> 'd diskCache option \<Rightarrow> 'd tiered" where
  "SetL2 c dc = (if c_disabled (l1 c) then c else c\<lparr>l2 := dc\<rparr>)"

definition SetL3 :: "'d tiered \<Rightarrow> peerCache option \<Rightarrow> 'd tiered" where
  "SetL3 c pc =
     (if c_disabled (l1 c) then c
      else let on = (case pc of Some p \<Rightarrow> readAheadEnabled p | None \<Rightarrow> False)
           in c\<lparr>l3 := pc, l1 := (l1 c)\<lparr>hotOn := on, hot := (if on then hot (l1 c) else [])\<rparr>\<rparr>)"

subsection \<open>Writes\<close>

definition WriteThroughEnabled :: "peerCache option \<Rightarrow> bool" where
  "WriteThroughEnabled pc = (case pc of Some p \<Rightarrow> writeThrough p | None \<Rightarrow> False)"

definition setWithTTL ::
  "'d bolt \<Rightarrow> gzip \<Rightarrow> nat \<Rightarrow> 'd tiered \<Rightarrow> string \<Rightarrow> bytes \<Rightarrow> duration \<Rightarrow> bool \<Rightarrow> time
     \<Rightarrow> 'd tiered \<times> background list" where
  "setWithTTL B Z ticks c key v ttl0 propagateL3 now =
     (let size = int (length v)
      in if size > goDiv (maxBytes (l1 c)) 10 then (c, [])
         else let ownerLocal = (case l3 c of Some p \<Rightarrow> IsOwner p key | None \<Rightarrow> True);
                  wt = WriteThroughEnabled (l3 c);
                  ttl = (if wt \<and> \<not> ownerLocal \<and> ttl0 > nonOwnerShadowMaxTTL then nonOwnerShadowMaxTTL else ttl0);
                  c1 = c\<lparr>l1 := storeLocalLocked (l1 c) key v ttl size now\<rparr>;
                  c2 = (case l2 c of
                          Some dc \<Rightarrow> if \<not> skipL2WriteForKey key \<and> \<not> (wt \<and> \<not> ownerLocal)
                                     then c1\<lparr>l2 := Some (disk_Set B Z dc key v ttl now ticks)\<rparr> else c1
                        | None \<Rightarrow> c1)
              in case l3 c of
                   Some p \<Rightarrow> if propagateL3
                             then let (push, p1) = peer_SetWithTTL p key v ttl now
                                  in (c2\<lparr>l3 := Some p1\<rparr>, case push of Some x \<Rightarrow> [PushToOwner x] | None \<Rightarrow> [])
                             else (c2, [])
                 | None \<Rightarrow> (c2, []))"

definition SetWithTTL ::
  "'d bolt \<Rightarrow> gzip \<Rightarrow> nat \<Rightarrow> 'd tiered \<Rightarrow> string \<Rightarrow> bytes \<Rightarrow> duration \<Rightarrow> time \<Rightarrow> 'd tiered \<times> background list" where
  "SetWithTTL B Z ticks c key v ttl now =
     (if c_disabled (l1 c) then (c, []) else setWithTTL B Z ticks c key v ttl True now)"

definition tiered_Set ::
  "'d bolt \<Rightarrow> gzip \<Rightarrow> nat \<Rightarrow> 'd tiered \<Rightarrow> string \<Rightarrow> bytes \<Rightarrow> time \<Rightarrow> 'd tiered \<times> background list" where
  "tiered_Set B Z ticks c key v now =
     (if c_disabled (l1 c) then (c, []) else SetWithTTL B Z ticks c key v (defaultTTL (l1 c)) now)"

definition SetShadowWithTTL ::
  "'d bolt \<Rightarrow> gzip \<Rightarrow> nat \<Rightarrow> 'd tiered \<Rightarrow> string \<Rightarrow> bytes \<Rightarrow> duration \<Rightarrow> time \<Rightarrow> 'd tiered \<times> background list" where
  "SetShadowWithTTL B Z ticks c key v ttl now =
     (if c_disabled (l1 c) then (c, []) else setWithTTL B Z ticks c key v ttl False now)"

definition SetLocalAndDiskWithTTL ::
  "'d bolt \<Rightarrow> gzip \<Rightarrow> nat \<Rightarrow> 'd tiered \<Rightarrow> string \<Rightarrow> bytes \<Rightarrow> duration \<Rightarrow> time \<Rightarrow> 'd tiered" where
  "SetLocalAndDiskWithTTL B Z ticks c key v ttl now =
     (if c_disabled (l1 c) then c
      else let size = int (length v)
           in if size > goDiv (maxBytes (l1 c)) 10 then c
              else let c1 = c\<lparr>l1 := storeLocalLocked (l1 c) key v ttl size now\<rparr>
                   in case l2 c of
                        Some dc \<Rightarrow> if \<not> skipL2WriteForKey key
                                   then c1\<lparr>l2 := Some (disk_Set B Z dc key v ttl now ticks)\<rparr> else c1
                      | None \<Rightarrow> c1)"

definition PurgeAll :: "'d bolt \<Rightarrow> 'd tiered \<Rightarrow> 'd tiered" where
  "PurgeAll B c = c\<lparr>l1 := InvalidatePrefix (l1 c) [], l2 := map_option (Purge B) (l2 c)\<rparr>"

subsection \<open>Reads\<close>

text \<open>A read of the disk tier, with the deletion it may start.\<close>

definition readL2 ::
  "'d bolt \<Rightarrow> gzip \<Rightarrow> 'd diskCache \<Rightarrow> string \<Rightarrow> bool \<Rightarrow> time
     \<Rightarrow> (bytes \<times> duration) option \<times> 'd diskCache \<times> background list" where
  "readL2 B Z dc key allowStale now =
     (let (r, dc1, del) = disk_getWithTTL B Z dc key allowStale now
      in (r, dc1, case del of Some k \<Rightarrow> [DeleteExpired k] | None \<Rightarrow> []))"

definition addHit :: "'d tiered \<Rightarrow> 'd tiered" where
  "addHit c = c\<lparr>l1 := (l1 c)\<lparr>Hits := Hits (l1 c) + 1\<rparr>\<rparr>"

definition addMiss :: "'d tiered \<Rightarrow> 'd tiered" where
  "addMiss c = c\<lparr>l1 := (l1 c)\<lparr>Misses := Misses (l1 c) + 1\<rparr>\<rparr>"

text \<open>The part of \<open>Get\<close> after a miss in memory and on disk.\<close>

definition getL3 ::
  "'d bolt \<Rightarrow> gzip \<Rightarrow> codec \<Rightarrow> nat \<Rightarrow> 'd tiered \<Rightarrow> string \<Rightarrow> time \<Rightarrow> peerReply
     \<Rightarrow> bytes option \<times> 'd tiered \<times> background list" where
  "getL3 B Z C ticks c key now reply =
     (case l3 c of
        None \<Rightarrow> (None, addMiss c, [])
      | Some p \<Rightarrow>
          let (r, p1) = peer_Get C p key now reply;
              c1 = c\<lparr>l3 := Some p1\<rparr>
          in case r of
               None \<Rightarrow> (None, addMiss c1, [])
             | Some (v, remainingTTL) \<Rightarrow>
                 let shadowTTL = (if remainingTTL \<le> 0 then 30 * Second else remainingTTL);
                     (c2, bg) = SetWithTTL B Z ticks c1 key v shadowTTL now
                 in (Some v, addHit c2, bg))"

text \<open>The part of \<open>Get\<close> after a miss in memory.\<close>

definition getBelow ::
  "'d bolt \<Rightarrow> gzip \<Rightarrow> codec \<Rightarrow> nat \<Rightarrow> 'd tiered \<Rightarrow> string \<Rightarrow> time \<Rightarrow> peerReply
     \<Rightarrow> bytes option \<times> 'd tiered \<times> background list" where
  "getBelow B Z C ticks c key now reply =
     (case l2 c of
        None \<Rightarrow> getL3 B Z C ticks c key now reply
      | Some dc \<Rightarrow>
          let (r, dc1, del) = readL2 B Z dc key False now;
              c1 = c\<lparr>l2 := Some dc1\<rparr>
          in case r of
               Some (v, _) \<Rightarrow> let (c2, bg) = tiered_Set B Z ticks c1 key v now in (Some v, addHit c2, bg)
             | None \<Rightarrow> let (r3, c3, bg) = getL3 B Z C ticks c1 key now reply in (r3, c3, del @ bg))"

definition tiered_Get ::
  "'d bolt \<Rightarrow> gzip \<Rightarrow> codec \<Rightarrow> nat \<Rightarrow> 'd tiered \<Rightarrow> string \<Rightarrow> time \<Rightarrow> peerReply
     \<Rightarrow> bytes option \<times> 'd tiered \<times> background list" where
  "tiered_Get B Z C ticks c key now reply =
     (if c_disabled (l1 c) then (None, c, [])
      else case map_of (entries (l1 c)) key of
             Some e \<Rightarrow>
               if \<not> now > expiresAt e
               then (Some (val e), c\<lparr>l1 := sendPromote key ((l1 c)\<lparr>Hits := Hits (l1 c) + 1\<rparr>)\<rparr>, [])
               else getBelow B Z C ticks c key now reply
           | None \<Rightarrow> getBelow B Z C ticks c key now reply)"

text \<open>
  The counters of the tiers: \<open>tierCount f\<close> counts in one tier of \<^verbatim>\<open>StatsSnapshot\<close>. The three
  functions are \<^verbatim>\<open>recordTierRequest\<close>, \<^verbatim>\<open>recordTierHit\<close> and \<^verbatim>\<open>recordTierMiss\<close> with
  \<^verbatim>\<open>recordTierStaleHit\<close>; any other tier name counts nothing.
\<close>

definition tierCount :: "(tierStats \<Rightarrow> tierStats) \<Rightarrow> string \<Rightarrow> 'd tiered \<Rightarrow> 'd tiered" where
  "tierCount f tier c =
     (if tier = ''l1'' then c\<lparr>l1 := (l1 c)\<lparr>l1Stats := f (l1Stats (l1 c))\<rparr>\<rparr>
      else if tier = ''l2'' then c\<lparr>l1 := (l1 c)\<lparr>l2Stats := f (l2Stats (l1 c))\<rparr>\<rparr>
      else if tier = ''l3'' then c\<lparr>l1 := (l1 c)\<lparr>l3Stats := f (l3Stats (l1 c))\<rparr>\<rparr>
      else c)"

definition recordTierRequest :: "string \<Rightarrow> 'd tiered \<Rightarrow> 'd tiered" where
  "recordTierRequest = tierCount (\<lambda>t. t\<lparr>ts_requests := ts_requests t + 1\<rparr>)"

definition recordTierHit :: "string \<Rightarrow> 'd tiered \<Rightarrow> 'd tiered" where
  "recordTierHit = tierCount (\<lambda>t. t\<lparr>ts_hits := ts_hits t + 1\<rparr>)"

definition recordTierMiss :: "string \<Rightarrow> 'd tiered \<Rightarrow> 'd tiered" where
  "recordTierMiss = tierCount (\<lambda>t. t\<lparr>ts_misses := ts_misses t + 1\<rparr>)"

definition recordTierStaleHit :: "string \<Rightarrow> 'd tiered \<Rightarrow> 'd tiered" where
  "recordTierStaleHit = tierCount (\<lambda>t. t\<lparr>ts_staleHits := ts_staleHits t + 1\<rparr>)"

definition setL1 :: "'d tiered \<Rightarrow> string \<Rightarrow> bytes \<Rightarrow> duration \<Rightarrow> time \<Rightarrow> 'd tiered" where
  "setL1 c key v ttl now = c\<lparr>l1 := SetLocalOnlyWithTTL (l1 c) key v ttl now\<rparr>"

type_synonym 'd shared_read = "(bytes \<times> duration \<times> string) option \<times> 'd tiered \<times> background list"

text \<open>The end of \<open>GetSharedWithTTL\<close>, and its part after a miss in memory and on disk.\<close>

definition sharedMiss :: "'d tiered \<Rightarrow> 'd shared_read" where
  "sharedMiss c = (None, addMiss (c\<lparr>l1 := (l1 c)\<lparr>backendFallthrough := backendFallthrough (l1 c) + 1\<rparr>\<rparr>), [])"

definition sharedL3 :: "codec \<Rightarrow> 'd tiered \<Rightarrow> string \<Rightarrow> time \<Rightarrow> peerReply \<Rightarrow> 'd shared_read" where
  "sharedL3 C c key now reply =
     (case l3 c of
        None \<Rightarrow> sharedMiss c
      | Some p \<Rightarrow>
          let (r, p1) = peer_Get C p key now reply;
              c1 = (recordTierRequest ''l3'' c)\<lparr>l3 := Some p1\<rparr>
          in case r of
               None \<Rightarrow> sharedMiss (recordTierMiss ''l3'' c1)
             | Some (v, remainingTTL) \<Rightarrow>
                 let shadowTTL = (if remainingTTL \<le> 0 then 30 * Second else remainingTTL)
                 in (Some (v, shadowTTL, ''l3_peer''), addHit (recordTierHit ''l3'' (setL1 c1 key v shadowTTL now)), []))"

definition sharedL2 :: "'d bolt \<Rightarrow> gzip \<Rightarrow> codec \<Rightarrow> 'd tiered \<Rightarrow> string \<Rightarrow> time \<Rightarrow> peerReply \<Rightarrow> 'd shared_read" where
  "sharedL2 B Z C c key now reply =
     (case l2 c of
        None \<Rightarrow> sharedL3 C c key now reply
      | Some dc \<Rightarrow>
          let (r, dc1, del) = readL2 B Z dc key False now;
              c1 = (recordTierRequest ''l2'' c)\<lparr>l2 := Some dc1\<rparr>
          in case r of
               Some (v, ttl) \<Rightarrow>
                 (Some (v, ttl, ''l2_disk''), addHit (recordTierHit ''l2'' (setL1 c1 key v ttl now)), [])
             | None \<Rightarrow>
                 let (r3, c3, bg) = sharedL3 C (recordTierMiss ''l2'' c1) key now reply in (r3, c3, del @ bg))"

definition GetSharedWithTTL ::
  "'d bolt \<Rightarrow> gzip \<Rightarrow> codec \<Rightarrow> 'd tiered \<Rightarrow> string \<Rightarrow> time \<Rightarrow> peerReply \<Rightarrow> 'd shared_read" where
  "GetSharedWithTTL B Z C c key now reply =
     (if c_disabled (l1 c) then (None, c, [])
      else let (r, m) = getL1WithTTL (l1 c) key now;
               c1 = recordTierRequest ''l1'' (c\<lparr>l1 := m\<rparr>)
           in case r of
                Some (v, ttl) \<Rightarrow> (Some (v, ttl, ''l1_memory''), addHit (recordTierHit ''l1'' c1), [])
              | None \<Rightarrow> sharedL2 B Z C (recordTierMiss ''l1'' c1) key now reply)"

text \<open>\<open>usable\<close> is \<open>None\<close> for the nil function.\<close>

definition accepts :: "(bytes \<Rightarrow> bool) option \<Rightarrow> bytes \<Rightarrow> bool" where
  "accepts usable v = (case usable of None \<Rightarrow> True | Some f \<Rightarrow> f v)"

definition staleL2 ::
  "'d bolt \<Rightarrow> gzip \<Rightarrow> 'd tiered \<Rightarrow> string \<Rightarrow> (bytes \<Rightarrow> bool) option \<Rightarrow> time \<Rightarrow> 'd shared_read" where
  "staleL2 B Z c key usable now =
     (case l2 c of
        None \<Rightarrow> (None, c, [])
      | Some dc \<Rightarrow>
          let (r, dc1, del) = readL2 B Z dc key True now;
              c1 = c\<lparr>l2 := Some dc1\<rparr>
          in case r of
               Some (v, ttl) \<Rightarrow>
                 if accepts usable v then (Some (v, ttl, ''l2_disk''), recordTierStaleHit ''l2'' c1, del)
                 else (None, c1, del)
             | None \<Rightarrow> (None, c1, del))"

definition GetRecoverableStaleWithTTLMatching ::
  "'d bolt \<Rightarrow> gzip \<Rightarrow> 'd tiered \<Rightarrow> string \<Rightarrow> (bytes \<Rightarrow> bool) option \<Rightarrow> time \<Rightarrow> 'd shared_read" where
  "GetRecoverableStaleWithTTLMatching B Z c key usable now =
     (if c_disabled (l1 c) then (None, c, [])
      else case GetStaleWithTTL (l1 c) key now of
             Some (v, ttl) \<Rightarrow>
               if accepts usable v then (Some (v, ttl, ''l1_memory''), recordTierStaleHit ''l1'' c, [])
               else staleL2 B Z c key usable now
           | None \<Rightarrow> staleL2 B Z c key usable now)"

definition GetRecoverableStaleWithTTL ::
  "'d bolt \<Rightarrow> gzip \<Rightarrow> 'd tiered \<Rightarrow> string \<Rightarrow> time \<Rightarrow> 'd shared_read" where
  "GetRecoverableStaleWithTTL B Z c key now = GetRecoverableStaleWithTTLMatching B Z c key None now"

subsection \<open>Serving peers\<close>

definition statusOnly :: "int \<Rightarrow> string \<Rightarrow> peerResponse" where
  "statusOnly status setEncoding =
     \<lparr>rs_status = status, rs_setEncoding = setEncoding, rs_contentEncoding = [], rs_ttlMs = [], rs_body = Some []\<rparr>"

text \<open>
  \<open>key\<close> is the query parameter. An encoder that fails leaves a response that the client cannot read.
\<close>

definition serveGet ::
  "codec \<Rightarrow> 'd tiered \<Rightarrow> string \<Rightarrow> string \<Rightarrow> time \<Rightarrow> peerResponse \<times> 'd tiered" where
  "serveGet C c key acceptEncoding now =
     (if key = [] then (statusOnly 400 [], c)
      else let (r, m) = GetWithTTL (l1 c) key now;
               c1 = c\<lparr>l1 := m\<rparr>
           in case r of
                None \<Rightarrow> (statusOnly 404 [], c1)
              | Some (v, remaining) \<Rightarrow>
                  if remaining < MinUsableTTL then (statusOnly 404 [], c1)
                  else (\<lparr>rs_status = 200, rs_setEncoding = ''zstd'',
                         rs_contentEncoding = (case writePeerEncodedResponse C acceptEncoding v of
                                                 Some (e, _) \<Rightarrow> e | None \<Rightarrow> []),
                         rs_ttlMs = Itoa (goDiv remaining Millisecond),
                         rs_body = map_option snd (writePeerEncodedResponse C acceptEncoding v)\<rparr>, c1))"

definition serveSet ::
  "'d bolt \<Rightarrow> gzip \<Rightarrow> codec \<Rightarrow> nat \<Rightarrow> 'd tiered \<Rightarrow> string \<Rightarrow> string \<Rightarrow> string \<Rightarrow> bytes option \<Rightarrow> time
     \<Rightarrow> peerResponse \<times> 'd tiered \<times> background list" where
  "serveSet B Z C ticks c rawKey ttlMsRaw contentEncoding reqBody now =
     (let key = TrimSpace rawKey;
          raw = TrimSpace ttlMsRaw;
          ttl0 = (if raw = [] then 0
                  else case Sscanf_d raw of
                         Some ms \<Rightarrow> if ms > 0 then int64 (ms * Millisecond) else 0
                       | None \<Rightarrow> 0);
          ttl = (if ttl0 \<le> 0 then 30 * Second else ttl0)
      in if key = [] then (statusOnly 400 [], c, [])
         else case readPeerBodyLimited reqBody maxPeerSetBodyBytes of
                None \<Rightarrow> (statusOnly 400 [], c, [])
              | Some body \<Rightarrow>
                  (case decodePeerResponseBody C contentEncoding body maxPeerSetBodyBytes of
                     None \<Rightarrow> (statusOnly 400 [], c, [])
                   | Some v \<Rightarrow>
                       if v = [] then (statusOnly 400 [], c, [])
                       else let (c1, bg) = SetWithTTL B Z ticks c key v ttl now
                            in (statusOnly 204 ''zstd'', c1, bg)))"

record peerKeyPresence =
  kp_OK :: bool
  kp_TTLMs :: int

text \<open>\<open>serveHas\<close>: the presence of each key that was asked for, and the status.\<close>

definition presence :: "(bytes \<times> duration) option \<Rightarrow> peerKeyPresence" where
  "presence r =
     (case r of
        Some (_, remaining) \<Rightarrow>
          if remaining \<ge> MinUsableTTL then \<lparr>kp_OK = True, kp_TTLMs = goDiv remaining Millisecond\<rparr>
          else \<lparr>kp_OK = False, kp_TTLMs = 0\<rparr>
      | None \<Rightarrow> \<lparr>kp_OK = False, kp_TTLMs = 0\<rparr>)"

fun hasKeys :: "cache \<Rightarrow> string list \<Rightarrow> time \<Rightarrow> (string \<times> peerKeyPresence) list \<Rightarrow> (string \<times> peerKeyPresence) list \<times> cache" where
  "hasKeys m [] now acc = (acc, m)"
| "hasKeys m (raw # parts) now acc =
     (let key = TrimSpace raw
      in if key = [] then hasKeys m parts now acc
         else let (r, m1) = GetWithTTL m key now in hasKeys m1 parts now (AList.update key (presence r) acc))"

definition serveHas ::
  "'d tiered \<Rightarrow> bool \<Rightarrow> string \<Rightarrow> time \<Rightarrow> (int + (string \<times> peerKeyPresence) list) \<times> 'd tiered" where
  "serveHas c isGet keys now =
     (let rawKeys = TrimSpace keys;
          parts = Split rawKeys (CHR '','')
      in if \<not> isGet then (Inl 405, c)
         else if rawKeys = [] then (Inl 400, c)
         else if length parts > 200 then (Inl 400, c)
         else let (r, m) = hasKeys (l1 c) parts now [] in (Inr r, c\<lparr>l1 := m\<rparr>))"

definition serveHotIndex :: "'d tiered \<Rightarrow> peerCache \<Rightarrow> string \<Rightarrow> time \<Rightarrow> hotKeySnapshot list" where
  "serveHotIndex c p rawLimit now =
     (let raw = TrimSpace rawLimit;
          limit0 = (case Atoi raw of Inr n \<Rightarrow> if raw \<noteq> [] \<and> n > 0 then n else readAheadTopN p | Inl _ \<Rightarrow> readAheadTopN p);
          limit = (if limit0 > 2000 then 2000 else limit0)
      in TopHotKeys (l1 c) limit (readAheadMinTTL p) (readAheadMaxObjectBytes p) now)"

text \<open>\<open>prefetchHotKey\<close>: the read-ahead fetches a hot key of another replica into the local cache.\<close>

definition prefetchHotKey ::
  "'d bolt \<Rightarrow> gzip \<Rightarrow> codec \<Rightarrow> nat \<Rightarrow> 'd tiered \<Rightarrow> peerCache \<Rightarrow> hotIndexEntry \<Rightarrow> time \<Rightarrow> peerReply
     \<Rightarrow> bool \<times> 'd tiered \<times> peerCache \<times> background list" where
  "prefetchHotKey B Z C ticks c p e now reply =
     (if he_Key e = [] then (False, c, p, [])
      else let (have, m) = GetWithTTL (l1 c) (he_Key e) now;
               c0 = c\<lparr>l1 := m\<rparr>
           in if (case have of Some (_, ttl) \<Rightarrow> ttl \<ge> readAheadMinTTL p | None \<Rightarrow> False) then (True, c0, p, [])
              else let (r, p1) = peer_Get C p (he_Key e) now reply
                   in case r of
                        None \<Rightarrow> (False, c0, p1, [])
                      | Some (v, ttl0) \<Rightarrow>
                          let ttl = (if ttl0 \<le> 0 then int64 (he_RemainingTTLMS e * Millisecond) else ttl0)
                          in if ttl < readAheadMinTTL p1 then (False, c0, p1, [])
                             else if readAheadMaxObjectBytes p1 > 0 \<and> int (length v) > readAheadMaxObjectBytes p1
                             then (False, c0, p1\<lparr>RABudget := RABudget p1 + 1\<rparr>, [])
                             else let (c1, bg) = SetShadowWithTTL B Z ticks c0 (he_Key e) v ttl now
                                  in (True, c1, p1\<lparr>RAPrefetch := RAPrefetch p1 + 1,
                                                  RABytes := RABytes p1 + int (length v)\<rparr>, bg))"

subsection \<open>Expiry times\<close>

text \<open>What the disk tier holds for a key: the value and the time at which it expires.\<close>

definition disk_held :: "'d bolt \<Rightarrow> gzip \<Rightarrow> 'd diskCache \<Rightarrow> string \<Rightarrow> (bytes \<times> time) option" where
  "disk_held B Z dc key =
     (case map_of (writeBuf dc) key of
        Some e \<Rightarrow> Some (de_Value e, de_ExpiresAt e)
      | None \<Rightarrow> map_option (\<lambda>(t, v). (v, t)) (diskRead B Z dc key))"

lemma disk_held_counters [simp]:
  "disk_held B Z (dc\<lparr>dc_Hits := n\<rparr>) key = disk_held B Z dc key"
  "disk_held B Z (dc\<lparr>dc_Misses := n\<rparr>) key = disk_held B Z dc key"
  "disk_held B Z (dc\<lparr>dc_Misses := n, dc_Evictions := m\<rparr>) key = disk_held B Z dc key"
  by (simp_all add: disk_held_def diskRead_def split: option.split)

lemma readL2_result:
  "fst (readL2 B Z dc key stale now) =
     (case disk_held B Z dc key of
        Some (v, e) \<Rightarrow> if now < e \<or> stale then Some (v, e - now) else None
      | None \<Rightarrow> None)"
  by (auto simp: readL2_def disk_getWithTTL_def disk_held_def Let_def split: option.split)

lemma readL2_frame:
  "fst (snd (readL2 B Z dc key stale now)) \<in>
     {dc\<lparr>dc_Hits := dc_Hits dc + 1\<rparr>, dc\<lparr>dc_Misses := dc_Misses dc + 1\<rparr>,
      dc\<lparr>dc_Misses := dc_Misses dc + 1, dc_Evictions := dc_Evictions dc + 1\<rparr>}"
  by (auto simp: readL2_def disk_getWithTTL_def Let_def split: option.split)

lemma readL2_held [simp]:
  "disk_held B Z (fst (snd (readL2 B Z dc key stale now))) k = disk_held B Z dc k"
  using readL2_frame [of B Z dc key stale now] by auto

lemma held_upd [simp]:
  "held (m\<lparr>Hits := n\<rparr>) = held m" "held (m\<lparr>Misses := n\<rparr>) = held m" "held (m\<lparr>backendFallthrough := n\<rparr>) = held m"
  "held (m\<lparr>l1Stats := t\<rparr>) = held m" "held (m\<lparr>l2Stats := t\<rparr>) = held m" "held (m\<lparr>l3Stats := t\<rparr>) = held m"
  "held (sendPromote key m) = held m"
  by (simp_all add: held_def sendPromote_def fun_eq_iff)

lemma tier_frame [simp]:
  "held (l1 (tierCount f t c)) = held (l1 c)" "l2 (tierCount f t c) = l2 c" "l3 (tierCount f t c) = l3 c"
  "held (l1 (addHit c)) = held (l1 c)" "l2 (addHit c) = l2 c" "l3 (addHit c) = l3 c"
  "held (l1 (addMiss c)) = held (l1 c)" "l2 (addMiss c) = l2 c" "l3 (addMiss c) = l3 c"
  "l2 (setL1 c key v ttl now) = l2 c" "l3 (setL1 c key v ttl now) = l3 c"
  by (auto simp: tierCount_def addHit_def addMiss_def setL1_def)

lemmas tier_records = recordTierRequest_def recordTierHit_def recordTierMiss_def recordTierStaleHit_def

text \<open>
  What a shared read should return: the first tier with a value that is still fresh, and the time at
  which that value expires. A peer that does not say when its value expires grants 30 seconds.
\<close>

definition if_fresh :: "time \<Rightarrow> (bytes \<times> time) option \<Rightarrow> (bytes \<times> time) option" where
  "if_fresh now h = (case h of Some (v, e) \<Rightarrow> if now < e then Some (v, e) else None | None \<Rightarrow> None)"

definition peer_fresh :: "codec \<Rightarrow> peerCache option \<Rightarrow> string \<Rightarrow> time \<Rightarrow> peerReply \<Rightarrow> (bytes \<times> time) option" where
  "peer_fresh C po key now reply =
     (case po of
        None \<Rightarrow> None
      | Some p \<Rightarrow> map_option (\<lambda>(v, t). (v, now + (if t \<le> 0 then 30 * Second else t))) (fst (peer_Get C p key now reply)))"

definition below_fresh ::
  "'d bolt \<Rightarrow> gzip \<Rightarrow> codec \<Rightarrow> 'd tiered \<Rightarrow> string \<Rightarrow> time \<Rightarrow> peerReply \<Rightarrow> (bytes \<times> time \<times> string) option" where
  "below_fresh B Z C c key now reply =
     (case if_fresh now (case l2 c of Some dc \<Rightarrow> disk_held B Z dc key | None \<Rightarrow> None) of
        Some (v, e) \<Rightarrow> Some (v, e, ''l2_disk'')
      | None \<Rightarrow> map_option (\<lambda>(v, e). (v, e, ''l3_peer'')) (peer_fresh C (l3 c) key now reply))"

definition first_fresh ::
  "'d bolt \<Rightarrow> gzip \<Rightarrow> codec \<Rightarrow> 'd tiered \<Rightarrow> string \<Rightarrow> time \<Rightarrow> peerReply \<Rightarrow> (bytes \<times> time \<times> string) option" where
  "first_fresh B Z C c key now reply =
     (case if_fresh now (held (l1 c) key) of
        Some (v, e) \<Rightarrow> Some (v, e, ''l1_memory'')
      | None \<Rightarrow> below_fresh B Z C c key now reply)"

text \<open>
  What every read keeps: memory only gains the value that was found, with its own expiry time, the
  disk holds what it held, and nothing is pushed.
\<close>

definition read_keeps ::
  "'d bolt \<Rightarrow> gzip \<Rightarrow> 'd tiered \<Rightarrow> string \<Rightarrow> (bytes \<times> time \<times> string) option \<Rightarrow> 'd tiered \<Rightarrow> background list \<Rightarrow> bool" where
  "read_keeps B Z c key found c' bg \<longleftrightarrow>
     (\<forall>k w. held (l1 c') k = Some w \<longrightarrow>
        held (l1 c) k = Some w \<or> k = key \<and> (\<exists>t. found = Some (fst w, snd w, t))) \<and>
     map_option (disk_held B Z) (l2 c') = map_option (disk_held B Z) (l2 c) \<and>
     (\<forall>x. PushToOwner x \<notin> set bg)"

lemma held_setL1:
  assumes "cache_wf (l1 c)" "held (l1 (setL1 c key v ttl now)) k = Some w"
  shows "held (l1 c) k = Some w \<or> k = key \<and> w = (v, now + ttl)"
proof (cases rule: SetLocalOnly_cases [of "l1 c" key v ttl now])
  case 2
  let ?m = "storeLocalLocked (l1 c) key v ttl (int (length v)) now"
  from 2 assms(2) have k: "held ?m k = Some w" by (simp add: setL1_def)
  then have "k \<in> dom (held ?m)" by (rule domI)
  with held_store [OF assms(1), of key v ttl now] k have "((held (l1 c))(key \<mapsto> (v, now + ttl))) k = Some w"
    by (simp only: map_le_def)
  then show ?thesis by (simp split: if_splits)
qed (use assms in \<open>simp add: setL1_def\<close>)

lemma wf_tiers [simp]:
  "cache_wf (l1 (tierCount f t c)) = cache_wf (l1 c)"
  "cache_wf (l1 (c\<lparr>l2 := d\<rparr>)) = cache_wf (l1 c)" "cache_wf (l1 (c\<lparr>l3 := p\<rparr>)) = cache_wf (l1 c)"
  by (simp_all add: tierCount_def)

lemma read_keepsI:
  assumes "\<And>k w. held (l1 c') k = Some w \<Longrightarrow> held (l1 c) k = Some w \<or> k = key \<and> (\<exists>t. found = Some (fst w, snd w, t))"
    and "map_option (disk_held B Z) (l2 c') = map_option (disk_held B Z) (l2 c)"
    and "\<And>x. PushToOwner x \<notin> set bg"
  shows "read_keeps B Z c key found c' bg"
  using assms by (simp add: read_keeps_def)

lemma read_keeps_same:
  assumes "held (l1 c') = held (l1 c)" "map_option (disk_held B Z) (l2 c') = map_option (disk_held B Z) (l2 c)"
    and "\<And>x. PushToOwner x \<notin> set bg"
  shows "read_keeps B Z c key found c' bg"
  using assms by (simp add: read_keeps_def)

lemma read_keeps_setL1:
  assumes "cache_wf (l1 c1)" "held (l1 c1) = held (l1 c)"
    and "map_option (disk_held B Z) (l2 c1) = map_option (disk_held B Z) (l2 c)"
  shows "read_keeps B Z c key (Some (v, now + ttl, t)) (addHit (recordTierHit tier (setL1 c1 key v ttl now))) []"
proof (rule read_keepsI)
  fix k w
  assume "held (l1 (addHit (recordTierHit tier (setL1 c1 key v ttl now)))) k = Some w"
  then have "held (l1 (setL1 c1 key v ttl now)) k = Some w" by (simp add: recordTierHit_def)
  from held_setL1 [OF assms(1) this] show "held (l1 c) k = Some w \<or> k = key \<and> (\<exists>t'. Some (v, now + ttl, t) = Some (fst w, snd w, t'))"
    by (auto simp: assms(2))
qed (simp_all add: assms(3) recordTierHit_def)

lemma sharedL3_spec:
  assumes "cache_wf (l1 c)"
  shows "fst (sharedL3 C c key now reply) =
      map_option (\<lambda>(v, e). (v, e - now, ''l3_peer'')) (peer_fresh C (l3 c) key now reply) \<and>
    read_keeps B Z c key (map_option (\<lambda>(v, e). (v, e, ''l3_peer'')) (peer_fresh C (l3 c) key now reply))
      (fst (snd (sharedL3 C c key now reply))) (snd (snd (sharedL3 C c key now reply)))"
proof (cases "l3 c")
  case None
  then show ?thesis
    by (auto simp: sharedL3_def sharedMiss_def peer_fresh_def intro!: read_keeps_same)
next
  case (Some p)
  obtain r p1 where g: "peer_Get C p key now reply = (r, p1)" by fastforce
  show ?thesis
  proof (cases r)
    case None
    then show ?thesis
      using Some g by (auto simp: sharedL3_def sharedMiss_def peer_fresh_def tier_records Let_def intro!: read_keeps_same)
  next
    case r: (Some vt)
    obtain v t where "vt = (v, t)" by fastforce
    then show ?thesis
      using Some g r assms
      by (auto simp: sharedL3_def peer_fresh_def Let_def recordTierRequest_def intro!: read_keeps_setL1)
  qed
qed

lemma read_keeps_trans:
  assumes "read_keeps B Z c1 key found c2 bg" "held (l1 c1) = held (l1 c)"
    and "map_option (disk_held B Z) (l2 c1) = map_option (disk_held B Z) (l2 c)"
    and "\<And>x. PushToOwner x \<notin> set del"
  shows "read_keeps B Z c key found c2 (del @ bg)"
  using assms by (simp add: read_keeps_def)

lemma readL2_deletes: "PushToOwner x \<notin> set (snd (snd (readL2 B Z dc key stale now)))"
  by (simp add: readL2_def split: prod.split option.split)

lemma sharedL2_spec:
  assumes "cache_wf (l1 c)"
  shows "fst (sharedL2 B Z C c key now reply) =
      map_option (\<lambda>(v, e, t). (v, e - now, t)) (below_fresh B Z C c key now reply) \<and>
    read_keeps B Z c key (below_fresh B Z C c key now reply)
      (fst (snd (sharedL2 B Z C c key now reply))) (snd (snd (sharedL2 B Z C c key now reply)))"
proof (cases "l2 c")
  case None
  then show ?thesis
    using sharedL3_spec [OF assms(1), of C key now reply B Z]
    by (cases "peer_fresh C (l3 c) key now reply") (auto simp: sharedL2_def below_fresh_def if_fresh_def)
next
  case (Some dc)
  obtain r dc1 del where g: "readL2 B Z dc key False now = (r, dc1, del)" by (metis prod_cases3)
  then have disk: "disk_held B Z dc1 = disk_held B Z dc"
    using readL2_held [of B Z dc key False now] by (simp add: fun_eq_iff)
  have r: "r = map_option (\<lambda>(v, e). (v, e - now)) (if_fresh now (disk_held B Z dc key))"
    using readL2_result [of B Z dc key False now] g by (auto simp: if_fresh_def split: option.split)
  show ?thesis
  proof (cases "if_fresh now (disk_held B Z dc key)")
    case None
    let ?c = "recordTierMiss ''l2'' ((recordTierRequest ''l2'' c)\<lparr>l2 := Some dc1\<rparr>)"
    have frame: "cache_wf (l1 ?c)" "l3 ?c = l3 c" "held (l1 ?c) = held (l1 c)"
      "map_option (disk_held B Z) (l2 ?c) = map_option (disk_held B Z) (l2 c)"
      using assms(1) disk Some by (simp_all add: tier_records)
    have del: "PushToOwner x \<notin> set del" for x using readL2_deletes [of x B Z dc key False now] g by simp
    have "sharedL2 B Z C c key now reply = (let (r3, c3, bg) = sharedL3 C ?c key now reply in (r3, c3, del @ bg))"
      using Some g r None by (simp add: sharedL2_def)
    then show ?thesis
      using sharedL3_spec [OF frame(1), of C key now reply B Z] Some None
        read_keeps_trans [OF _ frame(3,4) del]
      by (cases "peer_fresh C (l3 c) key now reply") (auto simp: below_fresh_def frame(2) Let_def split_beta)
  next
    case (Some ve)
    obtain v e where ve: "ve = (v, e)" by fastforce
    let ?c = "(recordTierRequest ''l2'' c)\<lparr>l2 := Some dc1\<rparr>"
    have "sharedL2 B Z C c key now reply =
        (Some (v, e - now, ''l2_disk''), addHit (recordTierHit ''l2'' (setL1 ?c key v (e - now) now)), [])"
      using \<open>l2 c = Some dc\<close> g r Some ve by (simp add: sharedL2_def)
    moreover have "read_keeps B Z c key (Some (v, now + (e - now), ''l2_disk''))
        (addHit (recordTierHit ''l2'' (setL1 ?c key v (e - now) now))) []"
      using assms(1) disk \<open>l2 c = Some dc\<close> by (intro read_keeps_setL1) (simp_all add: tier_records)
    ultimately show ?thesis
      using \<open>l2 c = Some dc\<close> Some ve by (simp add: below_fresh_def)
  qed
qed

text \<open>
  C5. A shared read returns the value of the first tier that has a fresh one, with the time to live that
  value has left. What it puts into memory expires at the same time as the original, the disk tier
  holds what it held before, and nothing is pushed to other replicas.
\<close>

theorem shared_read_keeps_expiry:
  assumes "cache_ok (l1 c)" "\<not> c_disabled (l1 c)" "GetSharedWithTTL B Z C c key now reply = (r, c', bg)"
  shows "r = map_option (\<lambda>(v, e, t). (v, e - now, t)) (first_fresh B Z C c key now reply) \<and>
    (\<forall>k w. held (l1 c') k = Some w \<longrightarrow> held (l1 c) k = Some w \<or>
       k = key \<and> (\<exists>t. first_fresh B Z C c key now reply = Some (fst w, snd w, t))) \<and>
    map_option (disk_held B Z) (l2 c') = map_option (disk_held B Z) (l2 c) \<and>
    (\<forall>x. PushToOwner x \<notin> set bg)"
proof -
  have wf: "cache_wf (l1 c)" using assms(1) by (simp add: cache_ok_def)
  obtain r1 m where g: "getL1WithTTL (l1 c) key now = (r1, m)" by fastforce
  have r1: "r1 = map_option (\<lambda>(v, e). (v, e - now)) (if_fresh now (held (l1 c) key))" and m: "held m = held (l1 c)"
    and wm: "cache_wf m"
    using g wf by (auto simp: getL1WithTTL_def if_fresh_def held_def Let_def sendPromote_def fun_eq_iff
        split: option.splits if_splits)
  let ?c = "recordTierMiss ''l1'' (recordTierRequest ''l1'' (c\<lparr>l1 := m\<rparr>))"
  have frame: "cache_wf (l1 ?c)" "l2 ?c = l2 c" "l3 ?c = l3 c" "held (l1 ?c) = held (l1 c)"
    using wm m by (simp_all add: tier_records)
  have below: "below_fresh B Z C ?c key now reply = below_fresh B Z C c key now reply"
    by (simp only: below_fresh_def frame)
  have "r = map_option (\<lambda>(v, e, t). (v, e - now, t)) (first_fresh B Z C c key now reply) \<and>
    read_keeps B Z c key (first_fresh B Z C c key now reply) c' bg"
  proof (cases "if_fresh now (held (l1 c) key)")
    case None
    then have "sharedL2 B Z C ?c key now reply = (r, c', bg)"
      using assms(2,3) g r1 by (simp add: GetSharedWithTTL_def)
    then show ?thesis
      using sharedL2_spec [OF frame(1), where B = B and Z = Z and C = C and key = key and now = now and reply = reply] None
        read_keeps_trans [where del = "[]" and B = B and Z = Z, OF _ frame(4)]
      by (auto simp: first_fresh_def below frame(2))
  next
    case (Some ve)
    then show ?thesis
      using assms(2,3) g r1 m
      by (auto simp: GetSharedWithTTL_def first_fresh_def tier_records split_beta intro!: read_keeps_same)
  qed
  then show ?thesis by (simp add: read_keeps_def)
qed

definition example_tiers :: "(bytes \<times> bytes) list tiered" where
  "example_tiers =
     \<lparr>l1 = NewWithMaxBytes Minute 100 1000,
      l2 = Some (disk_Set al_bolt copy_gzip (disk0 0) ''k'' ''v'' Minute 0 1), l3 = None\<rparr>"

definition copy_codec :: codec where
  "copy_codec = \<lparr>gzip_encode = Some, gzip_decode = Some, zstd_encode = Some, zstd_decode = Some\<rparr>"

lemma example_tiers_simps:
  "held (l1 example_tiers) k = None" "\<not> c_disabled (l1 example_tiers)" "cache_ok (l1 example_tiers)" "l3 example_tiers = None"
  by (simp_all add: example_tiers_def cache_ok_New) (simp_all add: held_def NewWithMaxBytes_def)

theorem shared_read_keeps_expiry_witness:
  "fst (GetSharedWithTTL al_bolt copy_gzip copy_codec example_tiers ''k'' (20 * Second) BuildFailed) =
     Some (''v'', 40 * Second, ''l2_disk'')"
proof -
  obtain r c' bg where g: "GetSharedWithTTL al_bolt copy_gzip copy_codec example_tiers ''k'' (20 * Second) BuildFailed = (r, c', bg)"
    by (metis prod_cases3)
  have d: "map_option (\<lambda>dc. disk_held al_bolt copy_gzip dc ''k'') (l2 example_tiers) = Some (Some (''v'', Minute))"
    by code_simp
  then have "first_fresh al_bolt copy_gzip copy_codec example_tiers ''k'' (20 * Second) BuildFailed = Some (''v'', Minute, ''l2_disk'')"
    by (auto simp: first_fresh_def below_fresh_def example_tiers_simps if_fresh_def)
  with shared_read_keeps_expiry [OF example_tiers_simps(3,2) g] show ?thesis by (simp add: g [simplified])
qed

subsection \<open>Reads that renew\<close>

text \<open>
  \<open>Get\<close> promotes a hit on disk by \<open>Set\<close>, with the default time to live, which writes it to the disk
  again. \<open>renewable\<close>: the disk tier has a value in its buffer until time \<open>e\<close>.
\<close>

definition renewable :: "string \<Rightarrow> bytes \<Rightarrow> duration \<Rightarrow> time \<Rightarrow> 'd tiered \<Rightarrow> bool" where
  "renewable key v D e c \<longleftrightarrow>
     cache_ok (l1 c) \<and> \<not> c_disabled (l1 c) \<and> l3 c = None \<and> defaultTTL (l1 c) = D \<and>
     int (length v) \<le> goDiv (maxBytes (l1 c)) 10 \<and>
     (\<exists>dc. l2 c = Some dc \<and> writeBuf dc = [(key, \<lparr>de_Value = v, de_ExpiresAt = e\<rparr>)] \<and>
        1 < flushSize dc \<and> dc_minTTL dc \<le> D)"

lemma storeLocal_ok:
  assumes "cache_ok m" "int (length v) \<le> goDiv (maxBytes m) 10" "\<not> c_disabled m"
  shows "cache_ok (storeLocalLocked m key v ttl (int (length v)) now)"
    "same_limits (storeLocalLocked m key v ttl (int (length v)) now) m"
proof -
  have "SetLocalOnlyWithTTL m key v ttl now = storeLocalLocked m key v ttl (int (length v)) now"
    using assms(2,3) by (simp add: SetLocalOnlyWithTTL_def)
  then show "cache_ok (storeLocalLocked m key v ttl (int (length v)) now)"
    using cache_ok_Set [OF assms(1), of key v ttl now] by simp
  show "same_limits (storeLocalLocked m key v ttl (int (length v)) now) m"
    using assms(1) store_props(2) [of m "int (length v)" v key ttl now] by (simp add: cache_ok_def)
qed

lemma cache_ok_Hits [simp]: "cache_ok (m\<lparr>Hits := n\<rparr>) = cache_ok m"
  by (simp add: cache_ok_def drift_def total_size_def)

lemma disk_Set_buffered:
  assumes "writeBuf dc = [] \<or> (\<exists>x. writeBuf dc = [(key, x)])" "1 < flushSize dc" "dc_minTTL dc \<le> ttl" "0 < ttl"
    and "0 \<le> now" "now + ttl < 2 ^ 63"
  shows "disk_Set B Z dc key v ttl now ticks = dc\<lparr>writeBuf := [(key, \<lparr>de_Value = v, de_ExpiresAt = now + ttl\<rparr>)]\<rparr>"
  using assms by (auto simp: disk_Set_def int64_id)

lemma renewing_read:
  assumes "renewable key v D e c" "now < e" "0 < D" "0 \<le> now" "now + D < 2 ^ 63" "\<not> skipL2WriteForKey key"
  shows "\<exists>c' bg. tiered_Get B Z C ticks (c\<lparr>l1 := Invalidate (l1 c) key\<rparr>) key now reply = (Some v, c', bg) \<and>
    renewable key v D (now + D) c'"
proof -
  obtain dc where c: "cache_ok (l1 c)" "\<not> c_disabled (l1 c)" "l3 c = None" "defaultTTL (l1 c) = D"
    "int (length v) \<le> goDiv (maxBytes (l1 c)) 10" and dc: "l2 c = Some dc"
    "writeBuf dc = [(key, \<lparr>de_Value = v, de_ExpiresAt = e\<rparr>)]" "1 < flushSize dc" "dc_minTTL dc \<le> D"
    using assms(1) by (auto simp: renewable_def)
  define m where "m = Invalidate (l1 c) key"
  have wf: "cache_wf (l1 c)" using c(1) by (simp add: cache_ok_def)
  have m: "cache_ok m" "same_limits m (l1 c)"
    using cache_ok_shrinks [OF c(1) shrinks_Invalidate [OF wf]] limits_step [OF wf, of "CInvalidate key"]
    by (simp_all add: m_def)
  then have lim: "\<not> c_disabled m" "defaultTTL m = D" "int (length v) \<le> goDiv (maxBytes m) 10"
    using c by (simp_all add: same_limits_def)
  have none: "map_of (entries m) key = None"
    by (simp add: m_def Invalidate_def delete_conv' split: option.split)
  have read: "readL2 B Z dc key False now = (Some (v, e - now), dc\<lparr>dc_Hits := dc_Hits dc + 1\<rparr>, [])"
    using dc assms(2) by (simp add: readL2_def disk_getWithTTL_def)
  let ?dc = "dc\<lparr>dc_Hits := dc_Hits dc + 1\<rparr>"
  let ?m = "storeLocalLocked m key v D (int (length v)) now"
  have set: "disk_Set B Z ?dc key v D now ticks = ?dc\<lparr>writeBuf := [(key, \<lparr>de_Value = v, de_ExpiresAt = now + D\<rparr>)]\<rparr>"
    using dc assms by (intro disk_Set_buffered) auto
  have "tiered_Get B Z C ticks (c\<lparr>l1 := m\<rparr>) key now reply =
      (Some v, addHit (c\<lparr>l1 := ?m, l2 := Some (disk_Set B Z ?dc key v D now ticks)\<rparr>), [])"
    using lim none read dc(1) c(3) assms(6)
    by (simp add: tiered_Get_def getBelow_def tiered_Set_def SetWithTTL_def setWithTTL_def WriteThroughEnabled_def Let_def)
  moreover have "renewable key v D (now + D) (addHit (c\<lparr>l1 := ?m, l2 := Some (disk_Set B Z ?dc key v D now ticks)\<rparr>))"
    using storeLocal_ok [OF m(1) lim(3,1), of key D now] lim c(3) dc
    by (simp add: renewable_def addHit_def set same_limits_def)
  ultimately show ?thesis by (simp add: m_def)
qed

text \<open>Reads of a key at some times, each after an invalidation of the key.\<close>

fun invalidated_reads ::
  "'d bolt \<Rightarrow> gzip \<Rightarrow> codec \<Rightarrow> nat \<Rightarrow> 'd tiered \<Rightarrow> string \<Rightarrow> (time \<times> peerReply) list \<Rightarrow> bytes option list" where
  "invalidated_reads B Z C ticks c key [] = []"
| "invalidated_reads B Z C ticks c key ((now, reply) # ts) =
     (let (r, c', bg) = tiered_Get B Z C ticks (c\<lparr>l1 := Invalidate (l1 c) key\<rparr>) key now reply
      in r # invalidated_reads B Z C ticks c' key ts)"

fun each_within :: "duration \<Rightarrow> time \<Rightarrow> (time \<times> peerReply) list \<Rightarrow> bool" where
  "each_within D t [] = True"
| "each_within D t ((now, reply) # ts) = (t \<le> now \<and> now < t + D \<and> each_within D now ts)"

lemma reads_renew:
  assumes "renewable key v D (t + d) c" "each_within D t ts" "D \<le> d" "0 < D" "0 \<le> t" "\<not> skipL2WriteForKey key"
    and "\<forall>(now, reply) \<in> set ts. now + D < 2 ^ 63"
  shows "invalidated_reads B Z C ticks c key ts = replicate (length ts) (Some v)"
  using assms
proof (induction ts arbitrary: c t d)
  case (Cons x ts)
  obtain now reply where x: "x = (now, reply)" by fastforce
  obtain c' bg where "tiered_Get B Z C ticks (c\<lparr>l1 := Invalidate (l1 c) key\<rparr>) key now reply = (Some v, c', bg)"
    "renewable key v D (now + D) c'"
    using renewing_read [OF Cons.prems(1), of now B Z C ticks reply] Cons.prems x by auto
  then show ?case
    using Cons.IH [of now D c'] Cons.prems x by simp
qed simp



subsection \<open>Pushes to the owner\<close>

text \<open>
  C40. No value that a replica writes reaches its owner with more than 30 seconds to live, whatever
  its time to live: the limit meant for the local shadow copy is applied before the push. With a
  minimum of more than 30 seconds for pushes, nothing is pushed at all.
\<close>

theorem pushed_ttl_clamped:
  assumes "SetWithTTL B Z ticks c key v ttl now = (c', bg)" "PushToOwner x \<in> set bg"
  shows "ps_ttl x \<le> 30 * Second \<and> ps_key x = key \<and> ps_value x = v \<and>
    (\<exists>p. l3 c = Some p \<and> (0 < ttl \<longrightarrow> wtMinTTL p \<le> 30 * Second))"
proof (cases "l3 c")
  case None
  then show ?thesis
    using assms by (auto simp: SetWithTTL_def setWithTTL_def Let_def split: if_splits)
next
  case (Some p)
  define d where "d = (if writeThrough p \<and> \<not> IsOwner p key \<and> ttl > nonOwnerShadowMaxTTL then nonOwnerShadowMaxTTL else ttl)"
  have push: "fst (peer_SetWithTTL p key v d now) = Some x"
    using assms Some
    by (auto simp: SetWithTTL_def setWithTTL_def WriteThroughEnabled_def Let_def d_def split: if_splits option.splits prod.splits)
  then have "writeThrough p" "\<not> IsOwner p key" "x = \<lparr>ps_owner = ring_get (pc_ring p) key, ps_key = key, ps_value = v, ps_ttl = d\<rparr>"
    "\<not> (0 < d \<and> d < wtMinTTL p)"
    by (auto simp: peer_SetWithTTL_def IsOwner_def Let_def split: if_splits prod.splits)
  then show ?thesis
    using Some by (auto simp: d_def nonOwnerShadowMaxTTL_def split: if_splits)
qed

definition example_peer :: peerCache where
  "example_peer = updatePeers (NewPeerCache (defaultConfig\<lparr>cfg_SelfAddr := ''a:1'', cfg_WriteThrough := True\<rparr>)) [''b:1'']"

lemma example_peer_owner: "ring_get (pc_ring example_peer) key = ''b:1''"
  using ring_get_member [of 150 "[''b:1'']" key] by (simp add: example_peer_def)

theorem pushed_ttl_clamped_witness:
  "\<exists>c' x. SetWithTTL al_bolt copy_gzip 1 \<lparr>l1 = NewWithMaxBytes Minute 100 1000, l2 = None, l3 = Some example_peer\<rparr>
      ''k'' ''v'' (10 * Minute) 0 = (c', [PushToOwner x]) \<and> ps_ttl x = 30 * Second"
proof -
  let ?c = "\<lparr>l1 = NewWithMaxBytes Minute 100 1000, l2 = None, l3 = Some example_peer\<rparr>"
  have p: "peers example_peer \<noteq> []" "writeThrough example_peer" "wtMinTTL example_peer = 30 * Second"
    "selfAddr example_peer = ''a:1''" "breakers example_peer = []"
    by (simp_all add: example_peer_def NewPeerCache_def updatePeers_def defaultConfig_def orDefault_def)
  have d: "pb_failures (breakerOf example_peer a) < pb_threshold (breakerOf example_peer a)" for a
    by (simp add: breakerOf_def p newBreaker_def)
  obtain c' where c': "SetWithTTL al_bolt copy_gzip 1 ?c ''k'' ''v'' (10 * Minute) 0 =
      (c', [PushToOwner \<lparr>ps_owner = ''b:1'', ps_key = ''k'', ps_value = ''v'', ps_ttl = 30 * Second\<rparr>])"
    using p d [of "''b:1''"]
    by (auto simp: SetWithTTL_def setWithTTL_def NewWithMaxBytes_def goDiv_def WriteThroughEnabled_def IsOwner_def
        example_peer_owner peer_SetWithTTL_def peerAllowed_def nonOwnerShadowMaxTTL_def Let_def)
  with pushed_ttl_clamped [OF c'] show ?thesis by auto
qed

subsection \<open>Fetching from the owner\<close>

text \<open>The codecs (\<^verbatim>\<open>klauspost/compress\<close>): decoding gives back what was encoded.\<close>

definition codec_laws :: "codec \<Rightarrow> bool" where
  "codec_laws C \<longleftrightarrow>
     (\<forall>x y. zstd_encode C x = Some y \<longrightarrow> zstd_decode C y = Some x) \<and>
     (\<forall>x y. gzip_encode C x = Some y \<longrightarrow> gzip_decode C y = Some x)"

lemma span_digits_all: "(\<And>c. c \<in> set s \<Longrightarrow> of_char c \<in> {48..57 :: nat}) \<Longrightarrow> span_digits s = s"
  by (induction s) (auto simp: less_eq_char_def)

lemma trim_left_digit:
  assumes "of_char c \<in> {48..57 :: nat}"
  shows "trim_left_with unicode_spaces (c # s) = c # s"
proof -
  have "HasPrefix (c # s) p = False" if "p \<in> set unicode_spaces" for p
    using that assms by (auto simp: unicode_spaces_def HasPrefix_def)
  then have "List.find (HasPrefix (c # s)) unicode_spaces = None" by (auto simp: find_None_iff)
  moreover have "\<not> is_ascii_space c" using assms by (auto simp: is_ascii_space_def)
  ultimately show ?thesis by (subst trim_left_with.simps) (simp add: space_prefix_def Let_def)
qed

lemma Sscanf_Itoa:
  assumes "0 \<le> n" "n < 2 ^ 63"
  shows "Sscanf_d (Itoa n) = Some n"
proof -
  let ?s = "nat_digits (nat n)"
  obtain c s where s: "?s = c # s" by (cases ?s) simp_all
  have c: "of_char c \<in> {48..57 :: nat}" using nat_digits_digits [of c "nat n"] s by simp
  have trim: "trim_left_with unicode_spaces ?s = ?s" unfolding s by (rule trim_left_digit [OF c])
  have sign: "\<not> HasPrefix ?s ''-''" "\<not> HasPrefix ?s ''+''" using c by (auto simp: s HasPrefix_def)
  have "span_digits ?s = ?s" by (rule span_digits_all) (rule nat_digits_digits)
  then show ?thesis
    using assms by (simp add: Sscanf_d_def Itoa_def trim sign Let_def del: trim_left_with.simps)
qed

text \<open>
  C36. A value travels from its owner to another replica unchanged, compressed or not, and the replica
  never takes it for longer lived than the owner does: the time to live it is given is that of the
  owner's copy, rounded down to milliseconds.
\<close>

theorem peer_fetch_roundtrip:
  assumes "codec_laws C" "\<not> c_disabled (l1 c)" "held (l1 c) key = Some (v, e)" "key \<noteq> []"
    and "MinUsableTTL \<le> e - now" "e - now < 2 ^ 63" "int (length v) \<le> maxPeerResponseBytes"
    and "writePeerEncodedResponse C acceptEncoding v = Some (enc, body)" "int (length body) \<le> maxPeerResponseBytes"
  shows "\<exists>ttl. fst (fetchFromOwner C pc owner now' (Response (fst (serveGet C c key acceptEncoding now)))) = Some (v, ttl) \<and>
    ttl \<le> e - now \<and> e - now < ttl + Millisecond"
proof -
  define ms where "ms = (e - now) div Millisecond"
  have ms: "0 \<le> ms" "ms * Millisecond \<le> e - now" "e - now < ms * Millisecond + Millisecond"
    using assms(5) by (simp_all add: ms_def MinUsableTTL_def)
  have go: "goDiv (e - now) Millisecond = ms"
    using assms(5) by (simp add: ms_def goDiv_nonneg MinUsableTTL_def)
  have "fst (GetWithTTL (l1 c) key now) = Some (v, e - now)"
    using assms(2,3,5) by (auto simp: GetWithTTL_def held_def MinUsableTTL_def Let_def)
  then obtain m where g: "GetWithTTL (l1 c) key now = (Some (v, e - now), m)" by (metis eq_fst_iff)
  have ttl: "ttlFromHeader (Itoa ms) = ms * Millisecond"
  proof -
    have "Itoa ms \<noteq> []" by (simp add: Itoa_def)
    moreover have "ms < 2 ^ 63" "ms * Millisecond < 2 ^ 63" using ms assms(6) by simp_all
    ultimately show ?thesis using ms(1) by (simp add: ttlFromHeader_def Sscanf_Itoa int64_id)
  qed
  have tok: "ToLower (TrimSpace []) = []" "ToLower (TrimSpace ''zstd'') = ''zstd''" "ToLower (TrimSpace ''gzip'') = ''gzip''"
    by code_simp+
  have dec: "decodePeerResponseBody C enc body maxPeerDecodedBodyBytes = Some v"
    using assms(1,7,8)
    by (auto simp: writePeerEncodedResponse_def decodePeerResponseBody_def codec_laws_def readPeerBodyLimited_def
        maxPeerResponseBytes_def maxPeerDecodedBodyBytes_def tok split: if_splits)
  show ?thesis
    using assms(4,5,8,9) ms dec
    by (auto simp: serveGet_def g go fetchFromOwner_def ttl readPeerBodyLimited_def maxPeerResponseBytes_def Let_def)
qed

theorem peer_fetch_roundtrip_witness:
  "\<exists>ttl. fst (fetchFromOwner copy_codec example_peer ''b:1'' 0
      (Response (fst (serveGet copy_codec
         \<lparr>l1 = SetLocalOnlyWithTTL (NewWithMaxBytes Minute 100 1000) ''k'' ''v'' Minute 0, l2 = Some (disk0 0), l3 = None\<rparr>
         ''k'' ''zstd'' (10 * Second))))) = Some (''v'', ttl) \<and> ttl \<le> 50 * Second"
proof -
  let ?c = "\<lparr>l1 = SetLocalOnlyWithTTL (NewWithMaxBytes Minute 100 1000) ''k'' ''v'' Minute 0, l2 = Some (disk0 0), l3 = None\<rparr>"
  have h: "held (l1 ?c) ''k'' = Some (''v'', Minute)" and d: "\<not> c_disabled (l1 ?c)" by code_simp+
  have C: "codec_laws copy_codec" by (simp add: codec_laws_def copy_codec_def)
  have w: "writePeerEncodedResponse copy_codec ''zstd'' ''v'' = Some ([], ''v'')"
    by (simp add: writePeerEncodedResponse_def peerCompressionMinBytes_def)
  from peer_fetch_roundtrip [OF C d h _ _ _ _ w, of "10 * Second" example_peer "''b:1''" 0]
  show ?thesis by (auto simp: MinUsableTTL_def maxPeerResponseBytes_def)
qed

end
