(* ===== verification/QueryWindows.thy ===== *)
theory QueryWindows
  imports GoStrings
begin

text \<open>
  Windows of a range query, \<^verbatim>\<open>internal/proxy/query_range_windowing.go\<close>: a log query over
  a long range is split into windows that are fetched in batches. Times are nanoseconds in 64 bits;
  where the code adds or subtracts, \<open>int64\<close> wraps around. \<open>Panicked\<close> is a run-time panic.
\<close>

datatype 'a outcome = Done 'a | Panicked

abbreviation MaxInt64 :: int where
  "MaxInt64 \<equiv> 9223372036854775807"

definition goMod :: "int \<Rightarrow> int \<Rightarrow> int" where
  "goMod a b = a - b * goDiv a b"

subsection \<open>Splitting\<close>

record queryRangeWindow =
  startNs :: int
  endNs :: int

definition maxQueryRangeWindows :: nat where
  "maxQueryRangeWindows = 4096"

text \<open>The main loop: the windows so far and the cursor.\<close>

function windowLoop :: "int \<Rightarrow> int \<Rightarrow> queryRangeWindow list \<Rightarrow> int \<Rightarrow> queryRangeWindow list" where
  "windowLoop step end windows cursor =
     (if cursor \<le> end \<and> length windows < maxQueryRangeWindows then
        if cursor = end \<and> windows \<noteq> [] then butlast windows @ [(last windows)\<lparr>endNs := end\<rparr>]
        else let e0 = int64 (cursor + step - 1);
                 windowEnd = (if e0 < cursor \<or> e0 > end then end else e0);
                 windows1 = windows @ [\<lparr>startNs = cursor, endNs = windowEnd\<rparr>]
             in if windowEnd = MaxInt64 then windows1 else windowLoop step end windows1 (int64 (windowEnd + 1))
      else windows)"
  by pat_completeness auto
termination
  by (relation "measure (\<lambda>(step, end, windows, cursor). maxQueryRangeWindows - length windows)") auto

declare windowLoop.simps [simp del]

definition directed :: "string \<Rightarrow> queryRangeWindow list \<Rightarrow> queryRangeWindow list" where
  "directed direction windows = (if direction \<noteq> ''forward'' then rev windows else windows)"

definition splitQueryRangeWindowsWithOptions ::
  "int \<Rightarrow> int \<Rightarrow> int \<Rightarrow> string \<Rightarrow> bool \<Rightarrow> queryRangeWindow list outcome" where
  "splitQueryRangeWindowsWithOptions start end interval direction align =
     (if interval \<le> 0 \<or> end < start then Done []
      else if min (int64 (goDiv (int64 (end - start)) interval + 1)) (int maxQueryRangeWindows) < 0 then Panicked
      else
        let rem0 = goMod start interval;
            rem = (if rem0 < 0 then rem0 + interval else rem0);
            firstEnd0 = int64 (start + (interval - rem) - 1);
            firstEnd = (if firstEnd0 > end then end else firstEnd0)
        in if align \<and> rem0 \<noteq> 0 \<and> firstEnd0 \<ge> start then
             if firstEnd = end then Done (directed direction [\<lparr>startNs = start, endNs = firstEnd\<rparr>])
             else Done (directed direction
                    (windowLoop interval end [\<lparr>startNs = start, endNs = firstEnd\<rparr>] (int64 (firstEnd + 1))))
           else Done (directed direction (windowLoop interval end [] start)))"

definition splitQueryRangeWindows :: "int \<Rightarrow> int \<Rightarrow> int \<Rightarrow> string \<Rightarrow> queryRangeWindow list outcome" where
  "splitQueryRangeWindows start end interval direction =
     splitQueryRangeWindowsWithOptions start end interval direction False"

subsection \<open>Windows tile the range\<close>

fun tiles :: "queryRangeWindow list \<Rightarrow> int \<Rightarrow> int \<Rightarrow> bool" where
  "tiles [] s e = (s = e + 1)"
| "tiles (w # ws) s e = (startNs w = s \<and> s \<le> endNs w \<and> tiles ws (endNs w + 1) e)"

definition covering :: "int \<Rightarrow> queryRangeWindow list \<Rightarrow> nat" where
  "covering t ws = length (filter (\<lambda>w. startNs w \<le> t \<and> t \<le> endNs w) ws)"

lemma tiles_le: "tiles ws s e \<Longrightarrow> s \<le> e + 1"
  by (induction ws s e rule: tiles.induct) auto

lemma tiles_append: "tiles (ws @ vs) s e \<longleftrightarrow> (\<exists>m. tiles ws s m \<and> tiles vs (m + 1) e)"
proof (induction ws arbitrary: s)
  case Nil
  then show ?case by (auto intro: exI [of _ "s - 1"])
qed auto

lemma tiles_snoc: "tiles (ws @ [w]) s e \<longleftrightarrow> tiles ws s (startNs w - 1) \<and> startNs w \<le> endNs w \<and> endNs w = e"
proof -
  have "tiles [w] (m + 1) e \<longleftrightarrow> m = startNs w - 1 \<and> startNs w \<le> endNs w \<and> endNs w = e" for m by auto
  then show ?thesis by (auto simp: tiles_append)
qed

lemma tiles_covering: "tiles ws s e \<Longrightarrow> covering t ws = (if s \<le> t \<and> t \<le> e then 1 else 0)"
proof (induction ws s e rule: tiles.induct)
  case (2 w ws s e)
  then have "covering t ws = (if endNs w + 1 \<le> t \<and> t \<le> e then 1 else 0)" by simp
  moreover have "endNs w \<le> e" using 2 tiles_le [of ws "endNs w + 1" e] by simp
  ultimately show ?case using 2 by (auto simp: covering_def)
qed (simp add: covering_def)

lemma covering_directed [simp]: "covering t (directed d ws) = covering t ws"
  by (simp add: covering_def directed_def rev_filter [symmetric])

text \<open>No window is longer than the interval, but for the last, which may take in one more nanosecond.\<close>

definition within :: "int \<Rightarrow> queryRangeWindow list \<Rightarrow> bool" where
  "within step ws \<longleftrightarrow> (\<forall>w \<in> set ws. endNs w - startNs w \<le> step)"

lemma extend_last:
  assumes "tiles ws s (e - 1)" "ws \<noteq> []"
  shows "tiles (butlast ws @ [(last ws)\<lparr>endNs := e\<rparr>]) s e"
proof -
  obtain vs w where ws: "ws = vs @ [w]" using assms(2) by (cases ws rule: rev_cases) auto
  with assms(1) show ?thesis by (auto simp: tiles_snoc)
qed

lemma int64_over: "2 ^ 63 \<le> x \<Longrightarrow> x < 2 ^ 63 + 2 ^ 64 \<Longrightarrow> int64 x = x - 2 ^ 64"
proof -
  assume x: "2 ^ 63 \<le> x" "x < 2 ^ 63 + 2 ^ 64"
  then have "(x + 2 ^ 63) mod 2 ^ 64 = x + 2 ^ 63 - 2 ^ 64"
    by (subst mod_pos_geq) (auto intro!: mod_pos_pos_trivial)
  then show ?thesis by (simp add: int64_def)
qed

lemma int64_forward:
  assumes "- (2 ^ 63) \<le> a" "a \<le> MaxInt64" "a \<le> x" "x \<le> a + MaxInt64" "a \<le> int64 x"
  shows "int64 x = x"
proof (cases "x < 2 ^ 63")
  case True
  then show ?thesis using assms by (intro int64_id) auto
next
  case False
  then show ?thesis using assms int64_over [of x] by simp
qed

lemma window_end:
  assumes "0 < step" "step \<le> MaxInt64" "- (2 ^ 63) \<le> cursor" "cursor \<le> end" "end \<le> MaxInt64"
  shows "(if int64 (cursor + step - 1) < cursor \<or> int64 (cursor + step - 1) > end then end else int64 (cursor + step - 1)) =
    min end (cursor + step - 1)"
proof (cases "cursor + step - 1 < 2 ^ 63")
  case True
  then have "int64 (cursor + step - 1) = cursor + step - 1" using assms by (intro int64_id) auto
  then show ?thesis using assms by auto
next
  case False
  then have "int64 (cursor + step - 1) = cursor + step - 1 - 2 ^ 64" using assms by (intro int64_over) auto
  then show ?thesis using False assms by auto
qed

lemma loop_step:
  assumes "0 < step" "step \<le> MaxInt64" "- (2 ^ 63) \<le> cursor" "cursor \<le> end" "end \<le> MaxInt64"
    "length windows < maxQueryRangeWindows" "cursor \<noteq> end \<or> windows = []"
  shows "windowLoop step end windows cursor =
    (let e = min end (cursor + step - 1); ws = windows @ [\<lparr>startNs = cursor, endNs = e\<rparr>]
     in if e = MaxInt64 then ws else windowLoop step end ws (e + 1))"
proof -
  have "int64 (min end (cursor + step - 1) + 1) = min end (cursor + step - 1) + 1"
    if "min end (cursor + step - 1) \<noteq> MaxInt64"
    using that assms by (intro int64_id) auto
  then show ?thesis
    using assms(4,6,7) window_end [OF assms(1-5)]
    by (subst windowLoop.simps) (auto simp: Let_def)
qed

lemma loop_tiles:
  assumes "0 < step" "step \<le> MaxInt64" "end \<le> MaxInt64"
  shows "tiles windows s (cursor - 1) \<Longrightarrow> within (step - 1) windows \<Longrightarrow> - (2 ^ 63) \<le> cursor \<Longrightarrow> cursor \<le> end + 1 \<Longrightarrow>
    (cursor \<le> end \<Longrightarrow> int (length windows) + (end - cursor) div step < 4096) \<Longrightarrow>
    tiles (windowLoop step end windows cursor) s end \<and> within step (windowLoop step end windows cursor)"
proof (induction "maxQueryRangeWindows - length windows" arbitrary: windows cursor rule: less_induct)
  case less
  show ?case
  proof (cases "cursor \<le> end")
    case False
    then have "cursor - 1 = end" using less.prems(4) by simp
    with False less.prems show ?thesis by (subst (1 2) windowLoop.simps) (auto simp: within_def)
  next
    case True
    have pos: "0 \<le> (end - cursor) div step" using True assms(1) by (simp add: pos_imp_zdiv_nonneg_iff)
    with less.prems(5) True have len: "length windows < maxQueryRangeWindows" by (auto simp: maxQueryRangeWindows_def)
    show ?thesis
    proof (cases "cursor = end \<and> windows \<noteq> []")
      case ext: True
      obtain vs w where vs: "windows = vs @ [w]" using ext by (cases windows rule: rev_cases) auto
      have "within step (butlast windows @ [(last windows)\<lparr>endNs := end\<rparr>])"
        using less.prems(1,2) ext by (auto simp: vs tiles_snoc within_def)
      then show ?thesis using ext len extend_last [of windows s "end"] less.prems(1)
        by (subst (1 2) windowLoop.simps) auto
    next
      case nx: False
      define e where "e = min end (cursor + step - 1)"
      define ws where "ws = windows @ [\<lparr>startNs = cursor, endNs = e\<rparr>]"
      have e: "cursor \<le> e" "e \<le> end" using True assms(1) by (auto simp: e_def)
      have t: "tiles ws s e" "within (step - 1) ws"
        using less.prems(1,2) e by (auto simp: ws_def tiles_snoc within_def e_def)
      have L: "windowLoop step end windows cursor = (if e = MaxInt64 then ws else windowLoop step end ws (e + 1))"
        using loop_step [OF assms(1,2) less.prems(3) True assms(3) len] nx by (auto simp: e_def ws_def Let_def)
      have "int (length ws) + (end - (e + 1)) div step < 4096" if "e + 1 \<le> end"
      proof -
        have "e = cursor + step - 1" using that by (auto simp: e_def)
        then have "(end - cursor) div step = (end - (e + 1) + step) div step" by simp
        also have "\<dots> = (end - (e + 1)) div step + 1" using assms(1) by (intro div_add_self2) simp
        finally have "(end - (e + 1)) div step = (end - cursor) div step - 1" by simp
        with less.prems(5) [OF True] show ?thesis by (simp add: ws_def)
      qed
      then have "tiles (windowLoop step end ws (e + 1)) s end \<and> within step (windowLoop step end ws (e + 1))"
        if "e \<noteq> MaxInt64"
        using t e less.prems(3) len by (intro less.hyps) (auto simp: ws_def)
      moreover have "e = end" if "e = MaxInt64" using that e assms(3) by simp
      moreover have "within step ws" using t(2) by (auto simp: within_def)
      ultimately show ?thesis using L t by auto
    qed
  qed
qed

lemma loop_starts:
  assumes "0 < step" "step \<le> MaxInt64" "end \<le> MaxInt64"
  shows "- (2 ^ 63) \<le> cursor \<Longrightarrow>
    \<forall>w \<in> set (windowLoop step end windows cursor). startNs w \<in> startNs ` set windows \<or> step dvd startNs w - cursor"
proof (induction "maxQueryRangeWindows - length windows" arbitrary: windows cursor rule: less_induct)
  case less
  show ?case
  proof (cases "cursor \<le> end \<and> length windows < maxQueryRangeWindows")
    case False
    then show ?thesis by (subst windowLoop.simps) auto
  next
    case True
    show ?thesis
    proof (cases "cursor = end \<and> windows \<noteq> []")
      case ext: True
      then have "set (butlast windows) \<subseteq> set windows" "last windows \<in> set windows"
        using in_set_butlastD by (fast, simp)
      with ext True show ?thesis by (subst windowLoop.simps) auto
    next
      case False
      define e where "e = min end (cursor + step - 1)"
      define ws where "ws = windows @ [\<lparr>startNs = cursor, endNs = e\<rparr>]"
      have L: "windowLoop step end windows cursor = (if e = MaxInt64 then ws else windowLoop step end ws (e + 1))"
        using loop_step [OF assms(1,2) less.prems _ assms(3)] True False by (auto simp: e_def ws_def Let_def)
      have IH: "\<forall>w \<in> set (windowLoop step end ws (e + 1)). startNs w \<in> startNs ` set ws \<or> step dvd startNs w - (e + 1)"
        using True less.prems assms(1) by (intro less.hyps) (auto simp: ws_def e_def)
      show ?thesis
      proof (cases "e + 1 = cursor + step")
        case eq: True
        have "step dvd x - cursor" if "step dvd x - (cursor + step)" for x
          using dvd_add [OF that dvd_refl] by simp
        then show ?thesis using L IH unfolding eq by (auto simp: ws_def)
      next
        case False
        then have "windowLoop step end ws (e + 1) = ws" by (subst windowLoop.simps) (auto simp: e_def)
        then show ?thesis using L by (auto simp: ws_def)
      qed
    qed
  qed
qed

lemma dvd_from: "(k :: int) dvd a \<Longrightarrow> k dvd x - a \<Longrightarrow> k dvd x"
  using dvd_add [of k "x - a" a] by simp

lemma goMod_bounds: "0 < b \<Longrightarrow> - b < goMod a b \<and> goMod a b < b"
proof -
  assume b: "0 < b"
  have "goMod a b = (if 0 \<le> a then a mod b else - (- a mod b))"
    using b by (auto simp: goMod_def goDiv_def sgn_if minus_mult_div_eq_mod algebra_simps)
      (simp add: minus_div_mult_eq_mod [symmetric])
  then show ?thesis
    using b pos_mod_bound [OF b, of a] pos_mod_sign [OF b, of a] pos_mod_bound [OF b, of "- a"] pos_mod_sign [OF b, of "- a"]
    by (cases "0 \<le> a") (simp_all del: pos_mod_bound pos_mod_sign)
qed

lemma split_tiles:
  assumes "0 < interval" "interval \<le> MaxInt64" "- (2 ^ 63) \<le> start" "start \<le> end" "end \<le> MaxInt64"
    "end - start < 2 ^ 63" "(end - start) div interval < 4095"
  shows "\<exists>ws. splitQueryRangeWindowsWithOptions start end interval direction align = Done ws \<and>
    tiles (directed direction ws) start end \<and> within interval ws \<and>
    (\<forall>t. covering t ws = (if start \<le> t \<and> t \<le> end then 1 else 0)) \<and>
    (align \<and> start + interval < 2 ^ 63 \<longrightarrow> (\<forall>w \<in> set ws. startNs w = start \<or> interval dvd startNs w))"
proof -
  let ?rem0 = "goMod start interval"
  define rem where "rem = (if ?rem0 < 0 then ?rem0 + interval else ?rem0)"
  define fe0 where "fe0 = int64 (start + (interval - rem) - 1)"
  define fe where "fe = (if fe0 > end then end else fe0)"
  have nn: "0 \<le> (end - start) div interval" using assms by (simp add: pos_imp_zdiv_nonneg_iff)
  have cap: "\<not> min (int64 (goDiv (int64 (end - start)) interval + 1)) (int maxQueryRangeWindows) < 0"
    using assms nn by (simp add: int64_id goDiv_nonneg maxQueryRangeWindows_def)
  have rem: "0 \<le> rem" "rem < interval" "?rem0 \<noteq> 0 \<Longrightarrow> 0 < rem" "interval dvd start - rem"
    using goMod_bounds [OF assms(1), of start] by (auto simp: rem_def goMod_def)
  define ws where "ws = (if align \<and> ?rem0 \<noteq> 0 \<and> fe0 \<ge> start
      then if fe = end then [\<lparr>startNs = start, endNs = fe\<rparr>]
           else windowLoop interval end [\<lparr>startNs = start, endNs = fe\<rparr>] (int64 (fe + 1))
      else windowLoop interval end [] start)"
  have split: "splitQueryRangeWindowsWithOptions start end interval direction align = Done (directed direction ws)"
    using assms(1,4) cap
    unfolding splitQueryRangeWindowsWithOptions_def ws_def fe_def fe0_def rem_def by (simp add: Let_def)
  have first: "fe0 = start + (interval - rem) - 1" if "fe0 \<ge> start"
    using that rem assms unfolding fe0_def by (intro int64_forward [of start]) auto
  have fe: "start \<le> fe" "fe \<le> end" "fe - start \<le> interval - 1" if "fe0 \<ge> start"
    using that first [OF that] rem assms by (auto simp: fe_def)
  have next_start: "int64 (fe + 1) = fe + 1" if "fe0 \<ge> start" "fe \<noteq> end"
    using that fe [OF that(1)] assms by (intro int64_id) auto
  have "tiles ws start end \<and> within interval ws"
  proof (cases "align \<and> ?rem0 \<noteq> 0 \<and> fe0 \<ge> start")
    case False
    then have "ws = windowLoop interval end [] start" by (auto simp: ws_def)
    moreover have "tiles (windowLoop interval end [] start) start end \<and> within interval (windowLoop interval end [] start)"
      using assms by (intro loop_tiles) (auto simp: within_def)
    ultimately show ?thesis by simp
  next
    case True
    have "(end - (fe + 1)) div interval \<le> (end - start) div interval" using fe True assms(1) by (intro zdiv_mono1) auto
    then have "tiles (windowLoop interval end [\<lparr>startNs = start, endNs = fe\<rparr>] (fe + 1)) start end \<and>
        within interval (windowLoop interval end [\<lparr>startNs = start, endNs = fe\<rparr>] (fe + 1))"
      using fe True assms by (intro loop_tiles) (auto simp: within_def)
    then show ?thesis using True fe next_start by (auto simp: ws_def within_def)
  qed
  moreover have "\<forall>w \<in> set ws. startNs w = start \<or> interval dvd startNs w" if a: "align" "start + interval < 2 ^ 63"
  proof (cases "?rem0 = 0")
    case True
    then have "start = interval * goDiv start interval" by (simp add: goMod_def)
    then have "interval dvd start" by (rule dvdI)
    moreover have "\<forall>w \<in> set ws. interval dvd startNs w - start"
      using True loop_starts [OF assms(1,2,5,3), of "[]"] by (simp add: ws_def)
    ultimately show ?thesis using dvd_from by blast
  next
    case False
    have ge: "fe0 \<ge> start" using a(2) rem assms by (simp add: fe0_def int64_id)
    have "interval dvd fe + 1" if "fe \<noteq> end"
    proof -
      have "fe + 1 = start - rem + interval" using that first [OF ge] by (auto simp: fe_def split: if_splits)
      then show ?thesis using rem(4) by simp
    qed
    moreover have "\<forall>w \<in> set ws. startNs w = start \<or> fe \<noteq> end \<and> interval dvd startNs w - (fe + 1)"
      using False a(1) ge fe next_start loop_starts [OF assms(1,2,5), of "fe + 1" "[\<lparr>startNs = start, endNs = fe\<rparr>]"] assms(3)
      by (simp add: ws_def)
    ultimately show ?thesis using dvd_from by blast
  qed
  ultimately show ?thesis
    using split tiles_covering [of ws start "end"] covering_directed [of _ direction ws]
    by (auto simp: directed_def within_def simp del: covering_directed)
qed



lemma loop_truncated:
  assumes "0 < step" "step \<le> MaxInt64" "- (2 ^ 63) \<le> s" "end \<le> MaxInt64" "s + 4096 * step \<le> end"
  shows "length windows \<le> 4096 \<Longrightarrow> tiles windows s (s + int (length windows) * step - 1) \<Longrightarrow>
    tiles (windowLoop step end windows (s + int (length windows) * step)) s (s + 4096 * step - 1)"
proof (induction "4096 - length windows" arbitrary: windows)
  case 0
  then show ?case by (subst windowLoop.simps) (simp add: maxQueryRangeWindows_def)
next
  case (Suc n)
  let ?c = "s + int (length windows) * step"
  have k: "int (length windows) + 1 \<le> 4096" using Suc.hyps(2) by simp
  have "(int (length windows) + 1) * step \<le> 4096 * step" using k assms(1) by (intro mult_right_mono) auto
  then have c: "?c + step \<le> end" using assms(5) by (simp add: algebra_simps)
  have "0 \<le> int (length windows) * step" using assms(1) by simp
  then have lo: "- (2 ^ 63) \<le> ?c" using assms(3) by linarith
  define ws where "ws = windows @ [\<lparr>startNs = ?c, endNs = ?c + step - 1\<rparr>]"
  have "windowLoop step end windows ?c = windowLoop step end ws (?c + step)"
    using loop_step [OF assms(1,2) lo _ assms(4)] c assms(1,4) k by (auto simp: ws_def maxQueryRangeWindows_def Let_def min_def)
  also have "?c + step = s + int (length ws) * step" by (simp add: ws_def algebra_simps)
  also have "tiles (windowLoop step end ws (s + int (length ws) * step)) s (s + 4096 * step - 1)"
    using Suc.hyps(2) Suc.prems assms(1) by (intro Suc.hyps(1)) (auto simp: ws_def tiles_snoc algebra_simps)
  finally show ?case .
qed

text \<open>
  A range of 4096 intervals or more is cut at its newer end: the windows cover the first 4096 intervals
  and nothing behind them, in both directions. With the default interval of an hour, a query over
  more than 170 days returns no entry of the days behind, newest first or not.
\<close>

theorem windows_truncated:
  assumes "0 < interval" "- (2 ^ 63) \<le> start" "end \<le> MaxInt64" "end - start < MaxInt64" "start + 4096 * interval \<le> end"
  shows "\<exists>ws. splitQueryRangeWindows start end interval direction = Done ws \<and>
    tiles (directed direction ws) start (start + 4096 * interval - 1) \<and>
    (\<forall>t. start + 4096 * interval \<le> t \<longrightarrow> covering t ws = 0)"
proof -
  have "0 \<le> (end - start) div interval" using assms by (simp add: pos_imp_zdiv_nonneg_iff)
  moreover have "(end - start) div interval \<le> end - start" using assms zdiv_mono2 [of "end - start" 1 interval] by simp
  ultimately have cap: "\<not> min (int64 (goDiv (int64 (end - start)) interval + 1)) (int maxQueryRangeWindows) < 0"
    using assms by (simp add: int64_id goDiv_nonneg maxQueryRangeWindows_def)
  let ?ws = "windowLoop interval end [] start"
  have t: "tiles ?ws start (start + 4096 * interval - 1)"
    using loop_truncated [OF assms(1) _ assms(2,3,5), of "[]"] assms by simp
  moreover have "splitQueryRangeWindows start end interval direction = Done (directed direction ?ws)"
    using assms cap by (simp add: splitQueryRangeWindows_def splitQueryRangeWindowsWithOptions_def Let_def)
  ultimately show ?thesis
    using tiles_covering [OF t] covering_directed [of _ direction ?ws] by (auto simp: directed_def simp del: covering_directed)
qed

theorem windows_truncated_witness:
  "(0 :: int) < 3600000000000 \<and> 0 + 4096 * 3600000000000 \<le> (17280000000000000 :: int) \<and>
   (\<exists>ws. splitQueryRangeWindows 0 17280000000000000 3600000000000 ''backward'' = Done ws \<and>
      covering 17280000000000000 ws = 0)"
  using windows_truncated [of 3600000000000 0 17280000000000000 "''backward''"] by auto

text \<open>
  C31. A range of \<open>2 ^ 63\<close> nanoseconds or more wraps around when its length is taken, and the split panics with a
  negative capacity instead of reporting an error.
\<close>

theorem split_panics_on_overflow:
  assumes "0 < interval" "2 ^ 63 \<le> end - start" "end - start \<le> 2 ^ 64 - 2 * interval"
  shows "splitQueryRangeWindowsWithOptions start end interval direction align = Panicked"
proof -
  define x where "x = end - start - 2 ^ 64"
  have x: "int64 (end - start) = x" "x \<le> - 2 * interval" "- (2 ^ 63) \<le> x"
    using assms by (simp_all add: x_def int64_over)
  have "2 \<le> - x div interval" using x(2) assms(1) zdiv_mono1 [of "2 * interval" "- x" interval] by simp
  moreover have "- x div interval \<le> - x" using x(2) assms(1) zdiv_mono2 [of "- x" 1 interval] by simp
  moreover have "goDiv x interval = - (- x div interval)" using x(2) assms(1) by (simp add: goDiv_def sgn_if)
  ultimately have "int64 (goDiv x interval + 1) < 0" using x(3) by (subst int64_id) auto
  then show ?thesis
    using assms x(1) by (simp add: splitQueryRangeWindowsWithOptions_def)
qed

theorem split_panics_on_overflow_witness:
  "(2 :: int) ^ 63 \<le> 9000000000000000000 - (- 9000000000000000000) \<and>
   splitQueryRangeWindowsWithOptions (- 9000000000000000000) 9000000000000000000 3600000000000 ''backward'' False = Panicked"
  using split_panics_on_overflow [of 3600000000000 9000000000000000000 "- 9000000000000000000" "''backward''" False] by simp

end
