(* ===== verification/WindowFetch.thy ===== *)
theory WindowFetch
  imports TieredCache QueryWindows CircuitBreaker
begin

text \<open>
  Fetching the windows of a range query, the part of
  \<^verbatim>\<open>internal/proxy/query_range_windowing.go\<close> after the split: each window is looked up in the
  cache, else fetched from the backend behind the circuit breaker, with retries; windows are fetched
  in batches that shrink when the backend fails, and their entries are collected up to the limit.

  \<^item> The entries are of any type \<open>'e\<close>. The answers of the backend are the argument \<open>reply\<close>: the
    answer to the \<open>n\<close>-th request of the process, for a window and a limit. \<open>ctxErr n\<close> is the state of
    the request's context after the \<open>n\<close>-th request, \<open>clock n\<close> the time.
  \<^item> The cache is used through \<open>get\<close> and \<open>put\<close>, which are \<^verbatim>\<open>Cache.Get\<close> and
    \<^verbatim>\<open>Cache.SetLocalOnlyWithTTL\<close>; \<open>enc\<close> and \<open>dec\<close> are JSON with zstd.
  \<^item> The windows of a batch are fetched by goroutines of an \<^verbatim>\<open>errgroup\<close>; here they take turns in the
    order of the batch, and the first error is the error of the batch.
  \<^item> Metrics, logging and the waiting between retries are left out.
\<close>

subsection \<open>Errors\<close>

text \<open>\<^verbatim>\<open>strings.Contains\<close>.\<close>

fun Contains :: "string \<Rightarrow> string \<Rightarrow> bool" where
  "Contains [] sub = (sub = [])"
| "Contains (c # s) sub = (HasPrefix (c # s) sub \<or> Contains s sub)"

text \<open>
  What the code asks of an error: whether it is \<^verbatim>\<open>context.Canceled\<close> or
  \<^verbatim>\<open>context.DeadlineExceeded\<close>, whether it is a timeout of the network, the HTTP status it
  carries, and its text.
\<close>

record fetchErr =
  isCanceled :: bool
  isDeadline :: bool
  isNetTimeout :: bool
  errStatus :: "int option"
  errText :: string

definition isCanceledErr :: "fetchErr \<Rightarrow> bool" where
  "isCanceledErr e \<longleftrightarrow> isCanceled e \<or> Contains (ToLower (errText e)) ''context canceled''"

definition retryableStatus :: "int \<Rightarrow> bool" where
  "retryableStatus code \<longleftrightarrow> code \<in> {429, 500, 502, 503, 504}"

definition shouldRetryQueryRangeWindow :: "fetchErr \<Rightarrow> bool" where
  "shouldRetryQueryRangeWindow e =
     (if isCanceledErr e then False
      else if isDeadline e then True
      else if isNetTimeout e then True
      else if (case errStatus e of Some code \<Rightarrow> retryableStatus code | None \<Rightarrow> False) then True
      else let lower = ToLower (errText e)
           in if Contains lower ''circuit breaker'' then False
              else Contains lower ''backend unavailable'' \<or> Contains lower ''all the 1 backends'' \<or>
                   Contains lower ''connection refused'' \<or> Contains lower ''connection reset'' \<or>
                   Contains lower ''timeout'' \<or> Contains lower ''temporarily unavailable'')"

definition shouldRecordBreakerFailure :: "fetchErr option \<Rightarrow> fetchErr \<Rightarrow> bool" where
  "shouldRecordBreakerFailure ctx e =
     (if ctx \<noteq> None then False
      else if errStatus e \<noteq> None then False
      else if isCanceledErr e \<or> isDeadline e then False
      else if isNetTimeout e then False
      else let lower = ToLower (errText e)
           in \<not> (Contains lower ''context canceled'' \<or> Contains lower ''deadline exceeded'' \<or> Contains lower ''timeout''))"

definition breakerOpenErr :: fetchErr where
  "breakerOpenErr =
     \<lparr>isCanceled = False, isDeadline = False, isNetTimeout = False, errStatus = None,
      errText = ''circuit breaker open '' @ [CHR 0xE2, CHR 0x80, CHR 0x94] @ '' backend unavailable''\<rparr>"

subsection \<open>Cache keys and times to live\<close>

definition FormatBool :: "bool \<Rightarrow> string" where
  "FormatBool b = (if b then ''true'' else ''false'')"

record windowRequest =
  wr_tenant :: string
  wr_logsql :: string
  wr_direction :: string
  wr_limit :: string
  wr_categorized :: bool
  wr_emitMetadata :: bool
  wr_shape :: string
  wr_auth :: string

definition logLineCacheKeyVersion :: string where
  "logLineCacheKeyVersion = ''line-v3''"

definition queryRangeWindowCacheKey :: "windowRequest \<Rightarrow> queryRangeWindow \<Rightarrow> string" where
  "queryRangeWindowCacheKey r w =
     Join ([''query_range_window'', wr_tenant r, logLineCacheKeyVersion, wr_logsql r, wr_direction r, wr_limit r,
            Itoa (startNs w), Itoa (endNs w), FormatBool (wr_categorized r), FormatBool (wr_emitMetadata r),
            ''shape='' @ wr_shape r] @ (if wr_auth r \<noteq> [] then [''auth:'' @ wr_auth r] else [])) '':''"

definition queryRangeWindowTTL :: "duration \<Rightarrow> duration \<Rightarrow> duration \<Rightarrow> time \<Rightarrow> int \<Rightarrow> duration" where
  "queryRangeWindowTTL freshness history recent now windowEnd =
     (if windowEnd \<le> now - freshness then history else recent)"

definition queryRangeRetryMinBackoff :: duration where
  "queryRangeRetryMinBackoff = 100 * Millisecond"

definition queryRangeRetryMaxBackoff :: duration where
  "queryRangeRetryMaxBackoff = 5 * Second"

definition queryRangeWindowRetryBackoff :: "int \<Rightarrow> duration" where
  "queryRangeWindowRetryBackoff attempt0 =
     (let attempt = (if attempt0 < 1 then 1 else attempt0);
          backoff = int64 (queryRangeRetryMinBackoff * 2 ^ nat (attempt - 1))
      in if backoff > queryRangeRetryMaxBackoff then queryRangeRetryMaxBackoff else backoff)"

definition queryRangeWindowFetchAttempts :: nat where
  "queryRangeWindowFetchAttempts = 5"

definition queryRangeBatchRetryAttempts :: nat where
  "queryRangeBatchRetryAttempts = 3"

subsection \<open>One window\<close>

datatype 'e reply = Rows "'e list" | Fault fetchErr

record ('s, 'b, 'e) fetchEnv =
  get :: "'s \<Rightarrow> string \<Rightarrow> time \<Rightarrow> 'b option \<times> 's"
  put :: "'s \<Rightarrow> string \<Rightarrow> 'b \<Rightarrow> duration \<Rightarrow> time \<Rightarrow> 's"
  enc :: "'e list \<Rightarrow> 'b option"
  dec :: "'b \<Rightarrow> 'e list option"
  reply :: "nat \<Rightarrow> queryRangeWindow \<Rightarrow> int \<Rightarrow> 'e reply"
  ctxErr :: "nat \<Rightarrow> fetchErr option"
  clock :: "nat \<Rightarrow> time"
  ttlOf :: "time \<Rightarrow> int \<Rightarrow> duration"
  partialResponses :: bool

record 's fetchState =
  store :: 's
  breaker :: circuitBreaker
  sent :: nat

datatype 'e attempt_end = Fetched "'e list" | GaveUp fetchErr | Aborted fetchErr

text \<open>The loop over the attempts.\<close>

function attempts ::
  "('s, 'b, 'e) fetchEnv \<Rightarrow> string \<Rightarrow> queryRangeWindow \<Rightarrow> int \<Rightarrow> nat \<Rightarrow> 's fetchState \<Rightarrow> 'e attempt_end \<times> 's fetchState" where
  "attempts E key w limit attempt st =
     (let n = sent st; st1 = st\<lparr>sent := n + 1\<rparr>
      in case reply E n w limit of
           Rows es \<Rightarrow>
             let st2 = st1\<lparr>breaker := RecordSuccess (breaker st1)\<rparr>;
                 ttl = ttlOf E (clock E n) (endNs w)
             in (Fetched es,
                 if ttl > 0 then (case enc E es of
                                    Some b \<Rightarrow> st2\<lparr>store := put E (store st2) key b ttl (clock E n)\<rparr>
                                  | None \<Rightarrow> st2)
                 else st2)
         | Fault e \<Rightarrow>
             if attempt \<ge> queryRangeWindowFetchAttempts \<or> \<not> shouldRetryQueryRangeWindow e then (GaveUp e, st1)
             else case ctxErr E n of
                    Some c \<Rightarrow> (Aborted c, st1)
                  | None \<Rightarrow> attempts E key w limit (attempt + 1) st1)"
  by pat_completeness auto
termination
  by (relation "measure (\<lambda>(E, key, w, limit, attempt, st). queryRangeWindowFetchAttempts - attempt)") auto

declare attempts.simps [simp del]

definition fetchQueryRangeWindow ::
  "('s, 'b, 'e) fetchEnv \<Rightarrow> windowRequest \<Rightarrow> int \<Rightarrow> queryRangeWindow \<Rightarrow> 's fetchState
     \<Rightarrow> (fetchErr + 'e list) \<times> 's fetchState" where
  "fetchQueryRangeWindow E r windowLimit w st =
     (let key = queryRangeWindowCacheKey r w;
          now = clock E (sent st);
          (cached, s1) = get E (store st) key now;
          st1 = st\<lparr>store := s1\<rparr>
      in case Option.bind cached (dec E) of
           Some es \<Rightarrow> (Inr es, st1)
         | None \<Rightarrow>
             let (ok, br) = Allow (breaker st1) now;
                 st2 = st1\<lparr>breaker := br\<rparr>
             in if \<not> ok then (Inl breakerOpenErr, st2)
                else let (r1, st3) = attempts E key w windowLimit 1 st2
                     in case r1 of
                          Fetched es \<Rightarrow> (Inr es, st3)
                        | Aborted c \<Rightarrow> (Inl c, st3)
                        | GaveUp e \<Rightarrow>
                            (Inl e,
                             if shouldRecordBreakerFailure (ctxErr E (sent st3 - 1)) e
                             then st3\<lparr>breaker := RecordFailure (breaker st3) (clock E (sent st3 - 1))\<rparr> else st3))"

subsection \<open>Batches\<close>

fun batchLoop ::
  "('s, 'b, 'e) fetchEnv \<Rightarrow> windowRequest \<Rightarrow> int \<Rightarrow> queryRangeWindow list \<Rightarrow> 's fetchState
     \<Rightarrow> (fetchErr + 'e list list) \<times> 's fetchState" where
  "batchLoop E r limit [] st = (Inr [], st)"
| "batchLoop E r limit (w # ws) st =
     (let (r1, st1) = fetchQueryRangeWindow E r limit w st;
          (r2, st2) = batchLoop E r limit ws st1
      in (case r1 of
            Inl e \<Rightarrow> Inl e
          | Inr es \<Rightarrow> (case r2 of Inl e \<Rightarrow> Inl e | Inr ess \<Rightarrow> Inr (es # ess)), st2))"

definition fetchQueryRangeWindowBatch ::
  "('s, 'b, 'e) fetchEnv \<Rightarrow> windowRequest \<Rightarrow> queryRangeWindow list \<Rightarrow> int \<Rightarrow> 's fetchState
     \<Rightarrow> (fetchErr + 'e list list) \<times> 's fetchState" where
  "fetchQueryRangeWindowBatch E r ws limitForBatch st =
     batchLoop E r (if limitForBatch \<le> 0 then 1 else limitForBatch) ws st"

datatype 'e batch_end =
    BatchDone "'e list list" nat
  | BatchPartial nat
  | BatchTimeout fetchErr
  | BatchError fetchErr

text \<open>The inner loop of \<open>proxyLogQueryWindowed\<close>: a batch, halved or repeated while errors allow it.\<close>

function retryBatch ::
  "('s, 'b, 'e) fetchEnv \<Rightarrow> windowRequest \<Rightarrow> queryRangeWindow list \<Rightarrow> int \<Rightarrow> nat \<Rightarrow> nat \<Rightarrow> 's fetchState
     \<Rightarrow> 'e batch_end \<times> 's fetchState" where
  "retryBatch E r ws remaining batchSize retryAttempt st =
     (let (res, st1) = fetchQueryRangeWindowBatch E r (take batchSize ws) remaining st
      in case res of
           Inr results \<Rightarrow> (BatchDone results batchSize, st1)
         | Inl e \<Rightarrow>
             let retryable = shouldRetryQueryRangeWindow e
             in if retryable \<and> batchSize > 1 then
                  (case ctxErr E (sent st1) of
                     Some c \<Rightarrow> (BatchTimeout c, st1)
                   | None \<Rightarrow> retryBatch E r ws remaining (max 1 (batchSize div 2)) (retryAttempt + 1) st1)
                else if retryable \<and> batchSize = 1 \<and> retryAttempt < queryRangeBatchRetryAttempts then
                  (case ctxErr E (sent st1) of
                     Some c \<Rightarrow> (BatchTimeout c, st1)
                   | None \<Rightarrow> retryBatch E r ws remaining batchSize (retryAttempt + 1) st1)
                else if retryable \<and> partialResponses E then (BatchPartial batchSize, st1)
                else (BatchError e, st1))"
  by pat_completeness auto
termination
  by (relation "measures [\<lambda>(E, r, ws, remaining, batchSize, retryAttempt, st). batchSize,
      \<lambda>(E, r, ws, remaining, batchSize, retryAttempt, st). queryRangeBatchRetryAttempts - retryAttempt]") auto

declare retryBatch.simps [simp del]

text \<open>The entries of the results are collected up to the limit; the second number is what remains.\<close>

fun mergeResults :: "nat \<Rightarrow> 'e list \<Rightarrow> nat \<Rightarrow> 'e list list \<Rightarrow> 'e list \<times> nat" where
  "mergeResults limit collected remaining [] = (collected, remaining)"
| "mergeResults limit collected remaining (es # results) =
     (if es = [] then mergeResults limit collected remaining results
      else let collected1 = collected @ es
           in if length collected1 \<ge> limit then (take limit collected1, 0)
              else mergeResults limit collected1 (limit - length collected1) results)"

datatype 'e query_end = Answer "'e list" bool | RequestTimeout fetchErr | QueryError fetchErr

definition firstBatch :: "int \<Rightarrow> queryRangeWindow list \<Rightarrow> nat" where
  "firstBatch parallel ws = (let b = min parallel (int (length ws)) in if b \<le> 0 then 1 else nat b)"

text \<open>
  The outer loop of \<open>proxyLogQueryWindowed\<close>. \<open>parallel n\<close> is what
  \<open>queryRangeWindowBatchParallelLimit\<close> says when \<open>n\<close> requests have been sent. A batch that is given
  up under partial responses is skipped, and the loop goes on with the windows after it.
\<close>

function collect ::
  "('s, 'b, 'e) fetchEnv \<Rightarrow> windowRequest \<Rightarrow> (nat \<Rightarrow> int) \<Rightarrow> nat \<Rightarrow> queryRangeWindow list \<Rightarrow> 'e list \<Rightarrow> nat \<Rightarrow> bool
     \<Rightarrow> 's fetchState \<Rightarrow> 'e query_end \<times> 's fetchState" where
  "collect E r parallel limit ws collected remaining isPartial st =
     (if ws = [] \<or> remaining = 0 then (Answer collected isPartial, st)
      else let (res, st1) = retryBatch E r ws (int remaining) (firstBatch (parallel (sent st)) ws) 0 st
           in case res of
                BatchDone results n \<Rightarrow>
                  let (collected1, remaining1) = mergeResults limit collected remaining results
                  in collect E r parallel limit (drop (max 1 n) ws) collected1 remaining1 isPartial st1
              | BatchPartial n \<Rightarrow> collect E r parallel limit (drop (max 1 n) ws) collected remaining True st1
              | BatchTimeout c \<Rightarrow> (RequestTimeout c, st1)
              | BatchError e \<Rightarrow> (QueryError e, st1))"
  by pat_completeness auto
termination
  by (relation "measure (\<lambda>(E, r, parallel, limit, ws, collected, remaining, isPartial, st). length ws)") auto

declare collect.simps [simp del]

definition proxyLogQueryWindowed ::
  "('s, 'b, 'e) fetchEnv \<Rightarrow> windowRequest \<Rightarrow> (nat \<Rightarrow> int) \<Rightarrow> nat \<Rightarrow> queryRangeWindow list \<Rightarrow> 's fetchState
     \<Rightarrow> 'e query_end \<times> 's fetchState" where
  "proxyLogQueryWindowed E r parallel limit ws st = collect E r parallel limit ws [] limit False st"

subsection \<open>The cache as a store of fragments\<close>

lemma split_unique:
  "x @ c # y = x' @ c # y' \<Longrightarrow> c \<notin> set x \<Longrightarrow> c \<notin> set x' \<Longrightarrow> x = x' \<and> y = y'"
proof (induction x arbitrary: x')
  case Nil
  then show ?case by (cases x') auto
next
  case (Cons a x)
  then show ?case by (cases x') auto
qed

lemma Itoa_no_colon: "CHR '':'' \<notin> set (Itoa n)"
proof
  assume "CHR '':'' \<in> set (Itoa n)"
  then show False
    using nat_digits_digits [of "CHR '':''"] by (fastforce simp: Itoa_def split: if_splits)
qed

lemma window_key_inj:
  assumes "queryRangeWindowCacheKey r w = queryRangeWindowCacheKey r w'"
  shows "w = w'"
proof -
  have "Itoa (startNs w) @ CHR '':'' # Itoa (endNs w) = Itoa (startNs w') @ CHR '':'' # Itoa (endNs w')"
    using assms by (simp add: queryRangeWindowCacheKey_def)
  from split_unique [OF this Itoa_no_colon Itoa_no_colon] show ?thesis
    by (cases w, cases w') (auto dest: Itoa_inj)
qed

text \<open>Fragments that are long enough give the same first entries as the windows themselves.\<close>

definition prefixes :: "(queryRangeWindow \<Rightarrow> 'e list) \<Rightarrow> nat \<Rightarrow> 'e list list \<Rightarrow> queryRangeWindow list \<Rightarrow> bool" where
  "prefixes rows n = list_all2 (\<lambda>es w. \<exists>m\<ge>n. es = take m (rows w))"

lemma prefixes_take:
  "prefixes rows n results ws \<Longrightarrow> k \<le> n \<Longrightarrow> take k (concat results) = take k (concat (map rows ws))"
  unfolding prefixes_def
proof (induction arbitrary: k rule: list_all2_induct)
  case (Cons es ess w ws)
  then obtain m where m: "n \<le> m" "es = take m (rows w)" by blast
  show ?case
  proof (cases "length (rows w) \<le> m")
    case True
    then show ?thesis using Cons.IH [of "k - length (rows w)"] Cons.prems m by simp
  next
    case False
    then show ?thesis using Cons.prems m by (simp add: min_absorb1)
  qed
qed simp

lemma take_take_append: "take n (take n xs @ ys) = take n (xs @ ys)"
  by (cases "n \<le> length xs") auto

lemma mergeResults_spec:
  assumes "length collected + remaining = limit"
  shows "mergeResults limit collected remaining results =
    (take limit (collected @ concat results), limit - length (take limit (collected @ concat results)))"
  using assms
proof (induction results arbitrary: collected remaining)
  case (Cons es results)
  show ?case
  proof (cases "limit \<le> length (collected @ es)")
    case True
    then show ?thesis
      using Cons.prems Cons.IH [of collected remaining] by (cases "es = []") auto
  next
    case False
    then show ?thesis
      using Cons.prems Cons.IH [of collected remaining]
        Cons.IH [of "collected @ es" "limit - length (collected @ es)"] by (cases "es = []") auto
  qed
qed auto

text \<open>
  The backend answers with the first entries of the window, up to the limit of the request, and the
  encoding of fragments can be undone.
\<close>

definition honest :: "('s, 'b, 'e) fetchEnv \<Rightarrow> (queryRangeWindow \<Rightarrow> 'e list) \<Rightarrow> bool" where
  "honest E rows \<longleftrightarrow>
     (\<forall>n w limit es. reply E n w limit = Rows es \<longrightarrow> es = take (nat limit) (rows w)) \<and>
     (\<forall>es b. enc E es = Some b \<longrightarrow> dec E b = Some es)"

text \<open>Every fragment of the request's windows is the first entries of the window, \<open>n\<close> or more.\<close>

definition complete ::
  "('s, 'b, 'e) fetchEnv \<Rightarrow> ('s \<Rightarrow> string \<Rightarrow> 'b \<Rightarrow> bool) \<Rightarrow> ('s \<Rightarrow> bool) \<Rightarrow> windowRequest
     \<Rightarrow> (queryRangeWindow \<Rightarrow> 'e list) \<Rightarrow> nat \<Rightarrow> 's \<Rightarrow> bool" where
  "complete E holds ok r rows n s \<longleftrightarrow> ok s \<and>
     (\<forall>w b. holds s (queryRangeWindowCacheKey r w) b \<longrightarrow> (\<exists>m\<ge>n. dec E b = Some (take m (rows w))))"

text \<open>
  What the fetching relies on: \<open>holds s k b\<close> says that a read of \<open>k\<close> may return \<open>b\<close>. Reads return
  what the store holds, and nothing comes in but by \<open>put\<close>; entries may disappear at any time.
\<close>

locale fragment_store =
  fixes E :: "('s, 'b, 'e) fetchEnv"
    and holds :: "'s \<Rightarrow> string \<Rightarrow> 'b \<Rightarrow> bool"
    and ok :: "'s \<Rightarrow> bool"
  assumes get_holds: "ok s \<Longrightarrow> fst (get E s k t) = Some b \<Longrightarrow> holds s k b"
    and get_ok: "ok s \<Longrightarrow> ok (snd (get E s k t))"
    and get_keeps: "ok s \<Longrightarrow> holds (snd (get E s k t)) k' b \<Longrightarrow> holds s k' b"
    and put_ok: "ok s \<Longrightarrow> ok (put E s k b ttl t)"
    and put_keeps: "ok s \<Longrightarrow> holds (put E s k b ttl t) k' b' \<Longrightarrow> holds s k' b' \<or> k' = k \<and> b' = b"
begin

lemma honest_reply: "honest E rows \<Longrightarrow> reply E k w (int n) = Rows es \<Longrightarrow> es = take n (rows w)"
  unfolding honest_def by (metis nat_int)

lemma complete_mono: "complete E holds ok r rows n s \<Longrightarrow> m \<le> n \<Longrightarrow> complete E holds ok r rows m s"
  unfolding complete_def using le_trans by blast

lemma completeD:
  "complete E holds ok r rows n s \<Longrightarrow> holds s (queryRangeWindowCacheKey r w) b \<Longrightarrow> dec E b = Some es \<Longrightarrow> \<exists>m\<ge>n. es = take m (rows w)"
  unfolding complete_def by (metis option.inject)

lemma complete_get: "complete E holds ok r rows n s \<Longrightarrow> complete E holds ok r rows n (snd (get E s k t))"
  unfolding complete_def using get_ok get_keeps by blast

lemma complete_put:
  assumes "complete E holds ok r rows n s" "dec E b = Some (take m (rows w))" "n \<le> m"
  shows "complete E holds ok r rows n (put E s (queryRangeWindowCacheKey r w) b ttl t)"
  unfolding complete_def
proof (intro conjI allI impI)
  have ok: "ok s" using assms(1) by (simp add: complete_def)
  then show "ok (put E s (queryRangeWindowCacheKey r w) b ttl t)" by (rule put_ok)
  fix w' b'
  assume "holds (put E s (queryRangeWindowCacheKey r w) b ttl t) (queryRangeWindowCacheKey r w') b'"
  from put_keeps [OF ok this] show "\<exists>m\<ge>n. dec E b' = Some (take m (rows w'))"
    using assms by (auto simp: complete_def dest!: window_key_inj)
qed

lemma attempts_spec:
  assumes "honest E rows" "complete E holds ok r rows n (store st)" "0 < n"
    and "attempts E (queryRangeWindowCacheKey r w) w (int n) a st = (x, st')"
  shows "complete E holds ok r rows n (store st') \<and> (\<forall>es. x = Fetched es \<longrightarrow> es = take n (rows w))"
  using assms(2,4)
proof (induction "queryRangeWindowFetchAttempts - a" arbitrary: a st rule: less_induct)
  case less
  note step = less.prems(2) [unfolded attempts.simps [of E _ w "int n" a st] Let_def]
  show ?case
  proof (cases "reply E (sent st) w (int n)")
    case (Rows es)
    have es: "es = take n (rows w)" by (rule honest_reply [OF assms(1) Rows])
    have "complete E holds ok r rows n (put E (store st) (queryRangeWindowCacheKey r w) b ttl t)" if "enc E es = Some b" for b ttl t
      using complete_put [OF less.prems(1), of b n w] that assms(1) es by (auto simp: honest_def)
    then show ?thesis
      using step Rows es less.prems(1) by (auto split: if_splits option.splits)
  next
    case (Fault e)
    show ?thesis
    proof (cases "queryRangeWindowFetchAttempts \<le> a \<or> \<not> shouldRetryQueryRangeWindow e \<or> ctxErr E (sent st) \<noteq> None")
      case True
      then show ?thesis using step Fault less.prems(1) by (auto split: if_splits option.splits)
    next
      case False
      then have "queryRangeWindowFetchAttempts - (a + 1) < queryRangeWindowFetchAttempts - a" by linarith
      with False show ?thesis
        using step Fault less.prems(1) less.hyps [of "a + 1" "st\<lparr>sent := sent st + 1\<rparr>"] by simp
    qed
  qed
qed

lemma fetch_spec:
  assumes "honest E rows" "complete E holds ok r rows n (store st)" "0 < n" "fetchQueryRangeWindow E r (int n) w st = (x, st')"
  shows "complete E holds ok r rows n (store st') \<and> (\<forall>es. x = Inr es \<longrightarrow> (\<exists>m\<ge>n. es = take m (rows w)))"
proof -
  define key where "key = queryRangeWindowCacheKey r w"
  define st1 where "st1 = st\<lparr>store := snd (get E (store st) key (clock E (sent st)))\<rparr>"
  have st1: "complete E holds ok r rows n (store st1)" using complete_get [OF assms(2)] by (simp add: st1_def)
  obtain c where c: "fst (get E (store st) key (clock E (sent st))) = c" by simp
  show ?thesis
  proof (cases "Option.bind c (dec E)")
    case (Some es)
    then obtain b where b: "c = Some b" "dec E b = Some es" by (auto simp: bind_eq_Some_conv)
    have "holds (store st) key b" using get_holds [of "store st" key] assms(2) b(1) c by (simp add: complete_def)
    then obtain m where "n \<le> m" "es = take m (rows w)"
      using completeD [OF assms(2), of w b es] b(2) by (auto simp: key_def)
    moreover have "(x, st') = (Inr es, st1)"
      using assms(4) Some c by (simp add: fetchQueryRangeWindow_def st1_def key_def split_beta)
    ultimately show ?thesis using st1 by auto
  next
    case None
    define st2 where "st2 = st1\<lparr>breaker := snd (Allow (breaker st1) (clock E (sent st)))\<rparr>"
    obtain y st3 where a: "attempts E key w (int n) 1 st2 = (y, st3)" by fastforce
    have "complete E holds ok r rows n (store st2)" using st1 by (simp add: st2_def)
    from attempts_spec [OF assms(1) this assms(3) a [unfolded key_def]]
    have y: "complete E holds ok r rows n (store st3)" "\<And>es. y = Fetched es \<Longrightarrow> es = take n (rows w)" by auto
    show ?thesis
    proof (cases "fst (Allow (breaker st1) (clock E (sent st)))")
      case True
      then show ?thesis
        using assms(4) None c a y
        by (auto simp: fetchQueryRangeWindow_def st1_def [symmetric] st2_def [symmetric] key_def [symmetric] split_beta Let_def
            split: attempt_end.splits if_splits)
    next
      case False
      then show ?thesis
        using assms(4) None c st1
        by (auto simp: fetchQueryRangeWindow_def st1_def [symmetric] key_def [symmetric] split_beta Let_def)
    qed
  qed
qed

lemma batch_spec:
  assumes "honest E rows" "complete E holds ok r rows n (store st)" "0 < n" "batchLoop E r (int n) ws st = (x, st')"
  shows "complete E holds ok r rows n (store st') \<and> (\<forall>results. x = Inr results \<longrightarrow> prefixes rows n results ws)"
  using assms(2,4)
proof (induction ws arbitrary: st x)
  case (Cons w ws)
  obtain y st1 where f: "fetchQueryRangeWindow E r (int n) w st = (y, st1)" by fastforce
  obtain z st2 where b: "batchLoop E r (int n) ws st1 = (z, st2)" by fastforce
  from fetch_spec [OF assms(1) Cons.prems(1) assms(3) f]
  have y: "complete E holds ok r rows n (store st1)" "\<And>es. y = Inr es \<Longrightarrow> \<exists>m\<ge>n. es = take m (rows w)" by auto
  have st2: "st' = st2" using Cons.prems(2) f b by (simp split: sum.splits)
  have "complete E holds ok r rows n (store st') \<and> (\<forall>results. z = Inr results \<longrightarrow> prefixes rows n results ws)"
    using Cons.IH [OF y(1)] b st2 by simp
  then show ?case
    using Cons.prems(2) f b y(2) by (auto simp: prefixes_def split: sum.splits)
qed (auto simp: prefixes_def)

lemma retry_spec:
  assumes "honest E rows" "complete E holds ok r rows n (store st)" "0 < n" "0 < k" "retryBatch E r ws (int n) k a st = (x, st')"
  shows "complete E holds ok r rows n (store st') \<and>
    (\<forall>results j. x = BatchDone results j \<longrightarrow> 0 < j \<and> prefixes rows n results (take j ws))"
  using assms(2,4,5)
proof (induction "(k, queryRangeBatchRetryAttempts - a)" arbitrary: k a st rule: wf_induct_rule [OF wf_lex_prod [OF wf_less wf_less], case_names less])
  case less
  obtain y st1 where f: "fetchQueryRangeWindowBatch E r (take k ws) (int n) st = (y, st1)" by fastforce
  then have "batchLoop E r (int n) (take k ws) st = (y, st1)" using assms(3) by (simp add: fetchQueryRangeWindowBatch_def)
  from batch_spec [OF assms(1) less.prems(1) assms(3) this]
  have y: "complete E holds ok r rows n (store st1)" "\<And>results. y = Inr results \<Longrightarrow> prefixes rows n results (take k ws)" by auto
  note step = less.prems(3) [unfolded retryBatch.simps [of E r ws "int n" k a st] f Let_def prod.case]
  show ?case
  proof (cases y)
    case (Inr results)
    then show ?thesis using step y less.prems(2) by auto
  next
    case (Inl e)
    consider "shouldRetryQueryRangeWindow e" "k > 1" "ctxErr E (sent st1) = None"
      | "shouldRetryQueryRangeWindow e" "k = 1" "a < queryRangeBatchRetryAttempts" "ctxErr E (sent st1) = None"
      | "st' = st1" "\<And>results j. x \<noteq> BatchDone results j"
      using step Inl by (auto split: if_splits option.splits)
    then show ?thesis
    proof cases
      case 1
      then show ?thesis
        using less.hyps [OF _ y(1), of "max 1 (k div 2)" "a + 1"] step Inl by simp
    next
      case 2
      then show ?thesis
        using less.hyps [OF _ y(1), of k "a + 1"] step Inl by simp
    next
      case 3
      then show ?thesis using y(1) by simp
    qed
  qed
qed

end

lemma firstBatch_pos [simp]: "0 < firstBatch parallel ws"
  by (auto simp: firstBatch_def Let_def min_def)

lemma collect_step:
  assumes "ws \<noteq> []" "0 < remaining"
    and "retryBatch E r ws (int remaining) (firstBatch (parallel (sent st)) ws) 0 st = (res, st1)"
  shows "collect E r parallel limit ws collected remaining isPartial st =
    (case res of
       BatchDone results n \<Rightarrow>
         collect E r parallel limit (drop (max 1 n) ws) (fst (mergeResults limit collected remaining results))
           (snd (mergeResults limit collected remaining results)) isPartial st1
     | BatchPartial n \<Rightarrow> collect E r parallel limit (drop (max 1 n) ws) collected remaining True st1
     | BatchTimeout c \<Rightarrow> (RequestTimeout c, st1)
     | BatchError e \<Rightarrow> (QueryError e, st1))"
  using assms by (subst collect.simps) (simp add: split_beta split: batch_end.split)

lemma collect_partial:
  "collect E r parallel limit ws collected remaining True st = (Answer es p, st') \<Longrightarrow> p"
proof (induction "length ws" arbitrary: ws collected remaining st rule: less_induct)
  case less
  show ?case
  proof (cases "ws = [] \<or> remaining = 0")
    case True
    then show ?thesis using less.prems by (simp add: collect.simps)
  next
    case False
    then have short: "length (drop (max 1 j) ws) < length ws" for j by simp
    obtain res st1 where "retryBatch E r ws (int remaining) (firstBatch (parallel (sent st)) ws) 0 st = (res, st1)" by fastforce
    with False less.prems less.hyps [OF short] show ?thesis
      by (auto simp: collect_step split: batch_end.splits)
  qed
qed

context fragment_store
begin

lemma collect_spec:
  assumes "honest E rows" "complete E holds ok r rows remaining (store st)" "length collected + remaining = limit"
    and "collect E r parallel limit ws collected remaining False st = (Answer es False, st')"
  shows "es = take limit (collected @ concat (map rows ws))"
  using assms(2-)
proof (induction "length ws" arbitrary: ws collected remaining st rule: less_induct)
  case less
  show ?case
  proof (cases "ws = [] \<or> remaining = 0")
    case True
    then show ?thesis using less.prems by (auto simp: collect.simps)
  next
    case False
    then have pos: "0 < remaining" "ws \<noteq> []" by auto
    obtain res st1 where res: "retryBatch E r ws (int remaining) (firstBatch (parallel (sent st)) ws) 0 st = (res, st1)" by fastforce
    note step = less.prems(3) [unfolded collect_step [where parallel = parallel, OF pos(2,1) res]]
    obtain results j where rd: "res = BatchDone results j"
      using step by (auto dest: collect_partial split: batch_end.splits)
    from retry_spec [OF assms(1) less.prems(1) pos(1) firstBatch_pos res]
    have st1: "complete E holds ok r rows remaining (store st1)" and j: "0 < j" and pre: "prefixes rows remaining results (take j ws)"
      using rd by auto
    define c1 where "c1 = take limit (collected @ concat results)"
    have c1: "c1 = take limit (collected @ concat (map rows (take j ws)))"
      using prefixes_take [OF pre, of "limit - length collected"] less.prems(2) by (simp add: c1_def)
    have "collect E r parallel limit (drop j ws) c1 (limit - length c1) False st1 = (Answer es False, st')"
      using step rd j mergeResults_spec [OF less.prems(2), of results] by (simp add: c1_def max_def)
    moreover have "length (drop j ws) < length ws" using j pos(2) by simp
    moreover have "complete E holds ok r rows (limit - length c1) (store st1)"
      using st1 less.prems(2) by (rule_tac complete_mono) (auto simp: c1_def)
    moreover have "length c1 + (limit - length c1) = limit" by (simp add: c1_def)
    ultimately have "es = take limit (c1 @ concat (map rows (drop j ws)))"
      by (intro less.hyps)
    also have "\<dots> = take limit ((collected @ concat (map rows (take j ws))) @ concat (map rows (drop j ws)))"
      unfolding c1 by (rule take_take_append)
    also have "\<dots> = take limit (collected @ concat (map rows ws))"
      by (metis append_assoc append_take_drop_id concat_append map_append)
    finally show ?thesis .
  qed
qed

end

subsection \<open>The memory tier as the store\<close>

text \<open>
  Fragments are written to the memory tier only. The store below is the cache of a proxy without
  disk and peer tiers, where \<^verbatim>\<open>Cache.Get\<close> looks nowhere else.
\<close>

definition mem_get ::
  "'d bolt \<Rightarrow> gzip \<Rightarrow> codec \<Rightarrow> nat \<Rightarrow> 'd tiered \<Rightarrow> string \<Rightarrow> time \<Rightarrow> bytes option \<times> 'd tiered" where
  "mem_get B Z C ticks c key now = (let (r, c', bg) = tiered_Get B Z C ticks c key now BuildFailed in (r, c'))"

definition memory_env ::
  "'d bolt \<Rightarrow> gzip \<Rightarrow> codec \<Rightarrow> nat \<Rightarrow> ('d tiered, bytes, 'e) fetchEnv \<Rightarrow> ('d tiered, bytes, 'e) fetchEnv" where
  "memory_env B Z C ticks E = E\<lparr>get := mem_get B Z C ticks, put := setL1\<rparr>"

definition mem_ok :: "'d tiered \<Rightarrow> bool" where
  "mem_ok c \<longleftrightarrow> cache_ok (l1 c) \<and> l2 c = None \<and> l3 c = None"

definition mem_holds :: "'d tiered \<Rightarrow> string \<Rightarrow> bytes \<Rightarrow> bool" where
  "mem_holds c key b \<longleftrightarrow> (\<exists>e. held (l1 c) key = Some (b, e))"

lemma cache_ok_counts [simp]:
  "cache_ok (m\<lparr>Misses := n\<rparr>) = cache_ok m" "cache_ok (m\<lparr>promoteBuf := b\<rparr>) = cache_ok m" "cache_ok (sendPromote key m) = cache_ok m"
  by (simp_all add: cache_ok_def sendPromote_def drift_def total_size_def)

lemma mem_get_props:
  assumes "mem_ok c"
  shows "mem_ok (snd (mem_get B Z C ticks c key now))" "held (l1 (snd (mem_get B Z C ticks c key now))) = held (l1 c)"
    "fst (mem_get B Z C ticks c key now) = Some b \<Longrightarrow> mem_holds c key b"
  using assms
  by (auto simp: mem_get_def mem_ok_def mem_holds_def tiered_Get_def getBelow_def getL3_def held_def addMiss_def sendPromote_def
      fun_eq_iff split: option.splits if_splits)

interpretation mem: fragment_store "memory_env B Z C ticks E" mem_holds mem_ok for B Z C ticks E
proof
  fix s :: "'a tiered" and k k' b b' ttl t
  assume ok: "mem_ok s"
  show "fst (get (memory_env B Z C ticks E) s k t) = Some b \<Longrightarrow> mem_holds s k b"
    using mem_get_props(3) [OF ok] by (simp add: memory_env_def)
  show "mem_ok (snd (get (memory_env B Z C ticks E) s k t))"
    using mem_get_props(1) [OF ok] by (simp add: memory_env_def)
  show "mem_holds (snd (get (memory_env B Z C ticks E) s k t)) k' b \<Longrightarrow> mem_holds s k' b"
    using mem_get_props(2) [OF ok] by (simp add: memory_env_def mem_holds_def)
  show "mem_ok (put (memory_env B Z C ticks E) s k b ttl t)"
    using ok cache_ok_Set by (simp add: memory_env_def mem_ok_def setL1_def)
  show "mem_holds s k' b' \<or> k' = k \<and> b' = b" if "mem_holds (put (memory_env B Z C ticks E) s k b ttl t) k' b'"
    using that ok held_setL1 [of s k b ttl t k'] by (auto simp: memory_env_def mem_holds_def mem_ok_def cache_ok_def)
qed

subsection \<open>The whole query\<close>

text \<open>The entries of a log that lie in a window.\<close>

definition rows_in :: "('e \<Rightarrow> int) \<Rightarrow> 'e list \<Rightarrow> queryRangeWindow \<Rightarrow> 'e list" where
  "rows_in ts logs w = filter (\<lambda>e. startNs w \<le> ts e \<and> ts e \<le> endNs w) logs"

lemma filter_split:
  assumes "sorted (map ts logs)" "s \<le> m" "m \<le> (e :: int)"
  shows "filter (\<lambda>x. s \<le> ts x \<and> ts x \<le> m) logs @ filter (\<lambda>x. m + 1 \<le> ts x \<and> ts x \<le> e) logs =
    filter (\<lambda>x. s \<le> ts x \<and> ts x \<le> e) logs"
  using assms(1)
proof (induction logs)
  case (Cons x logs)
  have "filter (\<lambda>x. s \<le> ts x \<and> ts x \<le> m) logs = []" if "m < ts x"
    using Cons.prems that by (fastforce simp: filter_empty_conv)
  then show ?case using Cons assms(2,3) by (cases "m < ts x") auto
qed simp

lemma tiles_rows:
  assumes "sorted (map ts logs)"
  shows "tiles ws s e \<Longrightarrow> concat (map (rows_in ts logs) ws) = filter (\<lambda>x. s \<le> ts x \<and> ts x \<le> e) logs"
proof (induction ws s e rule: tiles.induct)
  case (1 s e)
  then show ?case by (auto simp: filter_empty_conv)
next
  case (2 w ws s e)
  moreover have "endNs w \<le> e" using 2 tiles_le [of ws "endNs w + 1" e] by simp
  ultimately show ?case using filter_split [OF assms, of s "endNs w" e] by (simp add: rows_in_def)
qed

lemma directed_rows:
  assumes "if direction = ''forward'' then sorted (map ts logs) else sorted (rev (map ts logs))"
    and "tiles (directed direction ws) s e"
  shows "concat (map (rows_in ts logs) ws) = filter (\<lambda>x. s \<le> ts x \<and> ts x \<le> e) logs"
proof (cases "direction = ''forward''")
  case True
  then show ?thesis using assms tiles_rows by (simp add: directed_def)
next
  case False
  have "rows_in ts logs = (\<lambda>w. rev (rows_in ts (rev logs) w))" by (simp add: rows_in_def rev_filter fun_eq_iff)
  then have "concat (map (rows_in ts logs) ws) = rev (concat (map (rows_in ts (rev logs)) (rev ws)))"
    by (simp add: rev_concat rev_map o_def)
  also have "concat (map (rows_in ts (rev logs)) (rev ws)) = filter (\<lambda>x. s \<le> ts x \<and> ts x \<le> e) (rev logs)"
    using False assms by (intro tiles_rows) (simp_all add: directed_def rev_map)
  finally show ?thesis by (simp add: rev_filter)
qed


text \<open>A backend with a log of numbered entries, and an encoding of them.\<close>

definition example_env :: "int list \<Rightarrow> ((bytes \<times> bytes) list tiered, bytes, int) fetchEnv" where
  "example_env logs =
     memory_env al_bolt copy_gzip copy_codec 1
       \<lparr>get = \<lambda>s k t. (None, s), put = \<lambda>s k b ttl t. s,
        enc = \<lambda>es. if list_all (\<lambda>i. 0 \<le> i \<and> i < 256) es then Some (map char_of es) else None,
        dec = \<lambda>b. Some (map of_char b),
        reply = \<lambda>n w k. Rows (take (nat k) (rows_in (\<lambda>i. i) logs w)),
        ctxErr = \<lambda>n. None, clock = \<lambda>n. int n, ttlOf = queryRangeWindowTTL 0 Minute Minute, partialResponses = False\<rparr>"

definition example_request :: windowRequest where
  "example_request =
     \<lparr>wr_tenant = ''t'', wr_logsql = ''*'', wr_direction = ''backward'', wr_limit = ''3'', wr_categorized = False,
      wr_emitMetadata = False, wr_shape = [], wr_auth = []\<rparr>"

definition example_state :: "(bytes \<times> bytes) list tiered fetchState" where
  "example_state =
     \<lparr>store = \<lparr>l1 = NewWithMaxBytes Minute 100 1000, l2 = None, l3 = None\<rparr>,
      breaker = NewCircuitBreaker 5 2 Minute Minute, sent = 0\<rparr>"

abbreviation example_logs :: "int list" where
  "example_logs \<equiv> [35, 25, 15, 14, 13, 5]"

abbreviation example_query :: "queryRangeWindow list \<Rightarrow> (bytes \<times> bytes) list tiered fetchState \<Rightarrow>
    int query_end \<times> (bytes \<times> bytes) list tiered fetchState" where
  "example_query ws st \<equiv> proxyLogQueryWindowed (example_env example_logs) example_request (\<lambda>_. 2) 3 ws st"

abbreviation four_windows :: "queryRangeWindow list" where
  "four_windows \<equiv> [\<lparr>startNs = 30, endNs = 39\<rparr>, \<lparr>startNs = 20, endNs = 29\<rparr>, \<lparr>startNs = 10, endNs = 19\<rparr>, \<lparr>startNs = 0, endNs = 9\<rparr>]"

abbreviation two_windows :: "queryRangeWindow list" where
  "two_windows \<equiv> [\<lparr>startNs = 10, endNs = 19\<rparr>, \<lparr>startNs = 0, endNs = 9\<rparr>]"

lemma example_split:
  "splitQueryRangeWindowsWithOptions 0 39 10 ''backward'' True =
     Done four_windows"
  "splitQueryRangeWindowsWithOptions 0 19 10 ''backward'' True =
     Done two_windows"
  by code_simp+

lemma example_run:
  "fst (example_query four_windows
     example_state) = Answer [35, 25, 15] False"
  by code_simp

lemma example_env_props:
  "reply (example_env logs) n w k = Rows es \<Longrightarrow> es = take (nat k) (rows_in (\<lambda>i. i) logs w)"
  "enc (example_env logs) es = Some b \<Longrightarrow> dec (example_env logs) b = Some es"
  "memory_env al_bolt copy_gzip copy_codec 1 (example_env logs) = example_env logs"
  by (auto simp: example_env_def memory_env_def list_all_iff o_def map_idI split: if_splits)



subsection \<open>The breaker during a fetch\<close>

lemma attempts_outcome:
  "attempts E key w k a st = (x, st') \<Longrightarrow>
    sent st' \<le> sent st + max 1 (queryRangeWindowFetchAttempts + 1 - a) \<and>
    breaker st' = (case x of Fetched es \<Rightarrow> RecordSuccess (breaker st) | _ \<Rightarrow> breaker st)"
proof (induction "queryRangeWindowFetchAttempts - a" arbitrary: a st rule: less_induct)
  case less
  note step = less.prems [unfolded attempts.simps [of E key w k a st] Let_def]
  show ?case
  proof (cases "\<exists>e. reply E (sent st) w k = Fault e \<and> a < queryRangeWindowFetchAttempts \<and>
      shouldRetryQueryRangeWindow e \<and> ctxErr E (sent st) = None")
    case True
    then have "queryRangeWindowFetchAttempts - (a + 1) < queryRangeWindowFetchAttempts - a"
      "attempts E key w k (a + 1) (st\<lparr>sent := sent st + 1\<rparr>) = (x, st')"
      using step by auto
    from less.hyps [OF this] True show ?thesis by (auto split: attempt_end.split)
  next
    case False
    then show ?thesis
      using step by (cases "reply E (sent st) w k") (auto simp: not_less split: if_splits option.splits)
  qed
qed

text \<open>
  C37. However often a window is retried, the breaker sees one outcome of it: at most one success, with
  the entries as the result, or at most one failure, for an error without an HTTP status. A window in
  the cache or refused by the breaker sends nothing, and no window sends more than five requests.
\<close>

theorem window_fetch_one_outcome:
  assumes "fetchQueryRangeWindow E r k w st = (x, st')"
  shows "\<exists>br. br = snd (Allow (breaker st) (clock E (sent st))) \<and> sent st' \<le> sent st + 5 \<and>
    (sent st' = sent st \<and> breaker st' \<in> {breaker st, br} \<or>
     fst (Allow (breaker st) (clock E (sent st))) \<and>
       (breaker st' = br \<or> breaker st' = RecordSuccess br \<and> isl x = False \<or>
        (\<exists>t e. breaker st' = RecordFailure br t \<and> x = Inl e \<and> errStatus e = None)))"
proof -
  define key where "key = queryRangeWindowCacheKey r w"
  obtain c s1 where g: "get E (store st) key (clock E (sent st)) = (c, s1)" by fastforce
  obtain ok br where al: "Allow (breaker st) (clock E (sent st)) = (ok, br)" by fastforce
  define st2 where "st2 = st\<lparr>store := s1, breaker := br\<rparr>"
  obtain y st3 where a: "attempts E key w k 1 st2 = (y, st3)" by fastforce
  have st3: "sent st3 \<le> sent st + 5" "breaker st3 = (case y of Fetched es \<Rightarrow> RecordSuccess br | _ \<Rightarrow> br)"
    using attempts_outcome [OF a] by (auto simp: st2_def queryRangeWindowFetchAttempts_def split: attempt_end.split)
  have rec: "shouldRecordBreakerFailure ctx e \<Longrightarrow> errStatus e = None" for ctx e
    by (simp add: shouldRecordBreakerFailure_def split: if_splits)
  show ?thesis
  proof (cases "Option.bind c (dec E)")
    case (Some es)
    then show ?thesis using assms g by (auto simp: fetchQueryRangeWindow_def key_def)
  next
    case None
    then have "(x, st') = (if \<not> ok then (Inl breakerOpenErr, st2)
        else case y of
               Fetched es \<Rightarrow> (Inr es, st3)
             | Aborted c \<Rightarrow> (Inl c, st3)
             | GaveUp e \<Rightarrow>
                 (Inl e, if shouldRecordBreakerFailure (ctxErr E (sent st3 - 1)) e
                         then st3\<lparr>breaker := RecordFailure (breaker st3) (clock E (sent st3 - 1))\<rparr> else st3))"
      using assms g al a by (cases ok) (simp_all add: fetchQueryRangeWindow_def key_def st2_def Let_def)
    then show ?thesis
      using st3 al by (auto simp: st2_def split: if_splits attempt_end.splits dest: rec)
  qed
qed

theorem window_fetch_one_outcome_witness:
  "\<exists>x st'. fetchQueryRangeWindow (example_env example_logs) example_request 3 \<lparr>startNs = 10, endNs = 19\<rparr> example_state = (x, st') \<and>
     sent st' \<le> 5"
proof -
  obtain x st' where f: "fetchQueryRangeWindow (example_env example_logs) example_request 3 \<lparr>startNs = 10, endNs = 19\<rparr> example_state = (x, st')"
    by fastforce
  from window_fetch_one_outcome [OF f] have "sent st' \<le> 5" by (auto simp: example_state_def)
  with f show ?thesis by blast
qed

text \<open>The waits between attempts: they double from 100 milliseconds and stop at 5 seconds.\<close>

lemma retry_backoff:
  assumes "1 \<le> attempt" "attempt \<le> 37"
  shows "queryRangeWindowRetryBackoff attempt = min (5 * Second) (100 * Millisecond * 2 ^ nat (attempt - 1))"
proof -
  define p :: int where "p = 2 ^ nat (attempt - 1)"
  have "p \<le> 2 ^ 36" unfolding p_def using assms by (intro power_increasing) auto
  moreover have "0 \<le> p" by (simp add: p_def)
  ultimately have "int64 (100000000 * p) = 100000000 * p" by (intro int64_id) simp_all
  then show ?thesis
    using assms by (simp add: queryRangeWindowRetryBackoff_def queryRangeRetryMinBackoff_def queryRangeRetryMaxBackoff_def min_def p_def)
qed

end
