(* ===== verification/LogsqlAst.thy ===== *)
theory LogsqlAst
  imports GoNumbers
begin

text \<open>
  The syntax tree of LogsQL, the query language of VictoriaLogs, and its printer,
  \<^verbatim>\<open>internal/logsql/ast.go\<close>. The interfaces \<^verbatim>\<open>FilterExpr\<close>,
  \<^verbatim>\<open>Pipe\<close> and \<^verbatim>\<open>StatsFunc\<close> are datatypes with one constructor per
  implementation, with the fields of the struct as its arguments; each \<^verbatim>\<open>String\<close> method that
  does more than append its fields is a definition of its own. \<open>U\<close> is the part of Go's Unicode
  tables above ASCII, which \<^verbatim>\<open>strconv.Quote\<close> and the verb \<^verbatim>\<open>%q\<close> consult.
\<close>

subsection \<open>Quoting\<close>

text \<open>\<^verbatim>\<open>strings.ReplaceAll\<close> of one byte.\<close>

definition ReplaceByte :: "string \<Rightarrow> char \<Rightarrow> string \<Rightarrow> string" where
  "ReplaceByte s c new = concat (map (\<lambda>x. if x = c then new else [x]) s)"

abbreviation dquote :: char where
  "dquote \<equiv> CHR 0x22"

abbreviation backslash :: char where
  "backslash \<equiv> CHR 0x5C"

abbreviation backquote :: char where
  "backquote \<equiv> CHR 0x60"

definition quoteLogsQL :: "string \<Rightarrow> string" where
  "quoteLogsQL s =
     (let s1 = ReplaceByte s backslash [backslash, backslash];
          s2 = ReplaceByte s1 dquote [backslash, dquote]
      in [dquote] @ s2 @ [dquote])"

definition quoteLogsQLPattern :: "unicode \<Rightarrow> string \<Rightarrow> string" where
  "quoteLogsQLPattern U s = Quote U s"

definition QuoteValue :: "string \<Rightarrow> string" where
  "QuoteValue s = quoteLogsQL s"

definition QuotePattern :: "unicode \<Rightarrow> string \<Rightarrow> string" where
  "QuotePattern U s = quoteLogsQLPattern U s"

subsection \<open>Filters\<close>

datatype FieldOp =
  FieldOpExact | FieldOpRegexp | FieldOpPrefix | FieldOpSubstring | FieldOpEmpty | FieldOpAny
| FieldOpGT | FieldOpGTE | FieldOpLT | FieldOpLTE | FieldOpRange | FieldOpIn
| FieldOpIPv4Range | FieldOpIPv6Range | FieldOpExactPrefix | FieldOpEqField | FieldOpLeField
| FieldOpStringRange | FieldOpValueType | FieldOpJSONArrayContainsAny
| FieldOpContainsCommonCase | FieldOpEqualsCommonCase

record FieldFilter =
  ff_Field :: string
  ff_Op :: FieldOp
  ff_Value :: string
  ff_Negate :: bool

record LabelMatcher =
  lm_Name :: string
  lm_Op :: string
  lm_Value :: string

datatype FilterExpr =
  Word string
| Phrase string
| Prefix string
| Substring string
| Exact string
| Regexp string
| Sequence "string list"
| CaseInsensitive string
| Wildcard
| FieldFilterE FieldFilter
| StreamFilter "LabelMatcher list"
| TimeFilter string
| AndExpr FilterExpr FilterExpr
| OrExpr FilterExpr FilterExpr
| NotExpr FilterExpr
| AnyCasePhrase string
| AnyCasePrefix string
| ExactPrefix string
| ContainsAll "string list"
| ContainsAny "string list"
| DayRange string string
| WeekRange string string
| LenRange string string string
| PatternMatch string string
| DeferredExpr string

text \<open>The \<^verbatim>\<open>default\<close> case, which panics, is for numbers that are no \<open>FieldOp\<close>.\<close>

fun fieldCore :: "unicode \<Rightarrow> string \<Rightarrow> FieldOp \<Rightarrow> string \<Rightarrow> string" where
  "fieldCore U f FieldOpExact v = f @ '':='' @ quoteLogsQL v"
| "fieldCore U f FieldOpRegexp v = f @ '':~'' @ quoteLogsQLPattern U v"
| "fieldCore U f FieldOpPrefix v = f @ '':'' @ v @ ''*''"
| "fieldCore U f FieldOpSubstring v = f @ '':*'' @ v @ ''*''"
| "fieldCore U f FieldOpEmpty v = f @ '':'' @ [dquote, dquote]"
| "fieldCore U f FieldOpAny v = f @ '':*''"
| "fieldCore U f FieldOpGT v = f @ '':>'' @ v"
| "fieldCore U f FieldOpGTE v = f @ '':>='' @ v"
| "fieldCore U f FieldOpLT v = f @ '':<'' @ v"
| "fieldCore U f FieldOpLTE v = f @ '':<='' @ v"
| "fieldCore U f FieldOpRange v = f @ '':range('' @ v @ '')''"
| "fieldCore U f FieldOpIn v = f @ '':in('' @ v @ '')''"
| "fieldCore U f FieldOpIPv4Range v = f @ '':ipv4_range('' @ v @ '')''"
| "fieldCore U f FieldOpIPv6Range v = f @ '':ipv6_range('' @ v @ '')''"
| "fieldCore U f FieldOpExactPrefix v = f @ '':='' @ quoteLogsQL v @ ''*''"
| "fieldCore U f FieldOpEqField v = f @ '':eq_field('' @ v @ '')''"
| "fieldCore U f FieldOpLeField v = f @ '':le_field('' @ v @ '')''"
| "fieldCore U f FieldOpStringRange v = f @ '':string_range('' @ v @ '')''"
| "fieldCore U f FieldOpValueType v = f @ '':value_type('' @ v @ '')''"
| "fieldCore U f FieldOpJSONArrayContainsAny v = f @ '':json_array_contains_any('' @ v @ '')''"
| "fieldCore U f FieldOpContainsCommonCase v = f @ '':contains_common_case('' @ v @ '')''"
| "fieldCore U f FieldOpEqualsCommonCase v = f @ '':equals_common_case('' @ v @ '')''"

definition FieldFilter_String :: "unicode \<Rightarrow> FieldFilter \<Rightarrow> string" where
  "FieldFilter_String U f =
     (let core = fieldCore U (ff_Field f) (ff_Op f) (ff_Value f)
      in if ff_Negate f then ''NOT '' @ core else core)"

definition Sequence_String :: "string list \<Rightarrow> string" where
  "Sequence_String parts = ''seq('' @ Join (map quoteLogsQL parts) '','' @ '')''"

definition LabelMatcher_String :: "LabelMatcher \<Rightarrow> string" where
  "LabelMatcher_String m = lm_Name m @ lm_Op m @ quoteLogsQL (lm_Value m)"

definition StreamFilter_String :: "LabelMatcher list \<Rightarrow> string" where
  "StreamFilter_String ms = ''{'' @ Join (map LabelMatcher_String ms) '', '' @ ''}''"

definition quotedAsIs :: "string \<Rightarrow> string" where
  "quotedAsIs s = [dquote] @ s @ [dquote]"

definition ContainsAll_String :: "string list \<Rightarrow> string" where
  "ContainsAll_String parts = ''contains_all('' @ Join (map quotedAsIs parts) '','' @ '')''"

definition ContainsAny_String :: "string list \<Rightarrow> string" where
  "ContainsAny_String parts = ''contains_any('' @ Join (map quotedAsIs parts) '','' @ '')''"

definition DayRange_String :: "string \<Rightarrow> string \<Rightarrow> string" where
  "DayRange_String bracket offset =
     ''_time:day_range'' @ bracket @ (if offset \<noteq> [] then '' offset '' @ offset else [])"

definition WeekRange_String :: "string \<Rightarrow> string \<Rightarrow> string" where
  "WeekRange_String bracket offset =
     ''_time:week_range'' @ bracket @ (if offset \<noteq> [] then '' offset '' @ offset else [])"

definition LenRange_String :: "string \<Rightarrow> string \<Rightarrow> string \<Rightarrow> string" where
  "LenRange_String field mn mx =
     (let inner = mn @ '', '' @ mx
      in if field = [] then ''len_range('' @ inner @ '')'' else field @ '':len_range('' @ inner @ '')'')"

definition PatternMatch_String :: "string \<Rightarrow> string \<Rightarrow> string" where
  "PatternMatch_String field pat =
     (let inner = ''pattern('' @ [dquote] @ pat @ [dquote] @ '')''
      in if field = [] then inner else field @ '':'' @ inner)"

fun isOr :: "FilterExpr \<Rightarrow> bool" where
  "isOr (OrExpr _ _) = True"
| "isOr _ = False"

fun isAnd :: "FilterExpr \<Rightarrow> bool" where
  "isAnd (AndExpr _ _) = True"
| "isAnd _ = False"

definition parens :: "bool \<Rightarrow> string \<Rightarrow> string" where
  "parens b s = (if b then ''('' @ s @ '')'' else s)"

fun FilterExpr_String :: "unicode \<Rightarrow> FilterExpr \<Rightarrow> string" where
  "FilterExpr_String U (Word v) = v"
| "FilterExpr_String U (Phrase v) = quoteLogsQL v"
| "FilterExpr_String U (Prefix v) = v @ ''*''"
| "FilterExpr_String U (Substring v) = ''*'' @ v @ ''*''"
| "FilterExpr_String U (Exact v) = ''='' @ quoteLogsQL v"
| "FilterExpr_String U (Regexp p) = ''~'' @ quoteLogsQLPattern U p"
| "FilterExpr_String U (Sequence parts) = Sequence_String parts"
| "FilterExpr_String U (CaseInsensitive v) = ''i('' @ quoteLogsQL v @ '')''"
| "FilterExpr_String U Wildcard = ''*''"
| "FilterExpr_String U (FieldFilterE f) = FieldFilter_String U f"
| "FilterExpr_String U (StreamFilter ms) = StreamFilter_String ms"
| "FilterExpr_String U (TimeFilter r) = ''_time:'' @ r"
| "FilterExpr_String U (AndExpr l r) =
     parens (isOr l) (FilterExpr_String U l) @ '' AND '' @ parens (isOr r) (FilterExpr_String U r)"
| "FilterExpr_String U (OrExpr l r) = FilterExpr_String U l @ '' OR '' @ FilterExpr_String U r"
| "FilterExpr_String U (NotExpr e) = ''NOT '' @ parens (isOr e \<or> isAnd e) (FilterExpr_String U e)"
| "FilterExpr_String U (AnyCasePhrase v) = ''i('' @ quoteLogsQL v @ '')''"
| "FilterExpr_String U (AnyCasePrefix v) = ''i('' @ v @ ''*)''"
| "FilterExpr_String U (ExactPrefix v) = ''='' @ [dquote] @ v @ [dquote] @ ''*''"
| "FilterExpr_String U (ContainsAll parts) = ContainsAll_String parts"
| "FilterExpr_String U (ContainsAny parts) = ContainsAny_String parts"
| "FilterExpr_String U (DayRange b off) = DayRange_String b off"
| "FilterExpr_String U (WeekRange b off) = WeekRange_String b off"
| "FilterExpr_String U (LenRange f mn mx) = LenRange_String f mn mx"
| "FilterExpr_String U (PatternMatch f p) = PatternMatch_String f p"
| "FilterExpr_String U (DeferredExpr raw) = raw"

subsection \<open>Statistics functions\<close>

text \<open>Every \<^verbatim>\<open>float64\<close>, with the infinities and NaN, and the verb \<^verbatim>\<open>%g\<close>.\<close>

datatype anyFloat = Finite float64 | Infinite bool | NaN

fun formatAny :: "anyFloat \<Rightarrow> string" where
  "formatAny (Finite x) = formatG x"
| "formatAny (Infinite neg) = (if neg then ''-Inf'' else ''+Inf'')"
| "formatAny NaN = ''NaN''"

datatype StatsFunc =
  Count
| Sum string
| StatsMin string
| StatsMax string
| Avg string
| Median string
| Quantile anyFloat string
| Stddev string
| Stdvar string
| Rate
| RateSum string
| CountUniq string
| CountUniqHash string
| UniqValues string int
| FieldMax string
| FieldMin string
| JSONValues string
| AnyValue string
| CountEmpty string
| SumLen string
| Values string int
| Histogram string
| Last string
| First string
| RowAny "string list"
| RowMax string "string list"
| RowMin string "string list"
| JSONValuesSorted string
| JSONValuesTopK string int
| DeferredFunc string

definition call :: "string \<Rightarrow> string \<Rightarrow> string" where
  "call name arg = name @ ''('' @ arg @ '')''"

definition RowMax_String :: "string \<Rightarrow> string list \<Rightarrow> string" where
  "RowMax_String by fs = ''row_max('' @ Join (by # fs) '', '' @ '')''"

definition RowMin_String :: "string \<Rightarrow> string list \<Rightarrow> string" where
  "RowMin_String by fs = ''row_min('' @ Join (by # fs) '', '' @ '')''"

fun StatsFunc_String :: "StatsFunc \<Rightarrow> string" where
  "StatsFunc_String Count = ''count()''"
| "StatsFunc_String (Sum f) = call ''sum'' f"
| "StatsFunc_String (StatsMin f) = call ''min'' f"
| "StatsFunc_String (StatsMax f) = call ''max'' f"
| "StatsFunc_String (Avg f) = call ''avg'' f"
| "StatsFunc_String (Median f) = call ''median'' f"
| "StatsFunc_String (Quantile phi f) = call ''quantile'' (formatAny phi @ '', '' @ f)"
| "StatsFunc_String (Stddev f) = call ''stddev'' f"
| "StatsFunc_String (Stdvar f) = call ''stdvar'' f"
| "StatsFunc_String Rate = ''rate()''"
| "StatsFunc_String (RateSum f) = call ''rate_sum'' f"
| "StatsFunc_String (CountUniq f) = call ''count_uniq'' f"
| "StatsFunc_String (CountUniqHash f) = call ''count_uniq_hash'' f"
| "StatsFunc_String (UniqValues f n) = call ''uniq_values'' (f @ '', '' @ Itoa n)"
| "StatsFunc_String (FieldMax f) = call ''field_max'' f"
| "StatsFunc_String (FieldMin f) = call ''field_min'' f"
| "StatsFunc_String (JSONValues f) = call ''json_values'' f"
| "StatsFunc_String (AnyValue f) = call ''any'' f"
| "StatsFunc_String (CountEmpty f) = call ''count_empty'' f"
| "StatsFunc_String (SumLen f) = call ''sum_len'' f"
| "StatsFunc_String (Values f n) = call ''values'' (f @ '', '' @ Itoa n)"
| "StatsFunc_String (Histogram f) = call ''histogram'' f"
| "StatsFunc_String (Last f) = call ''last'' f"
| "StatsFunc_String (First f) = call ''first'' f"
| "StatsFunc_String (RowAny fs) = call ''row_any'' (Join fs '', '')"
| "StatsFunc_String (RowMax by fs) = RowMax_String by fs"
| "StatsFunc_String (RowMin by fs) = RowMin_String by fs"
| "StatsFunc_String (JSONValuesSorted f) = call ''json_values_sorted'' f"
| "StatsFunc_String (JSONValuesTopK f n) = call ''json_values_topk'' (f @ '', '' @ Itoa n)"
| "StatsFunc_String (DeferredFunc raw) = raw"

subsection \<open>Pipes\<close>

record SortField =
  sf_Field :: string
  sf_Desc :: bool

record StatsFuncAlias =
  fa_Func :: StatsFunc
  fa_Alias :: string

text \<open>A \<^verbatim>\<open>GroupKey\<close> is a struct of one string, the field.\<close>

type_synonym GroupKey = string

datatype Pipe =
  PipeUnpackJSON string bool
| PipeFilter FilterExpr
| PipeLimit int
| PipeUnpackLogfmt string bool
| PipeExtract string string string
| PipeExtractRegexp string string
| PipeFields "string list"
| PipeDelete "string list"
| PipeFormat string string
| PipeRename "(string \<times> string) list"
| PipeReplace string string string
| PipeReplaceRegexp string string string
| PipePackJSON "string list" string
| PipePackLogfmt "string list" string
| PipeStats "GroupKey list" "StatsFuncAlias list"
| PipeMath string string
| PipeSort "SortField list" int
| PipeTop int "string list"
| PipeFirst int "string list"
| PipeLast int "string list"
| PipeSample int
| PipeOffset int
| PipeUniq "string list"
| PipeFieldNames
| PipeDropEmptyFields
| PipeCopy "(string \<times> string) list"
| PipeCoalesce "string list" string string
| PipeCollapseNums string
| PipeDecolorize string
| PipeFacets int
| PipeFieldValues string int
| PipeGenerateSequence int
| PipeHash "string list" string
| PipeJoin "string list" string string
| PipeJSONArrayLen string string
| PipeJSONArrayConcat string bool string string
| PipeLen string string
| PipeQueryStats
| PipeRunningStats "GroupKey list" "StatsFuncAlias list"
| PipeSetStreamFields "string list"
| PipeSplit string string string
| PipeStreamContext int int
| PipeTimeAdd string
| PipeTotalStats "GroupKey list" "StatsFuncAlias list"
| PipeUnion string
| PipeUnpackSyslog
| PipeUnpackWords string string
| PipeUnroll "string list"
| PipeUpdate string string

text \<open>A keyword and a value, printed when the value is there.\<close>

definition optional :: "string \<Rightarrow> string \<Rightarrow> string" where
  "optional kw v = (if v \<noteq> [] then kw @ v else [])"

definition optionalInt :: "string \<Rightarrow> int \<Rightarrow> string" where
  "optionalInt kw n = (if n > 0 then kw @ Itoa n else [])"

definition byClause :: "string list \<Rightarrow> string" where
  "byClause by = (if length by > 0 then '' by ('' @ Join by '', '' @ '')'' else [])"

definition PipeUnpackJSON_String :: "string \<Rightarrow> bool \<Rightarrow> string" where
  "PipeUnpackJSON_String from keepOriginal =
     ''| unpack_json'' @ optional '' from '' from @ (if keepOriginal then '' keep_original_fields'' else [])"

definition PipeUnpackLogfmt_String :: "string \<Rightarrow> bool \<Rightarrow> string" where
  "PipeUnpackLogfmt_String from keepOriginal =
     ''| unpack_logfmt'' @ optional '' from '' from @ (if keepOriginal then '' keep_original_fields'' else [])"

definition PipeExtract_String :: "unicode \<Rightarrow> string \<Rightarrow> string \<Rightarrow> string \<Rightarrow> string" where
  "PipeExtract_String U pat from cond =
     ''| extract '' @ Quote U pat @ '' from '' @ from @ (if cond \<noteq> [] then '' if ('' @ cond @ '')'' else [])"

definition PipeExtractRegexp_String :: "string \<Rightarrow> string \<Rightarrow> string" where
  "PipeExtractRegexp_String pat from = ''| extract_regexp '' @ [backquote] @ pat @ [backquote] @ '' from '' @ from"

definition PipeFormat_String :: "unicode \<Rightarrow> string \<Rightarrow> string \<Rightarrow> string" where
  "PipeFormat_String U template result = ''| format '' @ Quote U template @ '' as '' @ result"

definition asPair :: "string \<times> string \<Rightarrow> string" where
  "asPair p = fst p @ '' as '' @ snd p"

definition PipeRename_String :: "(string \<times> string) list \<Rightarrow> string" where
  "PipeRename_String pairs = ''| rename '' @ Join (map asPair pairs) '', ''"

definition PipeReplace_String :: "unicode \<Rightarrow> string \<Rightarrow> string \<Rightarrow> string \<Rightarrow> string" where
  "PipeReplace_String U field old new =
     ''| replace ('' @ Quote U old @ '', '' @ Quote U new @ '') at '' @ field"

definition PipeReplaceRegexp_String :: "unicode \<Rightarrow> string \<Rightarrow> string \<Rightarrow> string \<Rightarrow> string" where
  "PipeReplaceRegexp_String U field regex replacement =
     ''| replace_regexp ('' @ [backquote] @ regex @ [backquote] @ '', '' @ Quote U replacement @ '') at '' @ field"

definition PipePackJSON_String :: "string list \<Rightarrow> string \<Rightarrow> string" where
  "PipePackJSON_String fs result = ''| pack_json fields ('' @ Join fs '', '' @ '') as '' @ result"

definition PipePackLogfmt_String :: "string list \<Rightarrow> string \<Rightarrow> string" where
  "PipePackLogfmt_String fs result = ''| pack_logfmt fields ('' @ Join fs '', '' @ '') as '' @ result"

definition StatsFuncAlias_String :: "StatsFuncAlias \<Rightarrow> string" where
  "StatsFuncAlias_String fa = StatsFunc_String (fa_Func fa) @ optional '' as '' (fa_Alias fa)"

definition pipeStatsString :: "string \<Rightarrow> GroupKey list \<Rightarrow> StatsFuncAlias list \<Rightarrow> string" where
  "pipeStatsString keyword by funcs =
     (let b = ''| '' @ keyword @ byClause by
      in if length funcs = 0 then ''| '' @ keyword
         else b @ '' '' @ Join (map StatsFuncAlias_String funcs) '', '')"

definition SortField_String :: "SortField \<Rightarrow> string" where
  "SortField_String sf = (if sf_Desc sf then sf_Field sf @ '' desc'' else sf_Field sf)"

definition PipeSort_String :: "SortField list \<Rightarrow> int \<Rightarrow> string" where
  "PipeSort_String by limit =
     ''| sort by ('' @ Join (map SortField_String by) '', '' @ '')'' @ optionalInt '' limit '' limit"

definition PipeTop_String :: "int \<Rightarrow> string list \<Rightarrow> string" where
  "PipeTop_String n by = ''| top '' @ Itoa n @ byClause by"

definition PipeFirst_String :: "int \<Rightarrow> string list \<Rightarrow> string" where
  "PipeFirst_String n by = ''| first'' @ optionalInt '' '' n @ byClause by"

definition PipeLast_String :: "int \<Rightarrow> string list \<Rightarrow> string" where
  "PipeLast_String n by = ''| last'' @ optionalInt '' '' n @ byClause by"

definition PipeUniq_String :: "string list \<Rightarrow> string" where
  "PipeUniq_String by = (if length by = 0 then ''| uniq'' else ''| uniq by ('' @ Join by '', '' @ '')'')"

definition PipeCopy_String :: "(string \<times> string) list \<Rightarrow> string" where
  "PipeCopy_String pairs = ''| copy '' @ Join (map asPair pairs) '', ''"

definition PipeCoalesce_String :: "string list \<Rightarrow> string \<Rightarrow> string \<Rightarrow> string" where
  "PipeCoalesce_String fs dflt result =
     ''| coalesce('' @ Join fs '', '' @ '')'' @
     (if dflt \<noteq> [] then '' default '' @ [dquote] @ dflt @ [dquote] else []) @ '' as '' @ result"

definition PipeCollapseNums_String :: "string \<Rightarrow> string" where
  "PipeCollapseNums_String field = (if field = [] then ''| collapse_nums'' else ''| collapse_nums at '' @ field)"

definition PipeDecolorize_String :: "string \<Rightarrow> string" where
  "PipeDecolorize_String field = (if field = [] then ''| decolorize'' else ''| decolorize '' @ field)"

definition PipeFacets_String :: "int \<Rightarrow> string" where
  "PipeFacets_String limit = (if limit = 0 then ''| facets'' else ''| facets limit '' @ Itoa limit)"

definition PipeFieldValues_String :: "string \<Rightarrow> int \<Rightarrow> string" where
  "PipeFieldValues_String field limit = ''| field_values '' @ field @ optionalInt '' limit '' limit"

definition PipeHash_String :: "string list \<Rightarrow> string \<Rightarrow> string" where
  "PipeHash_String fs result = ''| hash('' @ Join fs '', '' @ '') as '' @ result"

definition PipeJoin_String :: "string list \<Rightarrow> string \<Rightarrow> string \<Rightarrow> string" where
  "PipeJoin_String by inner pfx =
     ''| join by ('' @ Join by '', '' @ '') ('' @ inner @ '')'' @ optional '' prefix '' pfx"

definition PipeJSONArrayConcat_String :: "string \<Rightarrow> bool \<Rightarrow> string \<Rightarrow> string \<Rightarrow> string" where
  "PipeJSONArrayConcat_String delimiter hasDelimiter from result =
     ''| json_array_concat'' @ (if hasDelimiter then '' '' @ [dquote] @ delimiter @ [dquote] else []) @
     optional '' from '' from @ optional '' as '' result"

definition PipeSplit_String :: "string \<Rightarrow> string \<Rightarrow> string \<Rightarrow> string" where
  "PipeSplit_String sep from result =
     ''| split '' @ [dquote] @ sep @ [dquote] @ optional '' from '' from @ optional '' as '' result"

definition PipeStreamContext_String :: "int \<Rightarrow> int \<Rightarrow> string" where
  "PipeStreamContext_String before after =
     ''| stream_context'' @ optionalInt '' before '' before @ optionalInt '' after '' after"

definition PipeUnpackWords_String :: "string \<Rightarrow> string \<Rightarrow> string" where
  "PipeUnpackWords_String from result = ''| unpack_words'' @ optional '' from '' from @ optional '' as '' result"

fun Pipe_String :: "unicode \<Rightarrow> Pipe \<Rightarrow> string" where
  "Pipe_String U (PipeUnpackJSON from keep) = PipeUnpackJSON_String from keep"
| "Pipe_String U (PipeFilter e) = ''| filter '' @ FilterExpr_String U e"
| "Pipe_String U (PipeLimit n) = ''| limit '' @ Itoa n"
| "Pipe_String U (PipeUnpackLogfmt from keep) = PipeUnpackLogfmt_String from keep"
| "Pipe_String U (PipeExtract pat from cond) = PipeExtract_String U pat from cond"
| "Pipe_String U (PipeExtractRegexp pat from) = PipeExtractRegexp_String pat from"
| "Pipe_String U (PipeFields ls) = ''| fields '' @ Join ls '', ''"
| "Pipe_String U (PipeDelete ls) = ''| delete '' @ Join ls '', ''"
| "Pipe_String U (PipeFormat t r) = PipeFormat_String U t r"
| "Pipe_String U (PipeRename ps) = PipeRename_String ps"
| "Pipe_String U (PipeReplace f old new) = PipeReplace_String U f old new"
| "Pipe_String U (PipeReplaceRegexp f re new) = PipeReplaceRegexp_String U f re new"
| "Pipe_String U (PipePackJSON fs r) = PipePackJSON_String fs r"
| "Pipe_String U (PipePackLogfmt fs r) = PipePackLogfmt_String fs r"
| "Pipe_String U (PipeStats by funcs) = pipeStatsString ''stats'' by funcs"
| "Pipe_String U (PipeMath e a) = ''| math '' @ e @ '' as '' @ a"
| "Pipe_String U (PipeSort by n) = PipeSort_String by n"
| "Pipe_String U (PipeTop n by) = PipeTop_String n by"
| "Pipe_String U (PipeFirst n by) = PipeFirst_String n by"
| "Pipe_String U (PipeLast n by) = PipeLast_String n by"
| "Pipe_String U (PipeSample n) = ''| sample '' @ Itoa n"
| "Pipe_String U (PipeOffset n) = ''| offset '' @ Itoa n"
| "Pipe_String U (PipeUniq by) = PipeUniq_String by"
| "Pipe_String U PipeFieldNames = ''| field_names''"
| "Pipe_String U PipeDropEmptyFields = ''| drop_empty_fields''"
| "Pipe_String U (PipeCopy ps) = PipeCopy_String ps"
| "Pipe_String U (PipeCoalesce fs d r) = PipeCoalesce_String fs d r"
| "Pipe_String U (PipeCollapseNums f) = PipeCollapseNums_String f"
| "Pipe_String U (PipeDecolorize f) = PipeDecolorize_String f"
| "Pipe_String U (PipeFacets n) = PipeFacets_String n"
| "Pipe_String U (PipeFieldValues f n) = PipeFieldValues_String f n"
| "Pipe_String U (PipeGenerateSequence n) = ''| generate_sequence limit '' @ Itoa n"
| "Pipe_String U (PipeHash fs r) = PipeHash_String fs r"
| "Pipe_String U (PipeJoin by inner p) = PipeJoin_String by inner p"
| "Pipe_String U (PipeJSONArrayLen f r) = ''| json_array_len('' @ f @ '') as '' @ r"
| "Pipe_String U (PipeJSONArrayConcat d h from r) = PipeJSONArrayConcat_String d h from r"
| "Pipe_String U (PipeLen f r) = ''| len('' @ f @ '') as '' @ r"
| "Pipe_String U PipeQueryStats = ''| query_stats''"
| "Pipe_String U (PipeRunningStats by funcs) = pipeStatsString ''running_stats'' by funcs"
| "Pipe_String U (PipeSetStreamFields fs) = ''| set_stream_fields '' @ Join fs '', ''"
| "Pipe_String U (PipeSplit s from r) = PipeSplit_String s from r"
| "Pipe_String U (PipeStreamContext b a) = PipeStreamContext_String b a"
| "Pipe_String U (PipeTimeAdd d) = ''| time_add '' @ d"
| "Pipe_String U (PipeTotalStats by funcs) = pipeStatsString ''total_stats'' by funcs"
| "Pipe_String U (PipeUnion inner) = ''| union ('' @ inner @ '')''"
| "Pipe_String U PipeUnpackSyslog = ''| unpack_syslog''"
| "Pipe_String U (PipeUnpackWords from r) = PipeUnpackWords_String from r"
| "Pipe_String U (PipeUnroll fs) = ''| unroll ('' @ Join fs '', '' @ '')''"
| "Pipe_String U (PipeUpdate f e) = ''| update '' @ f @ '' = '' @ e"

subsection \<open>Queries\<close>

record Query =
  q_Filter :: "FilterExpr option"
  q_Pipes :: "Pipe list"

definition Query_String :: "unicode \<Rightarrow> Query \<Rightarrow> string" where
  "Query_String U q =
     (case q_Filter q of None \<Rightarrow> ''*'' | Some f \<Rightarrow> FilterExpr_String U f) @
     concat (map (\<lambda>p. '' '' @ Pipe_String U p) (q_Pipes q))"

end
