(* ===== verification/LogsqlScanner.thy ===== *)
theory LogsqlScanner
  imports LogsqlAst
begin

text \<open>
  The scanner of LogsQL queries, \<^verbatim>\<open>internal/logsql/scanner.go\<close>. A scanner is the text it
  has not read yet, \<^verbatim>\<open>s.src[s.pos:]\<close>: no method looks back. All runes that the code compares
  with are ASCII, and a byte below 0x80 is a rune of its own, so the comparisons are made on bytes;
  \<^verbatim>\<open>DecodeRuneInString\<close> is left where its width matters.
\<close>

subsection \<open>Tokens\<close>

datatype TokType =
  TokEOF | TokError
| TokLBrace | TokRBrace | TokLBracket | TokRBracket | TokLParen | TokRParen | TokComma | TokPipe | TokStar | TokColon
| TokColonEq | TokColonTilde | TokColonGT | TokColonGTE | TokColonLT | TokColonLTE
| TokEq | TokNeq | TokReMatch | TokReNotMatch | TokTilde
| TokAnd | TokOr | TokNot
| TokIdent | TokString | TokRawString

text \<open>The token types in the order of their numbers, with their names.\<close>

definition tokNames :: "(TokType \<times> string) list" where
  "tokNames =
     [(TokEOF, ''EOF''), (TokError, ''Error''),
      (TokLBrace, ''LBrace''), (TokRBrace, ''RBrace''), (TokLBracket, ''LBracket''), (TokRBracket, ''RBracket''),
      (TokLParen, ''LParen''), (TokRParen, ''RParen''),
      (TokComma, ''Comma''), (TokPipe, ''Pipe''), (TokStar, ''Star''), (TokColon, ''Colon''),
      (TokColonEq, ''ColonEq''), (TokColonTilde, ''ColonTilde''), (TokColonGT, ''ColonGT''),
      (TokColonGTE, ''ColonGTE''), (TokColonLT, ''ColonLT''), (TokColonLTE, ''ColonLTE''),
      (TokEq, ''Eq''), (TokNeq, ''Neq''), (TokReMatch, ''ReMatch''), (TokReNotMatch, ''ReNotMatch''),
      (TokTilde, ''Tilde''),
      (TokAnd, ''And''), (TokOr, ''Or''), (TokNot, ''Not''),
      (TokIdent, ''Ident''), (TokString, ''String''), (TokRawString, ''RawString'')]"

definition TokType_String :: "TokType \<Rightarrow> string" where
  "TokType_String t = the (map_of tokNames t)"

definition tokNumber :: "TokType \<Rightarrow> int" where
  "tokNumber t = int (length (takeWhile (\<lambda>x. fst x \<noteq> t) tokNames))"

record Token =
  Typ :: TokType
  Val :: string

abbreviation Tok :: "TokType \<Rightarrow> string \<Rightarrow> Token" where
  "Tok t v \<equiv> \<lparr>Typ = t, Val = v\<rparr>"

subsection \<open>Scanning\<close>

type_synonym Scanner = string

definition isWS :: "char \<Rightarrow> bool" where
  "isWS c \<longleftrightarrow> c = CHR '' '' \<or> c = CHR 0x09 \<or> c = CHR 0x0A \<or> c = CHR 0x0D"

definition skipWS :: "Scanner \<Rightarrow> Scanner" where
  "skipWS s = dropWhile isWS s"

definition isIdentRune :: "char \<Rightarrow> bool" where
  "isIdentRune c \<longleftrightarrow>
     (let r = (of_char c :: nat)
      in c = CHR ''_'' \<or> c = CHR ''.'' \<or> c = CHR ''-'' \<or> c = CHR ''/'' \<or>
         (97 \<le> r \<and> r \<le> 122) \<or> (65 \<le> r \<and> r \<le> 90) \<or> (48 \<le> r \<and> r \<le> 57))"

text \<open>What an escape sequence in a quoted string stands for.\<close>

definition unescape :: "char \<Rightarrow> string" where
  "unescape c =
     (if c = CHR ''n'' then [CHR 0x0A]
      else if c = CHR ''t'' then [CHR 0x09]
      else if c = dquote then [dquote]
      else if c = backslash then [backslash]
      else [backslash, c])"

fun scanQuotedLoop :: "string \<Rightarrow> Scanner \<Rightarrow> Token \<times> Scanner" where
  "scanQuotedLoop b [] = (Tok TokError ''unterminated string'', [])"
| "scanQuotedLoop b (c # s) =
     (if c = dquote then (Tok TokString b, s)
      else if c = backslash \<and> s \<noteq> [] then scanQuotedLoop (b @ unescape (hd s)) (tl s)
      else scanQuotedLoop (b @ [c]) s)"

definition scanQuoted :: "Scanner \<Rightarrow> Token \<times> Scanner" where
  "scanQuoted s = scanQuotedLoop [] (tl s)"

definition scanRaw :: "Scanner \<Rightarrow> Token \<times> Scanner" where
  "scanRaw s =
     (let s1 = tl s
      in (Tok TokRawString (takeWhile (\<lambda>c. c \<noteq> backquote) s1), tl (dropWhile (\<lambda>c. c \<noteq> backquote) s1)))"

definition scanColon :: "Scanner \<Rightarrow> Token \<times> Scanner" where
  "scanColon s =
     (case tl s of
        [] \<Rightarrow> (Tok TokColon '':'', [])
      | c # s1 \<Rightarrow>
          if c = CHR ''='' then (Tok TokColonEq '':='', s1)
          else if c = CHR ''~'' then (Tok TokColonTilde '':~'', s1)
          else if c = CHR ''>'' then
            (if take 1 s1 = ''='' then (Tok TokColonGTE '':>='', tl s1) else (Tok TokColonGT '':>'', s1))
          else if c = CHR ''<'' then
            (if take 1 s1 = ''='' then (Tok TokColonLTE '':<='', tl s1) else (Tok TokColonLT '':<'', s1))
          else (Tok TokColon '':'', c # s1))"

definition keyword :: "string \<Rightarrow> TokType" where
  "keyword val =
     (if val = ''AND'' then TokAnd else if val = ''OR'' then TokOr else if val = ''NOT'' then TokNot else TokIdent)"

definition scanIdent :: "Scanner \<Rightarrow> Token \<times> Scanner" where
  "scanIdent s =
     (let val = takeWhile isIdentRune s; s1 = dropWhile isIdentRune s
      in if val = [] then
           let size = snd (decodeRune s)
           in (Tok TokError (''unexpected character: '' @ take size s), drop size s)
         else (Tok (keyword val) val, s1))"

definition punct :: "char \<Rightarrow> TokType option" where
  "punct c =
     (if c = CHR ''{'' then Some TokLBrace
      else if c = CHR ''}'' then Some TokRBrace
      else if c = CHR ''['' then Some TokLBracket
      else if c = CHR '']'' then Some TokRBracket
      else if c = CHR ''('' then Some TokLParen
      else if c = CHR '')'' then Some TokRParen
      else if c = CHR '','' then Some TokComma
      else if c = CHR ''|'' then Some TokPipe
      else if c = CHR ''*'' then Some TokStar
      else None)"

definition scanEq :: "Scanner \<Rightarrow> Token \<times> Scanner" where
  "scanEq s =
     (let s1 = tl s
      in if take 1 s1 = ''~'' then (Tok TokReMatch ''=~'', tl s1) else (Tok TokEq ''='', s1))"

definition scanBang :: "Scanner \<Rightarrow> Token \<times> Scanner" where
  "scanBang s =
     (let s1 = tl s
      in if take 1 s1 = ''='' then (Tok TokNeq ''!='', tl s1)
         else if take 1 s1 = ''~'' then (Tok TokReNotMatch ''!~'', tl s1)
         else (Tok TokError ''unexpected !'', s1))"

definition Next :: "Scanner \<Rightarrow> Token \<times> Scanner" where
  "Next s0 =
     (let s = skipWS s0
      in case s of
           [] \<Rightarrow> (Tok TokEOF [], [])
         | ch # s1 \<Rightarrow>
             (case punct ch of
                Some t \<Rightarrow> (Tok t [ch], s1)
              | None \<Rightarrow>
                  if ch = dquote then scanQuoted s
                  else if ch = backquote then scanRaw s
                  else if ch = CHR '':'' then scanColon s
                  else if ch = CHR ''='' then scanEq s
                  else if ch = CHR ''!'' then scanBang s
                  else if ch = CHR ''~'' then (Tok TokTilde ''~'', s1)
                  else scanIdent s))"

text \<open>\<open>Remaining\<close> is the scanner itself; \<open>AdvanceTo\<close> with the byte 0 goes to the end.\<close>

definition Remaining :: "Scanner \<Rightarrow> string" where
  "Remaining s = s"

definition AdvanceTo :: "char \<Rightarrow> Scanner \<Rightarrow> Scanner" where
  "AdvanceTo ch s = (if ch = CHR 0x00 then [] else dropWhile (\<lambda>c. c \<noteq> ch) s)"

definition Skip :: "nat \<Rightarrow> Scanner \<Rightarrow> Scanner" where
  "Skip n s = drop n s"

end
