(* ===== verification/LogsqlParser.thy ===== *)
theory LogsqlParser
  imports LogsqlScanner GoResult "HOL-Library.Sublist"
begin

text \<open>
  The parser of LogsQL queries, \<^verbatim>\<open>internal/logsql/parser.go\<close>. Every method is a function of the
  parser state that returns a value and the new state, an error with the text the code builds,
  \<open>Panic\<close> where a slice expression is out of range, or \<open>Loop\<close> when the fuel of the mutually recursive
  methods for filters runs out. Loops that only consume tokens are recursive functions that end
  because every token makes the unread text shorter.

  The state is the scanner in front of the next token: the one-token buffer of the code remembers
  the result of \<open>Next\<close>, so \<open>peek\<close> is its token and \<open>advance\<close> is \<open>Next\<close> itself (\<open>buffered_reads\<close>).
  Where the code clears the buffer and goes on with the raw text, it has just consumed a token and
  the buffer is empty.
\<close>

subsection \<open>Progress of the scanner\<close>

lemma dropWhile_length: "length (dropWhile P s) \<le> length s"
  by (induction s) auto

lemma scanQuotedLoop_length: "length (snd (scanQuotedLoop b s)) \<le> length s"
proof (induction b s rule: scanQuotedLoop.induct)
  case (2 b c s)
  then show ?case by (cases s) auto
qed simp

lemma Next_length_skipWS:
  assumes "skipWS s = c # t"
  shows "length (snd (Next s)) \<le> length t"
proof -
  have "length (snd (scanQuoted (c # t))) \<le> length t"
    using scanQuotedLoop_length [of "[]" t] by (simp add: scanQuoted_def)
  moreover have "length (snd (scanRaw (c # t))) \<le> length t"
    using dropWhile_length [of "\<lambda>c. c \<noteq> backquote" t] by (simp add: scanRaw_def Let_def)
  moreover have "length (snd (scanColon (c # t))) \<le> length t"
    by (auto simp: scanColon_def split: list.splits)
  moreover have "length (snd (scanEq (c # t))) \<le> length t" "length (snd (scanBang (c # t))) \<le> length t"
    by (simp_all add: scanEq_def scanBang_def Let_def)
  moreover have "length (snd (scanIdent (c # t))) \<le> length t"
  proof (cases "isIdentRune c")
    case True
    then show ?thesis
      using dropWhile_length [of isIdentRune t] by (simp add: scanIdent_def Let_def)
  next
    case False
    then show ?thesis
      using decodeRune_size [of "c # t"] by (simp add: scanIdent_def Let_def del: decodeRune.simps) linarith
  qed
  ultimately show ?thesis
    using assms by (cases "punct c") (auto simp: Next_def Let_def)
qed

lemma Next_EOF: "Typ (fst (Next s)) = TokEOF \<longleftrightarrow> skipWS s = []"
proof (cases "skipWS s")
  case Nil
  then show ?thesis by (simp add: Next_def)
next
  case (Cons c t)
  have "Typ (fst (scanQuotedLoop b u)) \<noteq> TokEOF" for b u
    by (induction b u rule: scanQuotedLoop.induct) auto
  moreover have "Typ (fst (scanColon u)) \<noteq> TokEOF" for u
    by (simp add: scanColon_def split: list.split)
  moreover have "punct c = Some x \<Longrightarrow> x \<noteq> TokEOF" for x
    by (auto simp: punct_def split: if_splits)
  ultimately show ?thesis
    using Cons by (auto simp: Next_def Let_def scanQuoted_def scanRaw_def scanEq_def scanBang_def scanIdent_def
        keyword_def split: option.split)
qed

lemma skipWS_length: "length (skipWS s) \<le> length s"
  by (simp add: skipWS_def dropWhile_length)

lemma Next_end: "skipWS s = [] \<Longrightarrow> Next s = (Tok TokEOF [], [])"
  by (simp add: Next_def)

lemma Next_shorter: "Typ (fst (Next s)) \<noteq> TokEOF \<Longrightarrow> length (snd (Next s)) < length s"
  using Next_length_skipWS [of s] skipWS_length [of s] Next_EOF [of s] by (cases "skipWS s") auto

lemma Next_length: "length (snd (Next s)) \<le> length s"
  using Next_shorter [of s] Next_end [of s] Next_EOF [of s] by fastforce

subsection \<open>The parser state\<close>

record bufferedParser =
  bp_sc :: Scanner
  bp_buf :: "Token option"

definition buf_peek :: "bufferedParser \<Rightarrow> Token \<times> bufferedParser" where
  "buf_peek p =
     (case bp_buf p of
        None \<Rightarrow> let (tok, s) = Next (bp_sc p) in (tok, p\<lparr>bp_sc := s, bp_buf := Some tok\<rparr>)
      | Some tok \<Rightarrow> (tok, p))"

definition buf_advance :: "bufferedParser \<Rightarrow> Token \<times> bufferedParser" where
  "buf_advance p = (let (tok, p1) = buf_peek p in (tok, p1\<lparr>bp_buf := None\<rparr>))"

definition peek :: "Scanner \<Rightarrow> Token" where
  "peek s = fst (Next s)"

definition advance :: "Scanner \<Rightarrow> Token \<times> Scanner" where
  "advance s = Next s"

text \<open>The state after \<open>advance\<close>, where the code ignores the token.\<close>

definition skip :: "Scanner \<Rightarrow> Scanner" where
  "skip s = snd (advance s)"

text \<open>\<open>reads p s\<close>: the parser of the code is in front of the text \<open>s\<close>.\<close>

definition reads :: "bufferedParser \<Rightarrow> Scanner \<Rightarrow> bool" where
  "reads p s \<longleftrightarrow> (case bp_buf p of None \<Rightarrow> bp_sc p = s | Some tok \<Rightarrow> Next s = (tok, bp_sc p))"

lemma buffered_reads:
  assumes "reads p s"
  shows "fst (buf_peek p) = peek s" "reads (snd (buf_peek p)) s"
    "fst (buf_advance p) = fst (advance s)" "reads (snd (buf_advance p)) (snd (advance s))"
    "bp_buf (snd (buf_advance p)) = None"
  using assms
  by (auto simp: reads_def buf_peek_def buf_advance_def peek_def advance_def split_beta split: option.splits)

abbreviation peekTyp :: "Scanner \<Rightarrow> TokType" where
  "peekTyp s \<equiv> Typ (peek s)"

lemma skip_length: "length (skip s) \<le> length s"
  using Next_length by (simp add: skip_def advance_def)

lemma skip_shorter: "peekTyp s \<noteq> TokEOF \<Longrightarrow> length (skip s) < length s"
  using Next_shorter by (simp add: skip_def advance_def peek_def)

lemma advance_peek: "advance s = (peek s, skip s)"
  by (simp add: peek_def skip_def advance_def)

definition expect :: "unicode \<Rightarrow> TokType \<Rightarrow> Scanner \<Rightarrow> (Token \<times> Scanner) res" where
  "expect U typ s =
     (let (tok, s1) = advance s
      in if Typ tok \<noteq> typ
         then Err (Errorf (''logsql: expected '' @ TokType_String typ @ '', got '' @ Quote U (Val tok) @
                           '' ('' @ TokType_String (Typ tok) @ '')''))
         else Ok (tok, s1))"

definition gotType :: "unicode \<Rightarrow> string \<Rightarrow> Token \<Rightarrow> goError" where
  "gotType U what tok =
     Errorf (''logsql: expected '' @ what @ '', got '' @ Quote U (Val tok) @ '' (type '' @ Itoa (tokNumber (Typ tok)) @ '')'')"

definition expectIdent :: "unicode \<Rightarrow> Scanner \<Rightarrow> (string \<times> Scanner) res" where
  "expectIdent U s =
     (let (tok, s1) = advance s
      in if Typ tok \<noteq> TokIdent then Err (gotType U ''identifier'' tok) else Ok (Val tok, s1))"

definition expectString :: "unicode \<Rightarrow> Scanner \<Rightarrow> (string \<times> Scanner) res" where
  "expectString U s =
     (let (tok, s1) = advance s
      in if Typ tok \<noteq> TokString then Err (gotType U ''string literal'' tok) else Ok (Val tok, s1))"

text \<open>Whether the next token is the identifier \<open>w\<close>.\<close>

definition atWord :: "string \<Rightarrow> Scanner \<Rightarrow> bool" where
  "atWord w s \<longleftrightarrow> peekTyp s = TokIdent \<and> Val (peek s) = w"

lemma expect_shorter:
  "expect U typ s = Ok (t, s1) \<Longrightarrow> typ \<noteq> TokEOF \<Longrightarrow> length s1 < length s"
  "expectIdent U s = Ok (v, s1) \<Longrightarrow> length s1 < length s"
  "expectString U s = Ok (v, s1) \<Longrightarrow> length s1 < length s"
  using skip_shorter [of s]
  by (auto simp: expect_def expectIdent_def expectString_def advance_peek split: if_splits)

text \<open>Skips a token of the given type, if it is the next one.\<close>

definition skipIf :: "TokType \<Rightarrow> Scanner \<Rightarrow> Scanner" where
  "skipIf typ s = (if peekTyp s = typ then skip s else s)"

lemma skipIf_length: "length (skipIf typ s) \<le> length s"
  using skip_length by (simp add: skipIf_def)

subsection \<open>Results that stay inside the text\<close>

text \<open>
  \<open>inside s r\<close>: the result is a value, and the state it carries a suffix of \<open>s\<close>, or an error; it is
  neither a panic nor an end of the fuel. The rules follow the shape of the methods.
\<close>

named_theorems inside_rules "the parser's methods return and go on with a suffix of the text"

fun inside :: "Scanner \<Rightarrow> ('a \<times> Scanner) res \<Rightarrow> bool" where
  "inside s (Ok x) = suffix (snd x) s"
| "inside s (Err e) = True"
| "inside s Panic = False"
| "inside s Loop = False"

lemma scanQuotedLoop_suffix: "suffix (snd (scanQuotedLoop b s)) s"
proof (induction b s rule: scanQuotedLoop.induct)
  case (2 b c s)
  have "suffix (tl s) (c # s)" by (meson suffix_ConsI suffix_tl)
  with 2 show ?case by (auto intro: suffix_ConsI suffix_order.trans)
qed simp

lemma suffix_tl2 [intro]: "suffix (tl t) (c # t)"
  by (meson suffix_ConsI suffix_tl)

lemma suffix_tl_drop [intro]: "suffix (tl (dropWhile P t)) (c # t)"
  by (meson suffix_ConsI suffix_dropWhile suffix_order.trans suffix_tl)

lemma Next_suffix: "suffix (snd (Next s)) s"
proof (cases "skipWS s")
  case Nil
  then show ?thesis by (simp add: Next_end)
next
  case (Cons c t)
  have "suffix (snd (scanQuoted (c # t))) (c # t)" "suffix (snd (scanRaw (c # t))) (c # t)"
    using scanQuotedLoop_suffix [of "[]" t] by (auto simp: scanQuoted_def scanRaw_def Let_def intro: suffix_ConsI)
  moreover have "suffix (snd (scanColon (c # t))) (c # t)"
    by (cases t) (auto simp: scanColon_def intro: suffix_ConsI)
  moreover have "suffix (snd (scanEq (c # t))) (c # t)" "suffix (snd (scanBang (c # t))) (c # t)"
    by (auto simp: scanEq_def scanBang_def Let_def intro: suffix_ConsI)
  moreover have "suffix (snd (scanIdent (c # t))) (c # t)"
    using suffix_dropWhile [of isIdentRune "c # t"] suffix_drop [of _ "c # t"]
    by (simp add: scanIdent_def Let_def del: dropWhile.simps takeWhile.simps)
  ultimately have "suffix (snd (Next s)) (c # t)"
    using Cons by (cases "punct c") (auto simp: Next_def Let_def intro: suffix_ConsI)
  then show ?thesis
    using Cons suffix_dropWhile [of isWS s] by (metis skipWS_def suffix_order.trans)
qed

lemma skip_suffix: "suffix (skip s) s"
  using Next_suffix by (simp add: skip_def advance_def)

lemma skip_suffixI [inside_rules]: "suffix s1 s \<Longrightarrow> suffix (skip s1) s" "suffix s1 s \<Longrightarrow> suffix (skipIf typ s1) s"
  using skip_suffix [of s1] by (auto simp: skipIf_def intro: suffix_order.trans)

lemma inside_bind [inside_rules]:
  "inside s r \<Longrightarrow> (\<And>x s1. r = Ok (x, s1) \<Longrightarrow> suffix s1 s \<Longrightarrow> inside s (f (x, s1))) \<Longrightarrow> inside s (bindR r f)"
  by (cases r) auto

lemma inside_later: "inside s1 r \<Longrightarrow> suffix s1 s \<Longrightarrow> inside s r"
  by (cases r) (auto intro: suffix_order.trans)

lemma inside_mapErr [simp]: "inside s (mapErr f r) = inside s r"
  by (cases r) simp_all

lemma inside_expect [inside_rules]:
  "suffix s1 s \<Longrightarrow> inside s (expect U typ s1)"
  "suffix s1 s \<Longrightarrow> inside s (expectIdent U s1)"
  "suffix s1 s \<Longrightarrow> inside s (expectString U s1)"
  using skip_suffixI(1) [of s1 s] by (simp_all add: expect_def expectIdent_def expectString_def advance_peek)

subsection \<open>Lists of tokens\<close>

text \<open>The loop of \<^verbatim>\<open>contains_all\<close> and \<^verbatim>\<open>contains_any\<close>: strings and words, whatever is between them.\<close>

function containsLoop :: "string list \<Rightarrow> Scanner \<Rightarrow> string list \<times> Scanner" where
  "containsLoop parts s =
     (if peekTyp s = TokRParen \<or> peekTyp s = TokEOF then (parts, s)
      else containsLoop (if peekTyp s = TokString \<or> peekTyp s = TokIdent then parts @ [Val (peek s)] else parts) (skip s))"
  by pat_completeness auto
termination
  by (relation "measure (\<lambda>(parts, s). length s)") (auto intro: skip_shorter)

declare containsLoop.simps [simp del]

text \<open>\<open>consumeUntilRParen\<close>: the values of the tokens up to the parenthesis, one after the other.\<close>

function rparenLoop :: "string \<Rightarrow> Scanner \<Rightarrow> (string \<times> Scanner) res" where
  "rparenLoop parts s =
     (if peekTyp s = TokRParen then Ok (parts, skip s)
      else if peekTyp s = TokEOF then Err (Errorf ''logsql: unclosed parenthesis'')
      else rparenLoop (parts @ Val (peek s)) (skip s))"
  by pat_completeness auto
termination
  by (relation "measure (\<lambda>(parts, s). length s)") (auto intro: skip_shorter)

declare rparenLoop.simps [simp del]

definition consumeUntilRParen :: "Scanner \<Rightarrow> (string \<times> Scanner) res" where
  "consumeUntilRParen s = rparenLoop [] s"

definition labelOp :: "Token \<Rightarrow> string option" where
  "labelOp tok =
     (case Typ tok of
        TokEq \<Rightarrow> Some ''='' | TokNeq \<Rightarrow> Some ''!='' | TokReMatch \<Rightarrow> Some ''=~'' | TokReNotMatch \<Rightarrow> Some ''!~'' | _ \<Rightarrow> None)"

function streamLoop :: "unicode \<Rightarrow> LabelMatcher list \<Rightarrow> Scanner \<Rightarrow> (FilterExpr \<times> Scanner) res" where
  "streamLoop U matchers s =
     (if peekTyp s = TokRBrace then Ok (StreamFilter matchers, skip s)
      else if peekTyp s = TokEOF then Err (Errorf ''logsql: unclosed stream filter {'')
      else bindR (mapErr (\<lambda>m. Errorf (''logsql: expected label name in stream filter: '' @ m)) (expectIdent U s)) (\<lambda>(name, s1).
           case labelOp (peek s1) of
             None \<Rightarrow> Err (Errorf (''logsql: expected label operator in stream filter, got '' @ Quote U (Val (peek s1))))
           | Some op \<Rightarrow>
               bindR (mapErr (\<lambda>m. Errorf (''logsql: expected label value string in stream filter: '' @ m))
                       (expectString U (skip s1))) (\<lambda>(val, s2).
               streamLoop U (matchers @ [\<lparr>lm_Name = name, lm_Op = op, lm_Value = val\<rparr>]) (skipIf TokComma s2))))"
  by pat_completeness auto
termination
proof (relation "measure (\<lambda>(U, matchers, s). length s)", goal_cases)
  case (2 U matchers s x name s1 op y val s2)
  then have "expectIdent U s = Ok (name, s1)" "expectString U (skip s1) = Ok (val, s2)"
    by (cases "expectIdent U s"; cases "expectString U (skip s1)"; auto)+
  then show ?case
    using expect_shorter(2) [of U s] expect_shorter(3) [of U "skip s1"] skip_length [of s1] skipIf_length [of TokComma s2]
    by force
qed simp

declare streamLoop.simps [simp del]

definition parseStreamFilter :: "unicode \<Rightarrow> Scanner \<Rightarrow> (FilterExpr \<times> Scanner) res" where
  "parseStreamFilter U s = streamLoop U [] (skip s)"

subsection \<open>Atoms\<close>

text \<open>\<open>strings.TrimLeft\<close> with a set of bytes.\<close>

definition TrimLeft :: "string \<Rightarrow> string \<Rightarrow> string" where
  "TrimLeft s cutset = dropWhile (\<lambda>c. c \<in> set cutset) s"

definition parseBracketRange :: "string \<Rightarrow> Scanner \<Rightarrow> (FilterExpr \<times> Scanner) res" where
  "parseBracketRange kind s =
     (let rest = TrimLeft (Remaining s) ('' '' @ [CHR 0x09])
      in if \<not> HasPrefix rest ''['' then Err (Errorf (''logsql: expected [ after '' @ kind))
         else case IndexByte rest (CHR '']'') of
                None \<Rightarrow> Err (Errorf (''logsql: unclosed [ after '' @ kind))
              | Some end \<Rightarrow>
                  let bracket = take (end + 1) rest;
                      s1 = Skip (length (Remaining s) - length rest + end + 1) s;
                      (offset, s2) =
                        (if atWord ''offset'' s1 then
                           let s2 = skip s1 in if peekTyp s2 = TokIdent then (Val (peek s2), skip s2) else ([], s2)
                         else ([], s1))
                  in Ok (if kind = ''day_range'' then DayRange bracket offset else WeekRange bracket offset, s2))"

definition parseTimeFilter :: "unicode \<Rightarrow> Scanner \<Rightarrow> (FilterExpr \<times> Scanner) res" where
  "parseTimeFilter U s =
     (if peekTyp s \<noteq> TokColon
      then Err (Errorf (''logsql: expected '' @ [CHR 0x27, CHR '':'', CHR 0x27] @ '' after _time, got '' @ Quote U (Val (peek s))))
      else let s1 = skip s; rangeTok = peek s1
           in if Typ rangeTok \<noteq> TokIdent
              then Err (Errorf (''logsql: expected time range after _time:, got '' @ Quote U (Val rangeTok)))
              else let s2 = skip s1
                   in if Val rangeTok = ''day_range'' \<or> Val rangeTok = ''week_range''
                      then parseBracketRange (Val rangeTok) s2
                      else Ok (TimeFilter (Val rangeTok), s2))"

text \<open>The bounds of \<^verbatim>\<open>len_range\<close>: spaces removed, split at the first comma.\<close>

definition lenBounds :: "string \<Rightarrow> string \<times> string" where
  "lenBounds raw =
     (let parts = SplitN (ReplaceByte raw (CHR '' '') []) (CHR '','') 2
      in (parts ! 0, if length parts > 1 then parts ! 1 else []))"

definition fieldFilter :: "string \<Rightarrow> FieldOp \<Rightarrow> string \<Rightarrow> FilterExpr" where
  "fieldFilter f op v = FieldFilterE \<lparr>ff_Field = f, ff_Op = op, ff_Value = v, ff_Negate = False\<rparr>"

text \<open>\<open>field:op(...)\<close>: the raw arguments, or one identifier.\<close>

definition rawArgs :: "unicode \<Rightarrow> string \<Rightarrow> FieldOp \<Rightarrow> Scanner \<Rightarrow> (FilterExpr \<times> Scanner) res" where
  "rawArgs U field op s =
     bindR (expect U TokLParen s) (\<lambda>(_, s1).
     bindR (consumeUntilRParen s1) (\<lambda>(val, s2). Ok (fieldFilter field op val, s2)))"

definition identArg :: "unicode \<Rightarrow> string \<Rightarrow> FieldOp \<Rightarrow> Scanner \<Rightarrow> (FilterExpr \<times> Scanner) res" where
  "identArg U field op s =
     bindR (expect U TokLParen s) (\<lambda>(_, s1).
     bindR (expectIdent U s1) (\<lambda>(other, s2).
     bindR (expect U TokRParen s2) (\<lambda>(_, s3). Ok (fieldFilter field op other, s3))))"

definition rawFieldOps :: "(string \<times> FieldOp) list" where
  "rawFieldOps =
     [(''range'', FieldOpRange), (''in'', FieldOpIn), (''ipv4_range'', FieldOpIPv4Range), (''ipv6_range'', FieldOpIPv6Range),
      (''string_range'', FieldOpStringRange), (''json_array_contains_any'', FieldOpJSONArrayContainsAny),
      (''contains_common_case'', FieldOpContainsCommonCase), (''equals_common_case'', FieldOpEqualsCommonCase)]"

definition identFieldOps :: "(string \<times> FieldOp) list" where
  "identFieldOps = [(''eq_field'', FieldOpEqField), (''le_field'', FieldOpLeField), (''value_type'', FieldOpValueType)]"

definition parseBareCsFilterValue :: "unicode \<Rightarrow> string \<Rightarrow> Scanner \<Rightarrow> (FilterExpr \<times> Scanner) res" where
  "parseBareCsFilterValue U field s =
     (let tok = peek s; s1 = skip s
      in if Typ tok = TokStar then
           (if peekTyp s1 = TokIdent then
              let word = Val (peek s1); s2 = skip s1
              in if peekTyp s2 = TokStar then Ok (fieldFilter field FieldOpSubstring word, skip s2)
                 else Err (Errorf (''logsql: expected * after '' @ field @ '':*'' @ word @ '' for substring filter''))
            else Ok (fieldFilter field FieldOpAny [], s1))
         else if Typ tok = TokString then
           (if Val tok = [] then Ok (fieldFilter field FieldOpEmpty [], s1)
            else Ok (fieldFilter field FieldOpExact (Val tok), s1))
         else if Typ tok = TokIdent then
           (let ident = Val tok
            in case map_of rawFieldOps ident of
                 Some op \<Rightarrow> rawArgs U field op s1
               | None \<Rightarrow>
                   (case map_of identFieldOps ident of
                      Some op \<Rightarrow> identArg U field op s1
                    | None \<Rightarrow>
                        if ident = ''len_range'' then
                          bindR (expect U TokLParen s1) (\<lambda>(_, s2).
                          bindR (consumeUntilRParen s2) (\<lambda>(raw, s3).
                          let (mn, mx) = lenBounds raw in Ok (LenRange field mn mx, s3)))
                        else if ident = ''pattern'' then
                          bindR (expect U TokLParen s1) (\<lambda>(_, s2).
                          bindR (consumeUntilRParen s2) (\<lambda>(raw, s3). Ok (PatternMatch field raw, s3)))
                        else if peekTyp s1 = TokStar then Ok (fieldFilter field FieldOpPrefix ident, skip s1)
                        else Ok (fieldFilter field FieldOpExact ident, s1)))
         else Err (Errorf (''logsql: unexpected token '' @ Quote U (Val tok) @ '' after field '' @ Quote U field)))"

text \<open>The case \<^verbatim>\<open>i(...)\<close> of \<open>parseIdentOrFieldFilter\<close>, after the parenthesis.\<close>

definition parseAnyCase :: "unicode \<Rightarrow> Scanner \<Rightarrow> (FilterExpr \<times> Scanner) res" where
  "parseAnyCase U s =
     (if peekTyp s = TokString then
        bindR (expect U TokRParen (skip s)) (\<lambda>(_, s1). Ok (CaseInsensitive (Val (peek s)), s1))
      else if peekTyp s = TokIdent then
        let word = Val (peek s); s1 = skip s
        in if peekTyp s1 = TokStar
           then bindR (expect U TokRParen (skip s1)) (\<lambda>(_, s2). Ok (AnyCasePrefix word, s2))
           else bindR (expect U TokRParen s1) (\<lambda>(_, s2). Ok (CaseInsensitive word, s2))
      else Err (Errorf (''logsql: unexpected token inside i(): '' @ Quote U (Val (peek s)))))"

definition compareOps :: "(TokType \<times> FieldOp) list" where
  "compareOps =
     [(TokColonGT, FieldOpGT), (TokColonGTE, FieldOpGTE), (TokColonLT, FieldOpLT), (TokColonLTE, FieldOpLTE)]"

text \<open>The field operators at the end of \<open>parseIdentOrFieldFilter\<close>.\<close>

definition parseFieldOp :: "unicode \<Rightarrow> string \<Rightarrow> Scanner \<Rightarrow> (FilterExpr \<times> Scanner) res" where
  "parseFieldOp U name s =
     (if peekTyp s = TokStar then Ok (Prefix name, skip s)
      else if peekTyp s = TokColonEq then
        bindR (expectString U (skip s)) (\<lambda>(val, s1). Ok (fieldFilter name FieldOpExact val, s1))
      else if peekTyp s = TokColonTilde then
        bindR (expectString U (skip s)) (\<lambda>(val, s1). Ok (fieldFilter name FieldOpRegexp val, s1))
      else case map_of compareOps (peekTyp s) of
             Some op \<Rightarrow> bindR (expectIdent U (skip s)) (\<lambda>(val, s1). Ok (fieldFilter name op val, s1))
           | None \<Rightarrow> if peekTyp s = TokColon then parseBareCsFilterValue U name (skip s) else Ok (Word name, s))"

definition parseIdentOrFieldFilter :: "unicode \<Rightarrow> Scanner \<Rightarrow> (FilterExpr \<times> Scanner) res" where
  "parseIdentOrFieldFilter U s0 =
     (let (tok, s) = advance s0; name = Val tok; called = (peekTyp s = TokLParen)
      in if name = ''_time'' then parseTimeFilter U s
         else if name = ''i'' then (if \<not> called then Ok (Word name, s) else parseAnyCase U (skip s))
         else if name = ''contains_all'' \<or> name = ''contains_any'' then
           (if \<not> called then Ok (Word name, s)
            else let (parts, s1) = containsLoop [] (skip s)
                 in bindR (expect U TokRParen s1) (\<lambda>(_, s2).
                    Ok (if name = ''contains_all'' then ContainsAll parts else ContainsAny parts, s2)))
         else if name = ''len_range'' then
           (if \<not> called then Ok (Word name, s)
            else bindR (consumeUntilRParen (skip s)) (\<lambda>(raw, s1).
                 let (mn, mx) = lenBounds raw in Ok (LenRange [] mn mx, s1)))
         else if name = ''pattern'' then
           (if \<not> called then Ok (Word name, s)
            else bindR (consumeUntilRParen (skip s)) (\<lambda>(raw, s1). Ok (PatternMatch [] raw, s1)))
         else parseFieldOp U name s)"

text \<open>\<open>parsePrimaryFilter\<close> but for its recursive case.\<close>

definition parseAtom :: "unicode \<Rightarrow> Scanner \<Rightarrow> (FilterExpr \<times> Scanner) res" where
  "parseAtom U s =
     (let tok = peek s; s1 = skip s
      in if Typ tok = TokLBrace then parseStreamFilter U s
         else if Typ tok = TokStar then
           (if peekTyp s1 = TokIdent then
              let ident = Val (peek s1); s2 = skip s1
              in if peekTyp s2 = TokStar then Ok (Substring ident, skip s2)
                 else Err (Errorf (''logsql: unrecognised pattern *'' @ ident @ '' (missing trailing *?)''))
            else Ok (Wildcard, s1))
         else if Typ tok = TokString then Ok (Phrase (Val tok), s1)
         else if Typ tok = TokEq then
           bindR (expectString U s1) (\<lambda>(val, s2).
           if peekTyp s2 = TokStar then Ok (ExactPrefix val, skip s2) else Ok (Exact val, s2))
         else if Typ tok = TokTilde then
           bindR (expectString U s1) (\<lambda>(val, s2). Ok (Regexp val, s2))
         else if Typ tok = TokIdent then parseIdentOrFieldFilter U s
         else Err (Errorf (''logsql: unexpected token '' @ Quote U (Val tok) @ '' (type '' @ Itoa (tokNumber (Typ tok)) @
                           '') in filter'')))"

subsection \<open>Filters\<close>

text \<open>
  OR, AND, NOT and parentheses. The first number is the fuel; the loops over the operands of OR and
  AND are functions of their own.
\<close>

function (sequential) parseOrExpr :: "unicode \<Rightarrow> nat \<Rightarrow> Scanner \<Rightarrow> (FilterExpr \<times> Scanner) res"
and orLoop :: "unicode \<Rightarrow> nat \<Rightarrow> FilterExpr \<Rightarrow> Scanner \<Rightarrow> (FilterExpr \<times> Scanner) res"
and parseAndExpr :: "unicode \<Rightarrow> nat \<Rightarrow> Scanner \<Rightarrow> (FilterExpr \<times> Scanner) res"
and andLoop :: "unicode \<Rightarrow> nat \<Rightarrow> FilterExpr \<Rightarrow> Scanner \<Rightarrow> (FilterExpr \<times> Scanner) res"
and parseNotExpr :: "unicode \<Rightarrow> nat \<Rightarrow> Scanner \<Rightarrow> (FilterExpr \<times> Scanner) res"
and parsePrimaryFilter :: "unicode \<Rightarrow> nat \<Rightarrow> Scanner \<Rightarrow> (FilterExpr \<times> Scanner) res"
where
  "parseOrExpr U 0 s = Loop"
| "parseOrExpr U (Suc n) s = bindR (parseAndExpr U n s) (\<lambda>(left, s1). orLoop U n left s1)"
| "orLoop U 0 left s = Loop"
| "orLoop U (Suc n) left s =
     (if peekTyp s = TokOr
      then bindR (parseAndExpr U n (skip s)) (\<lambda>(right, s1). orLoop U n (OrExpr left right) s1)
      else Ok (left, s))"
| "parseAndExpr U 0 s = Loop"
| "parseAndExpr U (Suc n) s = bindR (parseNotExpr U n s) (\<lambda>(left, s1). andLoop U n left s1)"
| "andLoop U 0 left s = Loop"
| "andLoop U (Suc n) left s =
     (if peekTyp s = TokAnd
      then bindR (parseNotExpr U n (skip s)) (\<lambda>(right, s1). andLoop U n (AndExpr left right) s1)
      else Ok (left, s))"
| "parseNotExpr U 0 s = Loop"
| "parseNotExpr U (Suc n) s =
     (if peekTyp s = TokNot
      then bindR (parseNotExpr U n (skip s)) (\<lambda>(e, s1). Ok (NotExpr e, s1))
      else parsePrimaryFilter U n s)"
| "parsePrimaryFilter U 0 s = Loop"
| "parsePrimaryFilter U (Suc n) s =
     (if peekTyp s = TokLParen
      then bindR (parseOrExpr U n (skip s)) (\<lambda>(inner, s1).
           bindR (expect U TokRParen s1) (\<lambda>(_, s2). Ok (inner, s2)))
      else parseAtom U s)"
  by pat_completeness auto
termination
  by (relation "measure (case_sum (case_sum (\<lambda>(U, n, s). n) (case_sum (\<lambda>(U, n, left, s). n) (\<lambda>(U, n, s). n)))
        (case_sum (\<lambda>(U, n, left, s). n) (case_sum (\<lambda>(U, n, s). n) (\<lambda>(U, n, s). n))))") auto

definition filterFuel :: "Scanner \<Rightarrow> nat" where
  "filterFuel s = 4 * length s + 5"

definition parseFilterExpr :: "unicode \<Rightarrow> Scanner \<Rightarrow> (FilterExpr \<times> Scanner) res" where
  "parseFilterExpr U s = parseOrExpr U (filterFuel s) s"

definition ParseFilter :: "unicode \<Rightarrow> string \<Rightarrow> FilterExpr res" where
  "ParseFilter U inp =
     bindR (parseFilterExpr U inp) (\<lambda>(f, s).
     if peekTyp s \<noteq> TokEOF
     then Err (Errorf (''logsql: unexpected token after filter: '' @ Quote U (Val (peek s))))
     else Ok f)"

end
