(* ===== verification/LogsqlPipes.thy ===== *)
theory LogsqlPipes
  imports LogsqlParser
begin

text \<open>
  The pipes of LogsQL queries, the second half of \<^verbatim>\<open>internal/logsql/parser.go\<close>, and the entry
  point \<open>Parse\<close>. The argument \<open>lo\<close> is \<^verbatim>\<open>unicode.ToLower\<close> above ASCII, which only
  \<open>parsePipeMath\<close> uses.
\<close>

subsection \<open>Numbers\<close>

text \<open>
  \<^verbatim>\<open>strconv.ParseFloat\<close> with its error ignored: 0 for a syntax error, an infinity for a value
  out of range. Underscores are allowed between digits and after a base prefix.
\<close>

definition is_hex :: "char \<Rightarrow> bool" where
  "is_hex c \<longleftrightarrow> unhex c \<noteq> None"

fun underscoresLoop :: "bool \<Rightarrow> char \<Rightarrow> string \<Rightarrow> bool" where
  "underscoresLoop hex saw [] = (saw \<noteq> CHR ''_'')"
| "underscoresLoop hex saw (c # s) =
     (if is_digit c \<or> hex \<and> is_hex c then underscoresLoop hex (CHR ''0'') s
      else if c = CHR ''_'' then saw = CHR ''0'' \<and> underscoresLoop hex c s
      else saw \<noteq> CHR ''_'' \<and> underscoresLoop hex (CHR ''!'') s)"

definition hasBasePrefix :: "string \<Rightarrow> string \<Rightarrow> bool" where
  "hasBasePrefix letters s \<longleftrightarrow> 2 \<le> length s \<and> s ! 0 = CHR ''0'' \<and> ToLowerByte (s ! 1) \<in> set letters"

definition underscoreOK :: "string \<Rightarrow> bool" where
  "underscoreOK s =
     (if hasBasePrefix ''box'' s then underscoresLoop (hasBasePrefix ''x'' s) (CHR ''0'') (drop 2 s)
      else underscoresLoop False (CHR ''^'') s)"

text \<open>The digits of the mantissa, how many of them come after the point, and the rest.\<close>

fun readMantissa :: "bool \<Rightarrow> bool \<Rightarrow> string \<Rightarrow> string \<times> nat \<times> string" where
  "readMantissa hex dot [] = ([], 0, [])"
| "readMantissa hex dot (c # s) =
     (if c = CHR ''_'' then readMantissa hex dot s
      else if c = CHR ''.'' then (if dot then ([], 0, c # s) else readMantissa hex True s)
      else if is_digit c \<or> hex \<and> is_hex c then
        let (ds, k, r) = readMantissa hex dot s in (c # ds, k + (if dot then 1 else 0), r)
      else ([], 0, c # s))"

fun expDigits :: "int \<Rightarrow> string \<Rightarrow> int" where
  "expDigits e [] = e"
| "expDigits e (c # s) =
     (if c = CHR ''_'' then expDigits e s
      else expDigits (if e < 10000 then e * 10 + (of_char c - 48) else e) s)"

text \<open>The exponent when the text after the mantissa is one, or nothing.\<close>

definition readExponent :: "bool \<Rightarrow> string \<Rightarrow> int option" where
  "readExponent hex r =
     (if r = [] then (if hex then None else Some 0)
      else if ToLowerByte (hd r) \<noteq> (if hex then CHR ''p'' else CHR ''e'') then None
      else let t = tl r; neg = (t \<noteq> [] \<and> hd t = CHR ''-''); ds = (if t \<noteq> [] \<and> (hd t = CHR ''+'' \<or> hd t = CHR ''-'') then tl t else t)
           in if ds = [] \<or> \<not> is_digit (hd ds) \<or> \<not> list_all (\<lambda>c. is_digit c \<or> c = CHR ''_'') ds then None
              else Some (if neg then - expDigits 0 ds else expDigits 0 ds))"

definition hex_val :: "string \<Rightarrow> int" where
  "hex_val s = (case from_hex 0 s of Some n \<Rightarrow> int n | None \<Rightarrow> 0)"

definition ParseFloat64 :: "string \<Rightarrow> anyFloat" where
  "ParseFloat64 s =
     (let signed = (s \<noteq> [] \<and> (hd s = CHR ''+'' \<or> hd s = CHR ''-'')); neg = (s \<noteq> [] \<and> hd s = CHR ''-'');
          body = (if signed then tl s else s); lower = map ToLowerByte body; zero = Finite (F64 False 0)
      in if lower = ''inf'' \<or> lower = ''infinity'' then Infinite neg
         else if lower = ''nan'' \<and> \<not> signed then NaN
         else let hex = (length body > 2 \<and> hasBasePrefix ''x'' body);
                  (ds, k, r) = readMantissa hex False (if hex then drop 2 body else body)
              in if ds = [] \<or> CHR ''_'' \<in> set s \<and> \<not> underscoreOK body then zero
                 else case readExponent hex r of
                        None \<Rightarrow> zero
                      | Some e \<Rightarrow>
                          let v = roundF64 (if hex then of_int (hex_val ds) * pow_rat 2 (e - 4 * int k)
                                            else of_int (digits_val ds) * pow_rat 10 (e - int k))
                          in if 2 ^ 1024 \<le> v then Infinite neg else Finite (F64 neg v))"

subsection \<open>Lists\<close>

definition wrapE :: "string \<Rightarrow> 'a res \<Rightarrow> 'a res" where
  "wrapE what r = mapErr (\<lambda>m. Errorf (what @ m)) r"

lemma wrapE_Ok [simp]: "wrapE what r = Ok x \<longleftrightarrow> r = Ok x"
  by (cases r) (auto simp: wrapE_def)

function identsLoop :: "unicode \<Rightarrow> string list \<Rightarrow> Scanner \<Rightarrow> (string list \<times> Scanner) res" where
  "identsLoop U fs s =
     (if peekTyp s = TokEOF \<or> peekTyp s = TokPipe then Ok (fs, s)
      else bindR (expectIdent U s) (\<lambda>(ident, s1).
           if peekTyp s1 = TokComma then identsLoop U (fs @ [ident]) (skip s1) else Ok (fs @ [ident], s1)))"
  by pat_completeness auto
termination
proof (relation "measure (\<lambda>(U, fs, s). length s)", goal_cases)
  case (2 U fs s x ident s1)
  then show ?case using expect_shorter(2) [of U s] skip_length [of s1] by force
qed simp

declare identsLoop.simps [simp del]

definition parseCommaSeparatedIdents :: "unicode \<Rightarrow> Scanner \<Rightarrow> (string list \<times> Scanner) res" where
  "parseCommaSeparatedIdents U s = identsLoop U [] s"

text \<open>Identifiers up to a closing parenthesis; commas between them may be missing.\<close>

function parenIdents :: "unicode \<Rightarrow> string list \<Rightarrow> Scanner \<Rightarrow> (string list \<times> Scanner) res" where
  "parenIdents U fs s =
     (if peekTyp s = TokRParen \<or> peekTyp s = TokEOF
      then bindR (expect U TokRParen s) (\<lambda>(_, s1). Ok (fs, s1))
      else bindR (expectIdent U s) (\<lambda>(ident, s1). parenIdents U (fs @ [ident]) (skipIf TokComma s1)))"
  by pat_completeness auto
termination
proof (relation "measure (\<lambda>(U, fs, s). length s)", goal_cases)
  case (2 U fs s x ident s1)
  then show ?case using expect_shorter(2) [of U s] skipIf_length [of TokComma s1] by force
qed simp

declare parenIdents.simps [simp del]

definition parseIdentListInParens :: "unicode \<Rightarrow> Scanner \<Rightarrow> (string list \<times> Scanner) res" where
  "parseIdentListInParens U s = bindR (expect U TokLParen s) (\<lambda>(_, s1). parenIdents U [] s1)"

definition parseOptionalByClause :: "unicode \<Rightarrow> Scanner \<Rightarrow> (string list \<times> Scanner) res" where
  "parseOptionalByClause U s =
     (if \<not> atWord ''by'' s then Ok ([], s)
      else bindR (expect U TokLParen (skip s)) (\<lambda>(_, s1). parenIdents U [] s1))"

definition parseInt :: "unicode \<Rightarrow> Scanner \<Rightarrow> (int \<times> Scanner) res" where
  "parseInt U s =
     bindR (expect U TokIdent s) (\<lambda>(tok, s1).
     case Atoi (Val tok) of
       Inl e \<Rightarrow> Err (Errorf (''logsql: expected integer, got '' @ Quote U (Val tok) @ '': '' @
                             numError_String U ''Atoi'' (Val tok) e))
     | Inr n \<Rightarrow> Ok (n, s1))"

definition quoted1 :: "string \<Rightarrow> string" where
  "quoted1 w = [CHR 0x27] @ w @ [CHR 0x27]"

text \<open>The word \<^verbatim>\<open>as\<close> and an identifier; \<open>what\<close> is how the errors of the pipe begin.\<close>

definition parseAs :: "unicode \<Rightarrow> string \<Rightarrow> Scanner \<Rightarrow> (string \<times> Scanner) res" where
  "parseAs U what s =
     (let (asTok, s1) = advance s
      in if Typ asTok \<noteq> TokIdent \<or> Val asTok \<noteq> ''as''
         then Err (Errorf (what @ '': expected '' @ quoted1 ''as'' @ '', got '' @ Quote U (Val asTok)))
         else wrapE (what @ '': '') (expectIdent U s1))"

text \<open>An optional word with an identifier after it.\<close>

definition parseOptionalWord :: "unicode \<Rightarrow> string \<Rightarrow> string \<Rightarrow> Scanner \<Rightarrow> (string \<times> Scanner) res" where
  "parseOptionalWord U what kw s =
     (if atWord kw s then wrapE (what @ '': '') (expectIdent U (skip s)) else Ok ([], s))"

subsection \<open>Statistics\<close>

text \<open>The arguments of \<^verbatim>\<open>row_any\<close>, \<^verbatim>\<open>row_max\<close> and \<^verbatim>\<open>row_min\<close>; nothing is an error.\<close>

function rowArgs :: "string list \<Rightarrow> Scanner \<Rightarrow> string list \<times> Scanner" where
  "rowArgs fs s =
     (if peekTyp s = TokIdent then rowArgs (fs @ [Val (peek s)]) (skipIf TokComma (skip s))
      else (fs, skipIf TokRParen s))"
  by pat_completeness auto
termination
proof (relation "measure (\<lambda>(fs, s). length s)", goal_cases)
  case (2 fs s)
  then show ?case using skip_shorter [of s] skipIf_length [of TokComma "skip s"] by fastforce
qed simp

declare rowArgs.simps [simp del]

definition fieldFuncs :: "(string \<times> (string \<Rightarrow> StatsFunc)) list" where
  "fieldFuncs =
     [(''count'', \<lambda>f. Count), (''sum'', Sum), (''min'', StatsMin), (''max'', StatsMax), (''avg'', Avg),
      (''median'', Median), (''rate'', \<lambda>f. Rate), (''rate_sum'', RateSum), (''count_uniq'', CountUniq),
      (''count_uniq_hash'', CountUniqHash), (''field_max'', FieldMax), (''field_min'', FieldMin),
      (''json_values'', JSONValues), (''json_values_sorted'', JSONValuesSorted), (''any'', AnyValue),
      (''count_empty'', CountEmpty), (''sum_len'', SumLen), (''histogram'', Histogram), (''last'', Last),
      (''first'', First), (''stddev'', Stddev), (''stdvar'', Stdvar)]"

text \<open>Two arguments in parentheses, tokens of any kind; the comma may be missing.\<close>

definition twoArgs :: "unicode \<Rightarrow> string \<Rightarrow> Scanner \<Rightarrow> ((string \<times> string) \<times> Scanner) res" where
  "twoArgs U name s =
     (let wrap = ''logsql: stats func '' @ Quote U name @ '': ''
      in bindR (wrapE wrap (expect U TokLParen s)) (\<lambda>(_, s1).
         let (a, s2) = advance s1; (b, s3) = advance (skipIf TokComma s2)
         in bindR (wrapE wrap (expect U TokRParen s3)) (\<lambda>(_, s4). Ok ((Val a, Val b), s4))))"

definition atoiOr0 :: "string \<Rightarrow> int" where
  "atoiOr0 s =
     (case Atoi s of
        Inr n \<Rightarrow> n
      | Inl ErrSyntax \<Rightarrow> 0
      | Inl ErrRange \<Rightarrow> if hd s = CHR ''-'' then - (2 ^ 63) else 2 ^ 63 - 1)"

definition parseFieldFunc :: "unicode \<Rightarrow> string \<Rightarrow> Scanner \<Rightarrow> (StatsFunc \<times> Scanner) res" where
  "parseFieldFunc U name s =
     (let wrap = ''logsql: stats func '' @ Quote U name @ '': ''
      in bindR (wrapE wrap (expect U TokLParen s)) (\<lambda>(_, s1).
         let (field, s2) = (if peekTyp s1 = TokIdent then (Val (peek s1), skip s1) else ([], s1))
         in bindR (wrapE wrap (expect U TokRParen s2)) (\<lambda>(_, s3).
            case map_of fieldFuncs name of
              Some fn \<Rightarrow> Ok (fn field, s3)
            | None \<Rightarrow> Err (Errorf (''logsql: unknown stats function '' @ Quote U name)))))"

definition parseStatsFunc :: "unicode \<Rightarrow> Scanner \<Rightarrow> (StatsFunc \<times> Scanner) res" where
  "parseStatsFunc U s0 =
     (let (tok, s) = advance s0; name = Val tok
      in if name = ''row_any'' then
           (if peekTyp s \<noteq> TokLParen then Err (Errorf ''logsql: expected ( after row_any'')
            else let (fs, s1) = rowArgs [] (skip s) in Ok (RowAny fs, s1))
         else if name = ''row_max'' \<or> name = ''row_min'' then
           (if peekTyp s \<noteq> TokLParen then Err (Errorf (''logsql: expected ( after '' @ name))
            else let (by, s1) = advance (skip s); (fs, s2) = rowArgs [] (skipIf TokComma s1)
                 in Ok (if name = ''row_min'' then RowMin (Val by) fs else RowMax (Val by) fs, s2))
         else if name = ''quantile'' then
           bindR (twoArgs U name s) (\<lambda>((phi, field), s1). Ok (Quantile (ParseFloat64 phi) field, s1))
         else if name = ''json_values_topk'' then
           bindR (twoArgs U name s) (\<lambda>((field, limit), s1). Ok (JSONValuesTopK field (atoiOr0 limit), s1))
         else if name = ''uniq_values'' then
           bindR (twoArgs U name s) (\<lambda>((field, limit), s1). Ok (UniqValues field (atoiOr0 limit), s1))
         else if name = ''values'' then
           bindR (twoArgs U name s) (\<lambda>((field, limit), s1). Ok (Values field (atoiOr0 limit), s1))
         else parseFieldFunc U name s)"

lemma rowArgs_suffix: "suffix (snd (rowArgs fs s)) s"
proof (induction fs s rule: rowArgs.induct)
  case (1 fs s)
  have "suffix (skipIf TokComma (skip s)) s" by (simp add: inside_rules)
  with 1 show ?case
    by (subst rowArgs.simps) (auto intro: suffix_order.trans inside_rules)
qed

lemma rowArgs_suffixI [inside_rules]: "suffix s1 s \<Longrightarrow> suffix (snd (rowArgs fs s1)) s"
  using rowArgs_suffix suffix_order.trans by blast

lemma inside_wrapE [simp]: "inside s (wrapE what r) = inside s r"
  by (simp add: wrapE_def)

lemma twoArgs_inside [inside_rules]: "suffix s1 s \<Longrightarrow> inside s (twoArgs U name s1)"
  by (auto simp: twoArgs_def Let_def advance_peek intro!: inside_rules)

lemma parseFieldFunc_inside [inside_rules]: "suffix s1 s \<Longrightarrow> inside s (parseFieldFunc U name s1)"
  by (auto simp: parseFieldFunc_def Let_def intro!: inside_rules split: option.split)

lemma parseStatsFunc_inside [inside_rules]: "suffix s1 s \<Longrightarrow> inside s (parseStatsFunc U s1)"
  by (auto simp: parseStatsFunc_def Let_def advance_peek split_beta intro!: inside_rules)

text \<open>The functions of a stats pipe, each with its alias.\<close>

function funcsLoop :: "unicode \<Rightarrow> string \<Rightarrow> StatsFuncAlias list \<Rightarrow> Scanner \<Rightarrow> (StatsFuncAlias list \<times> Scanner) res" where
  "funcsLoop U kw funcs s =
     (if peekTyp s \<noteq> TokIdent then Ok (funcs, s)
      else bindR (parseStatsFunc U s) (\<lambda>(fn, s1).
           let (asTok, s2) = advance s1
           in if Typ asTok \<noteq> TokIdent \<or> Val asTok \<noteq> ''as''
              then Err (Errorf (''logsql: '' @ kw @ '': expected '' @ quoted1 ''as'' @ '' after stats func, got '' @
                                Quote U (Val asTok)))
              else bindR (expectIdent U s2) (\<lambda>(alias, s3).
                   let funcs1 = funcs @ [\<lparr>fa_Func = fn, fa_Alias = alias\<rparr>]
                   in if peekTyp s3 = TokComma then funcsLoop U kw funcs1 (skip s3) else Ok (funcs1, s3))))"
  by pat_completeness auto
termination
proof (relation "measure (\<lambda>(U, kw, funcs, s). length s)", goal_cases)
  case (2 U kw funcs s x fn s1 y asTok s2 z al s3)
  then have "length s1 \<le> length s"
    using parseStatsFunc_inside [of s s U] by (auto dest: suffix_length_le)
  then show ?case
    using 2 expect_shorter(2) [of U s2 al s3] skip_length [of s1] skip_length [of s3] by (simp add: advance_peek)
qed simp

declare funcsLoop.simps [simp del]

definition parseStatsBody :: "unicode \<Rightarrow> string \<Rightarrow> Scanner \<Rightarrow> ((GroupKey list \<times> StatsFuncAlias list) \<times> Scanner) res" where
  "parseStatsBody U kw s =
     bindR (parseOptionalByClause U s) (\<lambda>(by, s1).
     bindR (funcsLoop U kw [] s1) (\<lambda>(funcs, s2).
     if length funcs = 0 then Err (Errorf (''logsql: '' @ kw @ '' requires at least one function''))
     else Ok ((by, funcs), s2)))"

definition parsePipeStats :: "unicode \<Rightarrow> Scanner \<Rightarrow> (Pipe \<times> Scanner) res" where
  "parsePipeStats U s = bindR (parseStatsBody U ''stats'' s) (\<lambda>((by, funcs), s1). Ok (PipeStats by funcs, s1))"

definition parsePipeStatsLike :: "unicode \<Rightarrow> string \<Rightarrow> Scanner \<Rightarrow> (Pipe \<times> Scanner) res" where
  "parsePipeStatsLike U kw s =
     bindR (parseStatsBody U kw s) (\<lambda>((by, funcs), s1).
     Ok (if kw = ''running_stats'' then PipeRunningStats by funcs else PipeTotalStats by funcs, s1))"

subsection \<open>Sorting, limits and groups\<close>

function sortLoop :: "unicode \<Rightarrow> SortField list \<Rightarrow> Scanner \<Rightarrow> (SortField list \<times> Scanner) res" where
  "sortLoop U fs s =
     (if peekTyp s = TokRParen \<or> peekTyp s = TokEOF
      then bindR (expect U TokRParen s) (\<lambda>(_, s1). Ok (fs, s1))
      else bindR (expectIdent U s) (\<lambda>(ident, s1).
           let desc = atWord ''desc'' s1; s2 = (if desc then skip s1 else s1)
           in sortLoop U (fs @ [\<lparr>sf_Field = ident, sf_Desc = desc\<rparr>]) (skipIf TokComma s2)))"
  by pat_completeness auto
termination
proof (relation "measure (\<lambda>(U, fs, s). length s)", goal_cases)
  case (2 U fs s x ident s1 desc s2)
  then show ?case
    using expect_shorter(2) [of U s ident s1] skip_length [of s1] skipIf_length [of TokComma s2] by (auto split: if_splits)
qed simp

declare sortLoop.simps [simp del]

definition parsePipeSort :: "unicode \<Rightarrow> Scanner \<Rightarrow> (Pipe \<times> Scanner) res" where
  "parsePipeSort U s =
     (if \<not> atWord ''by'' s then Err (Errorf (''logsql: expected '' @ quoted1 ''by'' @ '' after sort''))
      else bindR (expect U TokLParen (skip s)) (\<lambda>(_, s1).
           bindR (sortLoop U [] s1) (\<lambda>(fs, s2).
           if atWord ''limit'' s2 then bindR (parseInt U (skip s2)) (\<lambda>(n, s3). Ok (PipeSort fs n, s3))
           else Ok (PipeSort fs 0, s2))))"

definition parsePipeTopN :: "unicode \<Rightarrow> Scanner \<Rightarrow> (Pipe \<times> Scanner) res" where
  "parsePipeTopN U s =
     bindR (wrapE ''logsql: pipe top: '' (parseInt U s)) (\<lambda>(n, s1).
     bindR (wrapE ''logsql: pipe top: '' (parseOptionalByClause U s1)) (\<lambda>(by, s2). Ok (PipeTop n by, s2)))"

definition parsePipeFirstLast :: "unicode \<Rightarrow> bool \<Rightarrow> Scanner \<Rightarrow> (Pipe \<times> Scanner) res" where
  "parsePipeFirstLast U isLast s =
     (let (n, s1) = (if peekTyp s = TokIdent
                     then (case Atoi (Val (peek s)) of Inr v \<Rightarrow> (v, skip s) | Inl e \<Rightarrow> (0, s))
                     else (0, s))
      in bindR (wrapE ''logsql: pipe first/last: '' (parseOptionalByClause U s1)) (\<lambda>(by, s2).
         Ok (if isLast then PipeLast n by else PipeFirst n by, s2)))"

definition parsePipeUniq :: "unicode \<Rightarrow> Scanner \<Rightarrow> (Pipe \<times> Scanner) res" where
  "parsePipeUniq U s =
     bindR (wrapE ''logsql: pipe uniq: '' (parseOptionalByClause U s)) (\<lambda>(by, s1). Ok (PipeUniq by, s1))"

definition parsePipeFacets :: "unicode \<Rightarrow> Scanner \<Rightarrow> (Pipe \<times> Scanner) res" where
  "parsePipeFacets U s =
     (if atWord ''limit'' s
      then bindR (wrapE ''logsql: pipe facets: '' (parseInt U (skip s))) (\<lambda>(n, s1). Ok (PipeFacets n, s1))
      else Ok (PipeFacets 0, s))"

definition parsePipeFieldValues :: "unicode \<Rightarrow> Scanner \<Rightarrow> (Pipe \<times> Scanner) res" where
  "parsePipeFieldValues U s =
     bindR (wrapE ''logsql: pipe field_values: '' (expectIdent U s)) (\<lambda>(field, s1).
     if atWord ''limit'' s1
     then bindR (wrapE ''logsql: pipe field_values: '' (parseInt U (skip s1))) (\<lambda>(n, s2). Ok (PipeFieldValues field n, s2))
     else Ok (PipeFieldValues field 0, s1))"

definition parsePipeGenerateSequence :: "unicode \<Rightarrow> Scanner \<Rightarrow> (Pipe \<times> Scanner) res" where
  "parsePipeGenerateSequence U s =
     bindR (wrapE ''logsql: pipe generate_sequence: '' (parseInt U (if atWord ''limit'' s then skip s else s)))
       (\<lambda>(n, s1). Ok (PipeGenerateSequence n, s1))"

function contextLoop :: "unicode \<Rightarrow> int \<Rightarrow> int \<Rightarrow> Scanner \<Rightarrow> (Pipe \<times> Scanner) res" where
  "contextLoop U before after s =
     (if \<not> atWord ''before'' s \<and> \<not> atWord ''after'' s then Ok (PipeStreamContext before after, s)
      else bindR (wrapE ''logsql: pipe stream_context: '' (parseInt U (skip s))) (\<lambda>(n, s1).
           if atWord ''before'' s then contextLoop U n after s1 else contextLoop U before n s1))"
  by pat_completeness auto
termination
proof (relation "measure (\<lambda>(U, before, after, s). length s)", goal_cases)
  case (2 U before after s x n s1)
  then show ?case
    using expect_shorter(1) [of U TokIdent "skip s"] skip_length [of s]
    by (cases "expect U TokIdent (skip s)") (fastforce simp: parseInt_def split: sum.splits)+
next
  case (3 U before after s x n s1)
  then show ?case
    using expect_shorter(1) [of U TokIdent "skip s"] skip_length [of s]
    by (cases "expect U TokIdent (skip s)") (fastforce simp: parseInt_def split: sum.splits)+
qed simp

declare contextLoop.simps [simp del]

definition parsePipeStreamContext :: "unicode \<Rightarrow> Scanner \<Rightarrow> (Pipe \<times> Scanner) res" where
  "parsePipeStreamContext U s = contextLoop U 0 0 s"

subsection \<open>Pipes with fields\<close>

function copyLoop :: "unicode \<Rightarrow> (string \<times> string) list \<Rightarrow> Scanner \<Rightarrow> (Pipe \<times> Scanner) res" where
  "copyLoop U pairs s =
     (if peekTyp s = TokEOF \<or> peekTyp s = TokPipe then Ok (PipeCopy pairs, s)
      else bindR (wrapE ''logsql: pipe copy: '' (expectIdent U s)) (\<lambda>(src, s1).
           let (asTok, s2) = advance s1
           in if Typ asTok \<noteq> TokIdent \<or> Val asTok \<noteq> ''as''
              then Err (Errorf (''logsql: pipe copy: expected '' @ quoted1 ''as'' @ '' after '' @ Quote U src @ '', got '' @
                                Quote U (Val asTok)))
              else bindR (wrapE ''logsql: pipe copy: '' (expectIdent U s2)) (\<lambda>(dst, s3).
                   let pairs1 = pairs @ [(src, dst)]
                   in if peekTyp s3 = TokComma then copyLoop U pairs1 (skip s3) else Ok (PipeCopy pairs1, s3))))"
  by pat_completeness auto
termination
proof (relation "measure (\<lambda>(U, pairs, s). length s)", goal_cases)
  case (2 U pairs s x src s1 y asTok s2 z dst s3)
  then show ?case
    using expect_shorter(2) [of U s src s1] expect_shorter(2) [of U s2 dst s3] skip_length [of s1] skip_length [of s3]
    by (simp add: advance_peek)
qed simp

declare copyLoop.simps [simp del]

definition parsePipeCopy :: "unicode \<Rightarrow> Scanner \<Rightarrow> (Pipe \<times> Scanner) res" where
  "parsePipeCopy U s = copyLoop U [] s"

definition parsePipeCoalesce :: "unicode \<Rightarrow> Scanner \<Rightarrow> (Pipe \<times> Scanner) res" where
  "parsePipeCoalesce U s =
     bindR (wrapE ''logsql: pipe coalesce: '' (parseIdentListInParens U s)) (\<lambda>(fs, s1).
     bindR (if atWord ''default'' s1 then wrapE ''logsql: pipe coalesce default: '' (expectString U (skip s1)) else Ok ([], s1))
       (\<lambda>(dflt, s2).
     bindR (parseAs U ''logsql: pipe coalesce'' s2) (\<lambda>(result, s3). Ok (PipeCoalesce fs dflt result, s3))))"

definition parsePipeCollapseNums :: "unicode \<Rightarrow> Scanner \<Rightarrow> (Pipe \<times> Scanner) res" where
  "parsePipeCollapseNums U s =
     bindR (parseOptionalWord U ''logsql: pipe collapse_nums'' ''at'' s) (\<lambda>(field, s1). Ok (PipeCollapseNums field, s1))"

definition parsePipeDecolorize :: "Scanner \<Rightarrow> (Pipe \<times> Scanner) res" where
  "parsePipeDecolorize s =
     (if peekTyp s = TokIdent then Ok (PipeDecolorize (Val (peek s)), skip s) else Ok (PipeDecolorize [], s))"

definition parsePipeHash :: "unicode \<Rightarrow> Scanner \<Rightarrow> (Pipe \<times> Scanner) res" where
  "parsePipeHash U s =
     bindR (wrapE ''logsql: pipe hash: '' (parseIdentListInParens U s)) (\<lambda>(fs, s1).
     bindR (parseAs U ''logsql: pipe hash'' s1) (\<lambda>(result, s2). Ok (PipeHash fs result, s2)))"

text \<open>\<^verbatim>\<open>json_array_len(field) as result\<close> and \<^verbatim>\<open>len(field) as result\<close>.\<close>

definition parseFieldAs :: "unicode \<Rightarrow> string \<Rightarrow> Scanner \<Rightarrow> ((string \<times> string) \<times> Scanner) res" where
  "parseFieldAs U what s =
     bindR (wrapE (what @ '': '') (expect U TokLParen s)) (\<lambda>(_, s1).
     bindR (wrapE (what @ '': '') (expectIdent U s1)) (\<lambda>(field, s2).
     bindR (wrapE (what @ '': '') (expect U TokRParen s2)) (\<lambda>(_, s3).
     bindR (parseAs U what s3) (\<lambda>(result, s4). Ok ((field, result), s4)))))"

definition parsePipeJSONArrayLen :: "unicode \<Rightarrow> Scanner \<Rightarrow> (Pipe \<times> Scanner) res" where
  "parsePipeJSONArrayLen U s =
     bindR (parseFieldAs U ''logsql: pipe json_array_len'' s) (\<lambda>((f, r), s1). Ok (PipeJSONArrayLen f r, s1))"

definition parsePipeLen :: "unicode \<Rightarrow> Scanner \<Rightarrow> (Pipe \<times> Scanner) res" where
  "parsePipeLen U s = bindR (parseFieldAs U ''logsql: pipe len'' s) (\<lambda>((f, r), s1). Ok (PipeLen f r, s1))"

text \<open>\<^verbatim>\<open>[from field] [as result]\<close>.\<close>

definition parseFromAs :: "unicode \<Rightarrow> string \<Rightarrow> Scanner \<Rightarrow> ((string \<times> string) \<times> Scanner) res" where
  "parseFromAs U what s =
     bindR (parseOptionalWord U what ''from'' s) (\<lambda>(from, s1).
     bindR (parseOptionalWord U what ''as'' s1) (\<lambda>(result, s2). Ok ((from, result), s2)))"

definition parsePipeJSONArrayConcat :: "unicode \<Rightarrow> Scanner \<Rightarrow> (Pipe \<times> Scanner) res" where
  "parsePipeJSONArrayConcat U s =
     (let has = (peekTyp s = TokString);
          (delim, s1) = (if has then (Val (peek s), skip s) else ([], s))
      in bindR (parseFromAs U ''logsql: pipe json_array_concat'' s1) (\<lambda>((from, r), s2).
         Ok (PipeJSONArrayConcat delim has from r, s2)))"

definition parsePipeSplit :: "unicode \<Rightarrow> Scanner \<Rightarrow> (Pipe \<times> Scanner) res" where
  "parsePipeSplit U s =
     bindR (wrapE ''logsql: pipe split: '' (expectString U s)) (\<lambda>(sep, s1).
     bindR (parseFromAs U ''logsql: pipe split'' s1) (\<lambda>((from, r), s2). Ok (PipeSplit sep from r, s2)))"

definition parsePipeUnpackWords :: "unicode \<Rightarrow> Scanner \<Rightarrow> (Pipe \<times> Scanner) res" where
  "parsePipeUnpackWords U s =
     bindR (parseFromAs U ''logsql: pipe unpack_words'' s) (\<lambda>((from, r), s1). Ok (PipeUnpackWords from r, s1))"

definition parsePipeUnroll :: "unicode \<Rightarrow> Scanner \<Rightarrow> (Pipe \<times> Scanner) res" where
  "parsePipeUnroll U s =
     bindR (wrapE ''logsql: pipe unroll: '' (parseIdentListInParens U s)) (\<lambda>(fs, s1). Ok (PipeUnroll fs, s1))"

subsection \<open>Raw text\<close>

fun Index :: "string \<Rightarrow> string \<Rightarrow> nat option" where
  "Index [] sub = (if sub = [] then Some 0 else None)"
| "Index (c # s) sub = (if HasPrefix (c # s) sub then Some 0 else map_option Suc (Index s sub))"

fun LastIndex :: "string \<Rightarrow> string \<Rightarrow> nat option" where
  "LastIndex [] sub = (if sub = [] then Some 0 else None)"
| "LastIndex (c # s) sub =
     (case LastIndex s sub of Some i \<Rightarrow> Some (Suc i) | None \<Rightarrow> if HasPrefix (c # s) sub then Some 0 else None)"

definition ContainsAnyOf :: "string \<Rightarrow> string \<Rightarrow> bool" where
  "ContainsAnyOf s chars \<longleftrightarrow> list_ex (\<lambda>c. c \<in> set chars) s"

text \<open>
  \<^verbatim>\<open>strings.ToLower\<close>: rune by rune when the text has a byte above ASCII, where a byte that is
  not UTF-8 becomes the three bytes of U+FFFD.
\<close>

definition lowerRune :: "(rune \<Rightarrow> rune) \<Rightarrow> rune \<Rightarrow> rune" where
  "lowerRune lo r =
     (if r < 128 then (if 65 \<le> r \<and> r \<le> 90 then r + 32 else r) else if r = RuneError then r else lo r)"

function lowerRunes :: "(rune \<Rightarrow> rune) \<Rightarrow> string \<Rightarrow> string" where
  "lowerRunes lo s =
     (if s = [] then []
      else let (r, width) = decodeRune s in encodeRune (lowerRune lo r) @ lowerRunes lo (drop width s))"
  by pat_completeness auto
termination
  by (relation "measure (\<lambda>(lo, s). length s)")
    (auto, metis One_nat_def decodeRune_size diff_less length_greater_0_conv less_eq_Suc_le snd_conv)

declare lowerRunes.simps [simp del]

definition ToLowerString :: "(rune \<Rightarrow> rune) \<Rightarrow> string \<Rightarrow> string" where
  "ToLowerString lo s = (if list_all (\<lambda>c. byte_of c < 128) s then map ToLowerByte s else lowerRunes lo s)"

text \<open>
  The text of the stage up to the next \<^verbatim>\<open>|\<close> or the end, and the state after the
  \<open>advance\<close> that follows: it reads the \<^verbatim>\<open>|\<close>.
\<close>

definition rawStage :: "Scanner \<Rightarrow> string \<times> Scanner" where
  "rawStage s =
     (let raw = Remaining s;
          (raw1, s1) = (case IndexByte raw (CHR ''|'') of
                          Some idx \<Rightarrow> (take idx raw, AdvanceTo (CHR ''|'') s)
                        | None \<Rightarrow> (raw, AdvanceTo (CHR 0x00) s))
      in (TrimSpace raw1, skip s1))"

definition parsePipeUpdate :: "unicode \<Rightarrow> Scanner \<Rightarrow> (Pipe \<times> Scanner) res" where
  "parsePipeUpdate U s =
     bindR (wrapE ''logsql: pipe update: '' (expectIdent U s)) (\<lambda>(field, s1).
     bindR (wrapE (''logsql: pipe update: expected '' @ quoted1 ''='' @ '': '') (expect U TokEq s1)) (\<lambda>(_, s2).
     let (e, s3) = rawStage s2 in Ok (PipeUpdate field e, s3)))"

text \<open>The first form, \<^verbatim>\<open>alias:=expr\<close>, and the second, \<^verbatim>\<open>expr as alias\<close>.\<close>

definition mathAssign :: "string \<Rightarrow> Pipe option" where
  "mathAssign chunk =
     (case Index chunk '':='' of
        Some idx \<Rightarrow>
          if idx > 0 then
            let al = TrimSpace (take idx chunk); e = TrimSpace (drop (idx + 2) chunk)
            in if \<not> ContainsAnyOf al ('' +-*/()|'' @ [CHR 0x09]) \<and> e \<noteq> [] then Some (PipeMath e al) else None
          else None
      | None \<Rightarrow> None)"

definition mathAs :: "unicode \<Rightarrow> (rune \<Rightarrow> rune) \<Rightarrow> string \<Rightarrow> Pipe res" where
  "mathAs U lo chunk =
     (let fail = Err (Errorf (''logsql: pipe math: expected '' @ quoted1 ''alias:=expr'' @ '' or '' @
                              quoted1 ''expr as alias'' @ '', got '' @ Quote U chunk))
      in case LastIndex (ToLowerString lo chunk) '' as '' of
           Some idx \<Rightarrow>
             if idx + 4 > length chunk then Panic
             else let e = TrimSpace (take idx chunk); al = TrimSpace (drop (idx + 4) chunk)
                  in if e \<noteq> [] \<and> al \<noteq> [] \<and> \<not> ContainsAnyOf al ('' +-*/()'' @ [CHR 0x09]) then Ok (PipeMath e al) else fail
         | None \<Rightarrow> fail)"

definition parsePipeMath :: "unicode \<Rightarrow> (rune \<Rightarrow> rune) \<Rightarrow> Scanner \<Rightarrow> (Pipe \<times> Scanner) res" where
  "parsePipeMath U lo s =
     (let (chunk, s1) = rawStage s
      in case mathAssign chunk of
           Some p \<Rightarrow> Ok (p, s1)
         | None \<Rightarrow> bindR (mathAs U lo chunk) (\<lambda>p. Ok (p, s1)))"

text \<open>The parenthesis that closes an inner query, past quoted strings.\<close>

function quoteEnd :: "string \<Rightarrow> nat \<Rightarrow> nat" where
  "quoteEnd rest pos =
     (if pos < length rest \<and> rest ! pos \<noteq> dquote
      then quoteEnd rest (if rest ! pos = backslash then pos + 2 else pos + 1) else pos)"
  by pat_completeness auto
termination
  by (relation "measure (\<lambda>(rest, pos). length rest - pos)") auto

declare quoteEnd.simps [simp del]

lemma quoteEnd_ge: "pos \<le> quoteEnd rest pos"
proof (induction rest pos rule: quoteEnd.induct)
  case (1 rest pos)
  then show ?case by (subst quoteEnd.simps) (auto split: if_splits)
qed

function matchParen :: "string \<Rightarrow> nat \<Rightarrow> nat \<Rightarrow> nat option" where
  "matchParen rest depth pos =
     (if pos < length rest then
        (if rest ! pos = CHR ''('' then matchParen rest (depth + 1) (pos + 1)
         else if rest ! pos = CHR '')'' then
           (if depth - 1 = 0 then Some pos else matchParen rest (depth - 1) (pos + 1))
         else if rest ! pos = dquote then matchParen rest depth (quoteEnd rest (pos + 1) + 1)
         else matchParen rest depth (pos + 1))
      else None)"
  by pat_completeness auto
termination
proof (relation "measure (\<lambda>(rest, depth, pos). length rest - pos)", goal_cases)
  case (4 rest depth pos)
  then show ?case using quoteEnd_ge [of "pos + 1" rest] by auto
qed auto

declare matchParen.simps [simp del]

definition consumeInnerQuery :: "unicode \<Rightarrow> Scanner \<Rightarrow> (string \<times> Scanner) res" where
  "consumeInnerQuery U s =
     bindR (expect U TokLParen s) (\<lambda>(_, s1).
     let rest = Remaining s1
     in case matchParen rest 1 0 of
          Some pos \<Rightarrow> Ok (TrimSpace (take pos rest), Skip (pos + 1) s1)
        | None \<Rightarrow> Err (Errorf ''logsql: unclosed ( in inner query''))"

definition parsePipeJoin :: "unicode \<Rightarrow> Scanner \<Rightarrow> (Pipe \<times> Scanner) res" where
  "parsePipeJoin U s =
     (if \<not> atWord ''by'' s then Err (Errorf (''logsql: pipe join: expected '' @ quoted1 ''by''))
      else bindR (wrapE ''logsql: pipe join: '' (parseIdentListInParens U (skip s))) (\<lambda>(by, s1).
           bindR (wrapE ''logsql: pipe join: '' (consumeInnerQuery U s1)) (\<lambda>(inner, s2).
           bindR (parseOptionalWord U ''logsql: pipe join'' ''prefix'' s2) (\<lambda>(pfx, s3). Ok (PipeJoin by inner pfx, s3)))))"

subsection \<open>Queries\<close>

text \<open>The cases of \<open>parsePipe\<close>, by the name of the pipe.\<close>

definition pipeParsers :: "(string \<times> (unicode \<Rightarrow> (rune \<Rightarrow> rune) \<Rightarrow> Scanner \<Rightarrow> (Pipe \<times> Scanner) res)) list" where
  "pipeParsers =
     [(''unpack_json'', \<lambda>U lo s. Ok (PipeUnpackJSON [] False, s)),
      (''unpack_logfmt'', \<lambda>U lo s. Ok (PipeUnpackLogfmt [] False, s)),
      (''filter'', \<lambda>U lo s. bindR (wrapE ''logsql: pipe filter: '' (parseFilterExpr U s)) (\<lambda>(e, s1). Ok (PipeFilter e, s1))),
      (''fields'', \<lambda>U lo s. bindR (wrapE ''logsql: pipe fields: '' (parseCommaSeparatedIdents U s)) (\<lambda>(ls, s1). Ok (PipeFields ls, s1))),
      (''delete'', \<lambda>U lo s. bindR (wrapE ''logsql: pipe delete: '' (parseCommaSeparatedIdents U s)) (\<lambda>(ls, s1). Ok (PipeDelete ls, s1))),
      (''limit'', \<lambda>U lo s. bindR (wrapE ''logsql: pipe limit: '' (parseInt U s)) (\<lambda>(n, s1). Ok (PipeLimit n, s1))),
      (''sort'', \<lambda>U lo s. parsePipeSort U s),
      (''stats'', \<lambda>U lo s. parsePipeStats U s),
      (''math'', \<lambda>U lo s. parsePipeMath U lo s),
      (''top'', \<lambda>U lo s. parsePipeTopN U s),
      (''first'', \<lambda>U lo s. parsePipeFirstLast U False s),
      (''last'', \<lambda>U lo s. parsePipeFirstLast U True s),
      (''sample'', \<lambda>U lo s. bindR (wrapE ''logsql: pipe sample: '' (parseInt U s)) (\<lambda>(n, s1). Ok (PipeSample n, s1))),
      (''offset'', \<lambda>U lo s. bindR (wrapE ''logsql: pipe offset: '' (parseInt U s)) (\<lambda>(n, s1). Ok (PipeOffset n, s1))),
      (''uniq'', \<lambda>U lo s. parsePipeUniq U s),
      (''field_names'', \<lambda>U lo s. Ok (PipeFieldNames, s)),
      (''drop_empty_fields'', \<lambda>U lo s. Ok (PipeDropEmptyFields, s)),
      (''copy'', \<lambda>U lo s. parsePipeCopy U s),
      (''coalesce'', \<lambda>U lo s. parsePipeCoalesce U s),
      (''collapse_nums'', \<lambda>U lo s. parsePipeCollapseNums U s),
      (''decolorize'', \<lambda>U lo s. parsePipeDecolorize s),
      (''facets'', \<lambda>U lo s. parsePipeFacets U s),
      (''field_values'', \<lambda>U lo s. parsePipeFieldValues U s),
      (''generate_sequence'', \<lambda>U lo s. parsePipeGenerateSequence U s),
      (''hash'', \<lambda>U lo s. parsePipeHash U s),
      (''join'', \<lambda>U lo s. parsePipeJoin U s),
      (''json_array_concat'', \<lambda>U lo s. parsePipeJSONArrayConcat U s),
      (''json_array_len'', \<lambda>U lo s. parsePipeJSONArrayLen U s),
      (''len'', \<lambda>U lo s. parsePipeLen U s),
      (''query_stats'', \<lambda>U lo s. Ok (PipeQueryStats, s)),
      (''running_stats'', \<lambda>U lo s. parsePipeStatsLike U ''running_stats'' s),
      (''set_stream_fields'', \<lambda>U lo s. bindR (wrapE ''logsql: pipe set_stream_fields: '' (parseCommaSeparatedIdents U s)) (\<lambda>(ls, s1). Ok (PipeSetStreamFields ls, s1))),
      (''split'', \<lambda>U lo s. parsePipeSplit U s),
      (''stream_context'', \<lambda>U lo s. parsePipeStreamContext U s),
      (''time_add'', \<lambda>U lo s. bindR (wrapE ''logsql: pipe time_add: '' (expectIdent U s)) (\<lambda>(d, s1). Ok (PipeTimeAdd d, s1))),
      (''total_stats'', \<lambda>U lo s. parsePipeStatsLike U ''total_stats'' s),
      (''union'', \<lambda>U lo s. bindR (wrapE ''logsql: pipe union: '' (consumeInnerQuery U s)) (\<lambda>(inner, s1). Ok (PipeUnion inner, s1))),
      (''unpack_syslog'', \<lambda>U lo s. Ok (PipeUnpackSyslog, s)),
      (''unpack_words'', \<lambda>U lo s. parsePipeUnpackWords U s),
      (''unroll'', \<lambda>U lo s. parsePipeUnroll U s),
      (''update'', \<lambda>U lo s. parsePipeUpdate U s)]"

definition parsePipe :: "unicode \<Rightarrow> (rune \<Rightarrow> rune) \<Rightarrow> Scanner \<Rightarrow> (Pipe \<times> Scanner) res" where
  "parsePipe U lo s =
     (if peekTyp s \<noteq> TokIdent
      then Err (Errorf (''logsql: expected pipe name after |, got '' @ Quote U (Val (peek s)) @ '' (type '' @
                        Itoa (tokNumber (peekTyp s)) @ '')''))
      else let name = Val (peek s)
           in case map_of pipeParsers name of
                Some parse \<Rightarrow> parse U lo (skip s)
              | None \<Rightarrow> Err (Errorf (''logsql: unknown pipe '' @ Quote U name)))"

text \<open>
  The loop over the pipes. Its fuel is the length of the text: every pipe begins with a \<^verbatim>\<open>|\<close>.
\<close>

fun pipesLoop :: "unicode \<Rightarrow> (rune \<Rightarrow> rune) \<Rightarrow> nat \<Rightarrow> Pipe list \<Rightarrow> Scanner \<Rightarrow> (Pipe list \<times> Scanner) res" where
  "pipesLoop U lo 0 pipes s = Loop"
| "pipesLoop U lo (Suc n) pipes s =
     (if peekTyp s = TokPipe
      then bindR (parsePipe U lo (skip s)) (\<lambda>(p, s1). pipesLoop U lo n (pipes @ [p]) s1)
      else Ok (pipes, s))"

definition parseQuery :: "unicode \<Rightarrow> (rune \<Rightarrow> rune) \<Rightarrow> Scanner \<Rightarrow> Query res" where
  "parseQuery U lo s =
     (if peekTyp s = TokEOF then Err (Errorf ''logsql: empty query'')
      else if peekTyp s = TokPipe then Err (Errorf ''logsql: query cannot start with pipe'')
      else bindR (parseFilterExpr U s) (\<lambda>(f, s1).
           bindR (pipesLoop U lo (length s1 + 1) [] s1) (\<lambda>(pipes, s2).
           if peekTyp s2 \<noteq> TokEOF
           then Err (Errorf (''logsql: unexpected token '' @ Quote U (Val (peek s2)) @ '' after query''))
           else Ok \<lparr>q_Filter = Some f, q_Pipes = pipes\<rparr>)))"

definition Parse :: "unicode \<Rightarrow> (rune \<Rightarrow> rune) \<Rightarrow> string \<Rightarrow> Query res" where
  "Parse U lo inp = parseQuery U lo inp"

end
