(* ===== verification/LogsqlTotal.thy ===== *)
theory LogsqlTotal
  imports LogsqlPipes
begin

text \<open>
  The LogsQL parser is total: \<open>ParseFilter\<close> and \<open>Parse\<close> return a value or an error.
\<close>

subsection \<open>The methods stay inside the text\<close>

lemma inside_cases:
  "suffix s1 s \<Longrightarrow> inside s (Ok (x, s1))" "inside s (Err e)"
  "inside s r \<Longrightarrow> inside s r' \<Longrightarrow> inside s (if b then r else r')"
  "inside s r \<Longrightarrow> (\<And>x. inside s (f x)) \<Longrightarrow> inside s (case_option r f z)"
  "(\<And>x. inside s (g x)) \<Longrightarrow> (\<And>x. inside s (h x)) \<Longrightarrow> inside s (case_sum g h y)"
  "suffix s1 s \<Longrightarrow> suffix s2 s \<Longrightarrow> suffix (if b then s1 else s2) s"
  by (simp_all split: option.split sum.split)

lemma rparenLoop_inside: "inside s (rparenLoop parts s)"
proof (induction parts s rule: rparenLoop.induct)
  case (1 parts s)
  then show ?case
    by (subst rparenLoop.simps) (auto intro: inside_later [OF _ skip_suffix] skip_suffix)
qed

lemma consumeUntilRParen_inside [inside_rules]: "suffix s1 s \<Longrightarrow> inside s (consumeUntilRParen s1)"
  using inside_later rparenLoop_inside unfolding consumeUntilRParen_def by blast

lemma containsLoop_suffix: "suffix (snd (containsLoop parts s)) s"
proof (induction parts s rule: containsLoop.induct)
  case (1 parts s)
  then show ?case
    by (subst containsLoop.simps) (auto intro: suffix_order.trans [OF _ skip_suffix])
qed

lemma containsLoop_suffixI [inside_rules]: "suffix s1 s \<Longrightarrow> suffix (snd (containsLoop parts s1)) s"
  using containsLoop_suffix suffix_order.trans by blast

lemma streamLoop_inside: "suffix s1 s \<Longrightarrow> inside s (streamLoop U ms s1)"
proof (induction "length s1" arbitrary: ms s1 rule: less_induct)
  case less
  have name: "inside s (bindR (mapErr f (expectIdent U s1)) g)"
    if "\<And>name s2. length s2 < length s1 \<Longrightarrow> suffix s2 s \<Longrightarrow> inside s (g (name, s2))" for f g
    using that expect_shorter(2) [of U s1] inside_expect(2) [OF less.prems, of U]
    by (cases "expectIdent U s1") auto
  have val: "inside s (bindR (mapErr f (expectString U (skip s2))) (\<lambda>(val, s3).
      streamLoop U (h val) (skipIf TokComma s3)))" if "length s2 < length s1" "suffix s2 s" for s2 f h
  proof (cases "expectString U (skip s2)")
    case (Ok x)
    then obtain val s3 where x: "x = (val, s3)" by (cases x)
    have "length (skipIf TokComma s3) < length s1"
      using Ok x that expect_shorter(3) [of U "skip s2"] skip_length [of s2] skipIf_length [of TokComma s3] by fastforce
    moreover have "suffix (skipIf TokComma s3) s"
      using Ok x inside_expect(3) [of "skip s2" s U] skip_suffixI that by fastforce
    ultimately show ?thesis using less Ok x by simp
  qed (use inside_expect(3) [OF skip_suffixI(1) [OF that(2)], of U] in simp_all)
  show ?case
    by (subst streamLoop.simps) (auto intro!: skip_suffixI less.prems name val split: option.split)
qed

lemma parseStreamFilter_inside [inside_rules]: "suffix s1 s \<Longrightarrow> inside s (parseStreamFilter U s1)"
  by (simp add: parseStreamFilter_def streamLoop_inside skip_suffixI)

lemma parseBracketRange_inside [inside_rules]:
  assumes "suffix s1 s"
  shows "inside s (parseBracketRange kind s1)"
proof -
  have "suffix (Skip n s1) s" for n
    using assms suffix_drop suffix_order.trans unfolding Skip_def by blast
  then show ?thesis
    by (auto simp: parseBracketRange_def Let_def intro!: inside_rules split: option.split)
qed

lemma parseTimeFilter_inside [inside_rules]: "suffix s1 s \<Longrightarrow> inside s (parseTimeFilter U s1)"
  by (auto simp: parseTimeFilter_def Let_def intro!: inside_rules)

lemma field_args_inside [inside_rules]:
  "suffix s1 s \<Longrightarrow> inside s (rawArgs U field op s1)" "suffix s1 s \<Longrightarrow> inside s (identArg U field op s1)"
  by (auto simp: rawArgs_def identArg_def intro!: inside_rules)

lemma parseBareCsFilterValue_inside [inside_rules]:
  "suffix s1 s \<Longrightarrow> inside s (parseBareCsFilterValue U field s1)"
  unfolding parseBareCsFilterValue_def Let_def split_beta fst_conv snd_conv
  by (intro inside_rules inside_cases; simp add: inside_rules)

lemma parseAnyCase_inside [inside_rules]: "suffix s1 s \<Longrightarrow> inside s (parseAnyCase U s1)"
  unfolding parseAnyCase_def Let_def split_beta fst_conv snd_conv
  by (intro inside_rules inside_cases; simp add: inside_rules)

lemma parseFieldOp_inside [inside_rules]: "suffix s1 s \<Longrightarrow> inside s (parseFieldOp U name s1)"
  unfolding parseFieldOp_def split_beta fst_conv snd_conv
  by (intro inside_rules inside_cases; simp add: inside_rules)

lemma parseIdentOrFieldFilter_inside: "inside (skip s) (parseIdentOrFieldFilter U s)"
proof -
  have "inside t (parseIdentOrFieldFilter U s)" if "skip s = t" for t
    unfolding parseIdentOrFieldFilter_def Let_def advance_peek split_beta fst_conv snd_conv that
    by (intro inside_rules inside_cases; simp add: inside_rules)
  then show ?thesis by simp
qed

text \<open>\<open>eats s r\<close>: in addition, something has been read.\<close>

fun eats :: "Scanner \<Rightarrow> ('a \<times> Scanner) res \<Rightarrow> bool" where
  "eats s (Ok x) = (suffix (snd x) s \<and> length (snd x) < length s)"
| "eats s (Err e) = True"
| "eats s Panic = False"
| "eats s Loop = False"

lemma eats_inside: "eats s r \<Longrightarrow> inside s r"
  by (cases r) simp_all

lemma eats_skip:
  assumes "peekTyp s \<noteq> TokEOF" "inside (skip s) r"
  shows "eats s r"
proof (cases r)
  case (Ok x)
  then have "suffix (snd x) (skip s)" using assms by simp
  with Ok show ?thesis
    using skip_shorter [OF assms(1)] skip_suffix [of s] suffix_length_le [of "snd x" "skip s"] suffix_order.trans
    by fastforce
qed (use assms in simp_all)

lemma eats_bind:
  assumes "eats s r" "\<And>x s1. suffix s1 s \<Longrightarrow> length s1 < length s \<Longrightarrow> inside s1 (f (x, s1))"
  shows "eats s (bindR r f)"
proof (cases r)
  case (Ok x)
  then have x: "suffix (snd x) s" "length (snd x) < length s" using assms by simp_all
  with assms(2) [OF this, of "fst x"] have "inside (snd x) (f x)" by simp
  then show ?thesis
  proof (cases "f x")
    case (Ok y)
    with \<open>inside (snd x) (f x)\<close> have "suffix (snd y) (snd x)" by simp
    with x Ok \<open>r = Ok x\<close> show ?thesis
      using suffix_length_le [of "snd y" "snd x"] suffix_order.trans by fastforce
  qed (use \<open>r = Ok x\<close> \<open>inside (snd x) (f x)\<close> in simp_all)
qed (use assms in simp_all)

lemma inside_bind_eats:
  assumes "eats s r" "\<And>x s1. suffix s1 s \<Longrightarrow> length s1 < length s \<Longrightarrow> inside s1 (f (x, s1))"
  shows "inside s (bindR r f)"
  using eats_bind [OF assms] by (rule eats_inside)

lemma parseAtom_eats: "eats s (parseAtom U s)"
proof (cases "peekTyp s = TokEOF")
  case True
  then show ?thesis by (simp add: parseAtom_def)
next
  case False
  moreover have "inside (skip s) (parseAtom U s)"
    using parseIdentOrFieldFilter_inside [of s U] streamLoop_inside [of "skip s" "skip s" U "[]"]
    by (auto simp: parseAtom_def parseStreamFilter_def Let_def intro!: inside_rules)
  ultimately show ?thesis by (rule eats_skip)
qed

subsection \<open>The fuel is enough\<close>

text \<open>
  Between two tokens there are at most four nested calls, from \<open>parseOrExpr\<close> to \<open>parsePrimaryFilter\<close>.
\<close>

definition enough :: "unicode \<Rightarrow> nat \<Rightarrow> bool" where
  "enough U n \<longleftrightarrow> (\<forall>s left.
     (4 * length s + 5 \<le> n \<longrightarrow> eats s (parseOrExpr U n s)) \<and>
     (4 * length s + 1 \<le> n \<longrightarrow> inside s (orLoop U n left s)) \<and>
     (4 * length s + 4 \<le> n \<longrightarrow> eats s (parseAndExpr U n s)) \<and>
     (4 * length s + 1 \<le> n \<longrightarrow> inside s (andLoop U n left s)) \<and>
     (4 * length s + 3 \<le> n \<longrightarrow> eats s (parseNotExpr U n s)) \<and>
     (4 * length s + 2 \<le> n \<longrightarrow> eats s (parsePrimaryFilter U n s)))"

lemma skip_fuel: "peekTyp s \<noteq> TokEOF \<Longrightarrow> 4 * length (skip s) + 4 \<le> 4 * length s"
  using skip_shorter [of s] by simp

lemma enough_step:
  assumes "enough U n"
  shows "enough U (Suc n)"
proof -
  note E = assms [unfolded enough_def, rule_format]
  have or: "eats s (parseOrExpr U (Suc n) s)" if "4 * length s + 5 \<le> Suc n" for s
    using that E by (auto intro!: eats_bind)
  have orL: "inside s (orLoop U (Suc n) left s)" if "4 * length s + 1 \<le> Suc n" for s left
    using that E skip_fuel [of s] by (auto intro!: inside_later [OF inside_bind_eats skip_suffix])
  have "and": "eats s (parseAndExpr U (Suc n) s)" if "4 * length s + 4 \<le> Suc n" for s
    using that E by (auto intro!: eats_bind)
  have andL: "inside s (andLoop U (Suc n) left s)" if "4 * length s + 1 \<le> Suc n" for s left
    using that E skip_fuel [of s] by (auto intro!: inside_later [OF inside_bind_eats skip_suffix])
  have "not": "eats s (parseNotExpr U (Suc n) s)" if "4 * length s + 3 \<le> Suc n" for s
  proof (cases "peekTyp s = TokNot")
    case True
    then have "eats (skip s) (parseNotExpr U n (skip s))" using that E skip_fuel [of s] by simp
    then have "inside (skip s) (bindR (parseNotExpr U n (skip s)) (\<lambda>(e, s1). Ok (NotExpr e, s1)))"
      by (rule inside_bind_eats) simp
    with True show ?thesis by (auto intro: eats_skip)
  qed (use that E in simp)
  have prim: "eats s (parsePrimaryFilter U (Suc n) s)" if "4 * length s + 2 \<le> Suc n" for s
  proof (cases "peekTyp s = TokLParen")
    case True
    then have "eats (skip s) (parseOrExpr U n (skip s))" using that E skip_fuel [of s] by simp
    then have "inside (skip s) (bindR (parseOrExpr U n (skip s)) (\<lambda>(inner, s1).
        bindR (expect U TokRParen s1) (\<lambda>(_, s2). Ok (inner, s2))))"
      by (rule inside_bind_eats) (auto intro!: inside_rules)
    with True show ?thesis by (auto intro: eats_skip)
  qed (use parseAtom_eats in simp)
  show ?thesis
    unfolding enough_def using or orL "and" andL "not" prim by blast
qed

lemma enough_all: "enough U n"
  by (induction n) (simp_all add: enough_step, simp add: enough_def)

lemma parseFilterExpr_eats: "eats s (parseFilterExpr U s)"
  using enough_all [unfolded enough_def, rule_format, of s "filterFuel s" U undefined]
  by (simp add: parseFilterExpr_def filterFuel_def)

lemma parseFilterExpr_inside [inside_rules]: "suffix s1 s \<Longrightarrow> inside s (parseFilterExpr U s1)"
  using inside_later eats_inside parseFilterExpr_eats by blast

subsection \<open>Pipes\<close>

lemma identsLoop_inside: "suffix s1 s \<Longrightarrow> inside s (identsLoop U fs s1)"
proof (induction U fs s1 rule: identsLoop.induct)
  case (1 U fs s1)
  show ?case
    by (subst identsLoop.simps) (use "1.prems" in \<open>auto intro!: inside_rules "1.IH"\<close>)
qed

lemma parenIdents_inside: "suffix s1 s \<Longrightarrow> inside s (parenIdents U fs s1)"
proof (induction U fs s1 rule: parenIdents.induct)
  case (1 U fs s1)
  show ?case
    by (subst parenIdents.simps) (use "1.prems" in \<open>auto intro!: inside_rules "1.IH"\<close>)
qed

lemma lists_inside [inside_rules]:
  "suffix s1 s \<Longrightarrow> inside s (parseCommaSeparatedIdents U s1)"
  "suffix s1 s \<Longrightarrow> inside s (parseIdentListInParens U s1)"
  "suffix s1 s \<Longrightarrow> inside s (parseOptionalByClause U s1)"
  "suffix s1 s \<Longrightarrow> inside s (parseInt U s1)"
  "suffix s1 s \<Longrightarrow> inside s (parseAs U what s1)"
  "suffix s1 s \<Longrightarrow> inside s (parseOptionalWord U what kw s1)"
  by (auto simp: parseCommaSeparatedIdents_def parseIdentListInParens_def parseOptionalByClause_def parseInt_def
      parseAs_def parseOptionalWord_def advance_peek identsLoop_inside parenIdents_inside
      intro!: inside_rules split: sum.split)

lemma funcsLoop_inside: "suffix s1 s \<Longrightarrow> inside s (funcsLoop U kw funcs s1)"
proof (induction "length s1" arbitrary: funcs s1 rule: less_induct)
  case less
  have step: "inside s (funcsLoop U kw fs (skip s3))"
    if "parseStatsFunc U s1 = Ok (fn, s2)" "expectIdent U (skip s2) = Ok (al, s3)" "suffix s3 s" for fn s2 al s3 fs
  proof -
    have "length s2 \<le> length s1" using that(1) parseStatsFunc_inside [of s1 s1 U] by (simp add: suffix_length_le)
    then have "length (skip s3) < length s1"
      using expect_shorter(2) [OF that(2)] skip_length [of s2] skip_length [of s3] by simp
    then show ?thesis using less(1) that(3) by (simp add: inside_rules)
  qed
  show ?case
    by (subst funcsLoop.simps) (use less.prems in \<open>auto simp: Let_def advance_peek intro!: inside_rules step\<close>)
qed

lemma sortLoop_inside: "suffix s1 s \<Longrightarrow> inside s (sortLoop U fs s1)"
proof (induction U fs s1 rule: sortLoop.induct)
  case (1 U fs s1)
  show ?case
    by (subst sortLoop.simps) (use "1.prems" in \<open>auto simp: Let_def intro!: inside_rules "1.IH"\<close>)
qed

lemma contextLoop_inside: "suffix s1 s \<Longrightarrow> inside s (contextLoop U before after s1)"
proof (induction U before after s1 rule: contextLoop.induct)
  case (1 U before after s1)
  show ?case
    by (subst contextLoop.simps) (use "1.prems" in \<open>auto intro!: inside_rules "1.IH"\<close>)
qed

lemma copyLoop_inside: "suffix s1 s \<Longrightarrow> inside s (copyLoop U pairs s1)"
proof (induction "length s1" arbitrary: pairs s1 rule: less_induct)
  case less
  have step: "inside s (copyLoop U ps (skip s3))"
    if "expectIdent U s1 = Ok (src, s2)" "expectIdent U (skip s2) = Ok (dst, s3)" "suffix s3 s" for src s2 dst s3 ps
    using less(1) [of "skip s3"] that(3) expect_shorter(2) [OF that(1)] expect_shorter(2) [OF that(2)]
      skip_length [of s2] skip_length [of s3] by (simp add: inside_rules)
  show ?case
    by (subst copyLoop.simps) (use less.prems in \<open>auto simp: Let_def advance_peek intro!: inside_rules step\<close>)
qed

lemma Skip_suffixI [inside_rules]: "suffix s1 s \<Longrightarrow> suffix (Skip n s1) s"
  using suffix_drop suffix_order.trans unfolding Skip_def by blast

lemma consumeInnerQuery_inside [inside_rules]: "suffix s1 s \<Longrightarrow> inside s (consumeInnerQuery U s1)"
  unfolding consumeInnerQuery_def Let_def split_beta
  by (intro inside_rules inside_cases; simp)

lemma rawStage_suffixI [inside_rules]: "suffix s1 s \<Longrightarrow> suffix (snd (rawStage s1)) s"
  using suffix_dropWhile [of _ s1] suffix_order.trans [of _ s1 s]
  by (auto simp: rawStage_def Let_def AdvanceTo_def intro!: inside_rules split: option.split)

lemmas pipe_defs =
  parsePipeStats_def parsePipeStatsLike_def parseStatsBody_def parsePipeSort_def parsePipeTopN_def parsePipeFirstLast_def
  parsePipeUniq_def parsePipeFacets_def parsePipeFieldValues_def parsePipeGenerateSequence_def parsePipeStreamContext_def
  parsePipeCopy_def parsePipeCoalesce_def parsePipeCollapseNums_def parsePipeDecolorize_def parsePipeHash_def
  parseFieldAs_def parsePipeJSONArrayLen_def parsePipeLen_def parseFromAs_def parsePipeJSONArrayConcat_def
  parsePipeSplit_def parsePipeUnpackWords_def parsePipeUnroll_def parsePipeUpdate_def parsePipeJoin_def

lemma stats_inside [inside_rules]:
  "suffix s1 s \<Longrightarrow> inside s (parsePipeStats U s1)" "suffix s1 s \<Longrightarrow> inside s (parsePipeStatsLike U kw s1)"
  unfolding pipe_defs split_beta
  by (intro inside_rules inside_cases; simp add: funcsLoop_inside)+

lemma group_pipes_inside [inside_rules]:
  "suffix s1 s \<Longrightarrow> inside s (parsePipeSort U s1)" "suffix s1 s \<Longrightarrow> inside s (parsePipeTopN U s1)"
  "suffix s1 s \<Longrightarrow> inside s (parsePipeFirstLast U isLast s1)" "suffix s1 s \<Longrightarrow> inside s (parsePipeUniq U s1)"
  "suffix s1 s \<Longrightarrow> inside s (parsePipeFacets U s1)" "suffix s1 s \<Longrightarrow> inside s (parsePipeFieldValues U s1)"
  "suffix s1 s \<Longrightarrow> inside s (parsePipeGenerateSequence U s1)" "suffix s1 s \<Longrightarrow> inside s (parsePipeStreamContext U s1)"
  by (auto simp: pipe_defs Let_def sortLoop_inside contextLoop_inside intro!: inside_rules split: sum.split)

lemma field_pipes_inside [inside_rules]:
  "suffix s1 s \<Longrightarrow> inside s (parsePipeCopy U s1)" "suffix s1 s \<Longrightarrow> inside s (parsePipeCoalesce U s1)"
  "suffix s1 s \<Longrightarrow> inside s (parsePipeCollapseNums U s1)" "suffix s1 s \<Longrightarrow> inside s (parsePipeDecolorize s1)"
  "suffix s1 s \<Longrightarrow> inside s (parsePipeHash U s1)" "suffix s1 s \<Longrightarrow> inside s (parsePipeJSONArrayLen U s1)"
  "suffix s1 s \<Longrightarrow> inside s (parsePipeLen U s1)" "suffix s1 s \<Longrightarrow> inside s (parsePipeJSONArrayConcat U s1)"
  "suffix s1 s \<Longrightarrow> inside s (parsePipeSplit U s1)" "suffix s1 s \<Longrightarrow> inside s (parsePipeUnpackWords U s1)"
  "suffix s1 s \<Longrightarrow> inside s (parsePipeUnroll U s1)" "suffix s1 s \<Longrightarrow> inside s (parsePipeJoin U s1)"
  "suffix s1 s \<Longrightarrow> inside s (parsePipeUpdate U s1)"
  by (auto simp: pipe_defs Let_def split_beta copyLoop_inside intro!: inside_rules)

subsection \<open>Math pipes\<close>

definition ascii_text :: "string \<Rightarrow> bool" where
  "ascii_text s \<longleftrightarrow> list_all (\<lambda>c. byte_of c < 128) s"

lemma ascii_text_sub: "ascii_text s \<Longrightarrow> set t \<subseteq> set s \<Longrightarrow> ascii_text t"
  by (auto simp: ascii_text_def list_all_iff)

lemma trim_left_suffix: "suffix (trim_left_with sps s) s"
proof (induction sps s rule: trim_left_with.induct)
  case (1 sps s)
  then show ?case
    by (subst trim_left_with.simps) (auto simp: Let_def simp del: trim_left_with.simps intro: suffix_order.trans suffix_drop)
qed

lemma TrimSpace_set: "set (TrimSpace s) \<subseteq> set s"
proof -
  have "set (trim_left_with sps t) \<subseteq> set t" for sps t
    using trim_left_suffix by (rule set_mono_suffix)
  then show ?thesis
    unfolding TrimSpace_def set_rev by (metis set_rev subset_trans)
qed

lemma rawStage_set: "set (fst (rawStage s)) \<subseteq> set s"
proof (cases "IndexByte s (CHR ''|'')")
  case None
  then show ?thesis using TrimSpace_set [of s] by (simp add: rawStage_def Let_def Remaining_def)
next
  case (Some i)
  then show ?thesis
    using TrimSpace_set [of "take i s"] set_take_subset [of i s] by (auto simp: rawStage_def Let_def Remaining_def)
qed

lemma HasPrefix_length: "HasPrefix s p \<Longrightarrow> length p \<le> length s"
  by (auto simp: HasPrefix_def) (metis length_take min.cobounded1)

lemma LastIndex_bound: "LastIndex s sub = Some i \<Longrightarrow> i + length sub \<le> length s"
proof (induction s arbitrary: i)
  case (Cons c s)
  then show ?case using HasPrefix_length [of "c # s" sub] by (auto split: option.splits if_splits)
qed (auto split: if_splits)

lemma mathAs_returns: "mathAs U lo chunk \<noteq> Loop" "ascii_text chunk \<Longrightarrow> mathAs U lo chunk \<noteq> Panic"
  using LastIndex_bound [of "ToLowerString lo chunk" "'' as ''"]
  by (auto simp: mathAs_def Let_def ToLowerString_def ascii_text_def split: option.split)

text \<open>\<open>returns s r\<close>: like \<open>inside\<close>, but the result may be a panic.\<close>

definition returns :: "Scanner \<Rightarrow> ('a \<times> Scanner) res \<Rightarrow> bool" where
  "returns s r \<longleftrightarrow> r = Panic \<or> inside s r"

lemma parsePipeMath_returns:
  assumes "suffix s1 s"
  shows "returns s (parsePipeMath U lo s1)" "ascii_text s1 \<Longrightarrow> inside s (parsePipeMath U lo s1)"
proof -
  have "suffix (snd (rawStage s1)) s" using assms by (rule rawStage_suffixI)
  moreover have "ascii_text (fst (rawStage s1))" if "ascii_text s1"
    using that rawStage_set by (rule ascii_text_sub)
  moreover note mathAs_returns(1) [of U lo "fst (rawStage s1)"] mathAs_returns(2) [of "fst (rawStage s1)" U lo]
  ultimately show "returns s (parsePipeMath U lo s1)" "ascii_text s1 \<Longrightarrow> inside s (parsePipeMath U lo s1)"
    by (cases "mathAs U lo (fst (rawStage s1))"; auto simp: returns_def parsePipeMath_def split_beta split: option.split)+
qed

subsection \<open>Queries\<close>

lemma pipeParsers_returns:
  assumes "(name, parse) \<in> set pipeParsers" "suffix s1 s"
  shows "returns s (parse U lo s1)" "ascii_text s1 \<Longrightarrow> inside s (parse U lo s1)"
proof -
  have "inside s (parse U lo s1)" if "parse \<noteq> parsePipeMath"
    using assms that unfolding pipeParsers_def by (auto intro!: inside_rules)
  then show "returns s (parse U lo s1)" "ascii_text s1 \<Longrightarrow> inside s (parse U lo s1)"
    using parsePipeMath_returns [OF assms(2)] by (cases "parse = parsePipeMath"; simp add: returns_def)+
qed

lemma parsePipe_returns:
  assumes "suffix s1 s"
  shows "returns s (parsePipe U lo s1)" "ascii_text s1 \<Longrightarrow> inside s (parsePipe U lo s1)"
proof -
  have "ascii_text (skip s1)" if "ascii_text s1"
    using that set_mono_suffix [OF skip_suffix] by (rule ascii_text_sub)
  then show "returns s (parsePipe U lo s1)" "ascii_text s1 \<Longrightarrow> inside s (parsePipe U lo s1)"
    using pipeParsers_returns [OF map_of_SomeD skip_suffixI(1) [OF assms], of _ _ U lo]
    by (auto simp: parsePipe_def Let_def returns_def split: option.split)
qed

lemma pipesLoop_returns:
  "length s < n \<Longrightarrow> returns s (pipesLoop U lo n pipes s) \<and> (ascii_text s \<longrightarrow> inside s (pipesLoop U lo n pipes s))"
proof (induction n arbitrary: pipes s)
  case (Suc n)
  show ?case
  proof (cases "peekTyp s = TokPipe \<and> (\<exists>p s1. parsePipe U lo (skip s) = Ok (p, s1))")
    case True
    then obtain p s1 where p: "peekTyp s = TokPipe" "parsePipe U lo (skip s) = Ok (p, s1)" by blast
    then have "suffix s1 (skip s)"
      using parsePipe_returns(1) [of "skip s" "skip s" U lo] by (simp add: returns_def)
    then have "suffix s1 s" "length s1 < n" "ascii_text s \<Longrightarrow> ascii_text s1"
      using p(1) Suc.prems skip_shorter [of s] suffix_length_le [of s1 "skip s"] skip_suffix [of s]
      by (auto intro: ascii_text_sub suffix_order.trans dest!: set_mono_suffix)
    then show ?thesis
      using p Suc.IH [of s1 "pipes @ [p]"] inside_later [of s1 _ s] by (auto simp: returns_def)
  next
    case False
    have "ascii_text (skip s)" if "ascii_text s"
      using that set_mono_suffix [OF skip_suffix] by (rule ascii_text_sub)
    then show ?thesis
      using False parsePipe_returns [of "skip s" "skip s" U lo]
      by (cases "parsePipe U lo (skip s)") (auto simp: returns_def)
  qed
qed simp

lemma parseQuery_returns:
  "parseQuery U lo s \<noteq> Loop" "ascii_text s \<Longrightarrow> parseQuery U lo s \<noteq> Panic"
proof -
  have f: "inside s (parseFilterExpr U s)" by (simp add: parseFilterExpr_inside)
  have p: "returns s1 (pipesLoop U lo (length s1 + 1) [] s1)" "ascii_text s1 \<Longrightarrow> inside s1 (pipesLoop U lo (length s1 + 1) [] s1)" for s1
    using pipesLoop_returns [of s1 "length s1 + 1" U lo "[]"] by simp_all
  show "parseQuery U lo s \<noteq> Loop"
  proof (cases "parseFilterExpr U s")
    case (Ok x)
    with p(1) [of "snd x"] show ?thesis
      by (cases "pipesLoop U lo (length (snd x) + 1) [] (snd x)") (auto simp: parseQuery_def returns_def split_beta)
  qed (use f in \<open>auto simp: parseQuery_def\<close>)
  show "parseQuery U lo s \<noteq> Panic" if "ascii_text s"
  proof (cases "parseFilterExpr U s")
    case (Ok x)
    then have "ascii_text (snd x)" using f that by (auto intro: ascii_text_sub dest!: set_mono_suffix)
    from p(2) [OF this] Ok show ?thesis
      by (cases "pipesLoop U lo (length (snd x) + 1) [] (snd x)") (auto simp: parseQuery_def split_beta)
  qed (use f in \<open>auto simp: parseQuery_def\<close>)
qed

text \<open>
  C32. Parsing always ends: on a text of ASCII bytes \<open>Parse\<close> returns a query or an error, and
  \<open>ParseFilter\<close> does so on every text.
\<close>

theorem logsql_parse_total:
  assumes "ascii_text inp"
  shows "((\<exists>q. Parse U lo inp = Ok q) \<or> (\<exists>e. Parse U lo inp = Err e)) \<and>
    ((\<exists>f. ParseFilter U any = Ok f) \<or> (\<exists>e. ParseFilter U any = Err e))"
proof
  show "(\<exists>q. Parse U lo inp = Ok q) \<or> (\<exists>e. Parse U lo inp = Err e)"
    using parseQuery_returns(1) [of U lo inp] parseQuery_returns(2) [OF assms, of U lo]
    by (cases "Parse U lo inp") (simp_all add: Parse_def)
  have "inside any (parseFilterExpr U any)" by (simp add: parseFilterExpr_inside)
  then show "(\<exists>f. ParseFilter U any = Ok f) \<or> (\<exists>e. ParseFilter U any = Err e)"
    by (cases "parseFilterExpr U any") (auto simp: ParseFilter_def split: prod.split)
qed

theorem logsql_parse_total_witness:
  "((\<exists>q. Parse (\<lparr>u_letter = \<lambda>_. False, u_digit = \<lambda>_. False, u_print = \<lambda>_. False\<rparr>) id ''* | limit 1'' = Ok q) \<or> (\<exists>e. Parse (\<lparr>u_letter = \<lambda>_. False, u_digit = \<lambda>_. False, u_print = \<lambda>_. False\<rparr>) id ''* | limit 1'' = Err e)) \<and>
   ((\<exists>f. ParseFilter (\<lparr>u_letter = \<lambda>_. False, u_digit = \<lambda>_. False, u_print = \<lambda>_. False\<rparr>) [CHR 0xFF] = Ok f) \<or> (\<exists>e. ParseFilter (\<lparr>u_letter = \<lambda>_. False, u_digit = \<lambda>_. False, u_print = \<lambda>_. False\<rparr>) [CHR 0xFF] = Err e))"
  by (rule logsql_parse_total) (simp add: ascii_text_def)

end
