(* ===== verification/LogsqlLex.thy ===== *)
theory LogsqlLex
  imports LogsqlTotal
begin

text \<open>
  Reading back the tokens of printed queries: one rule per token for \<open>Next\<close>, \<open>peek\<close> and \<open>skip\<close> on a
  text that begins with it. A quoted value is one token, whatever it holds.
\<close>

subsection \<open>Punctuation\<close>

lemma Next_space [simp]: "Next (CHR '' '' # s) = Next s"
  by (simp add: Next_def skipWS_def isWS_def)

lemma Next_char:
  "\<not> isWS c \<Longrightarrow> Next (c # s) =
     (case punct c of
        Some t \<Rightarrow> (Tok t [c], s)
      | None \<Rightarrow>
          if c = dquote then scanQuoted (c # s)
          else if c = backquote then scanRaw (c # s)
          else if c = CHR '':'' then scanColon (c # s)
          else if c = CHR ''='' then scanEq (c # s)
          else if c = CHR ''!'' then scanBang (c # s)
          else if c = CHR ''~'' then (Tok TokTilde ''~'', s)
          else scanIdent (c # s))"
  by (simp add: Next_def skipWS_def Let_def)

lemma Next_punct [simp]:
  "Next [] = (Tok TokEOF [], [])"
  "Next (CHR ''{'' # s) = (Tok TokLBrace ''{'', s)" "Next (CHR ''}'' # s) = (Tok TokRBrace ''}'', s)"
  "Next (CHR ''('' # s) = (Tok TokLParen ''('', s)" "Next (CHR '')'' # s) = (Tok TokRParen '')'', s)"
  "Next (CHR '','' # s) = (Tok TokComma '','', s)" "Next (CHR ''|'' # s) = (Tok TokPipe ''|'', s)"
  "Next (CHR ''*'' # s) = (Tok TokStar ''*'', s)" "Next (CHR ''~'' # s) = (Tok TokTilde ''~'', s)"
  by (simp_all add: Next_end skipWS_def Next_char isWS_def punct_def)

lemma Next_special [simp]:
  "Next (dquote # s) = scanQuotedLoop [] s"
  "Next (CHR '':'' # s) = scanColon (CHR '':'' # s)"
  "Next (CHR ''='' # s) = scanEq (CHR ''='' # s)"
  "Next (CHR ''!'' # s) = scanBang (CHR ''!'' # s)"
  "Next (backquote # s) = scanRaw (backquote # s)"
  by (simp_all add: Next_char isWS_def punct_def scanQuoted_def)

subsection \<open>Words\<close>

definition stop :: "string \<Rightarrow> bool" where
  "stop s \<longleftrightarrow> s = [] \<or> \<not> isIdentRune (hd s)"

definition identWord :: "string \<Rightarrow> bool" where
  "identWord w \<longleftrightarrow> w \<noteq> [] \<and> list_all isIdentRune w \<and> keyword w = TokIdent"

lemma not_isIdentRune [simp]:
  "\<not> isIdentRune (CHR '' '')" "\<not> isIdentRune (CHR 0x09)" "\<not> isIdentRune (CHR 0x0A)" "\<not> isIdentRune (CHR 0x0D)"
  "\<not> isIdentRune (CHR ''('')" "\<not> isIdentRune (CHR '')'')" "\<not> isIdentRune (CHR '','')" "\<not> isIdentRune (CHR '':'')"
  "\<not> isIdentRune (CHR ''*'')" "\<not> isIdentRune (CHR ''='')" "\<not> isIdentRune (CHR ''!'')" "\<not> isIdentRune (CHR ''|'')"
  "\<not> isIdentRune (CHR ''['')" "\<not> isIdentRune (CHR '']'')" "\<not> isIdentRune (CHR ''{'')" "\<not> isIdentRune (CHR ''}'')"
  "\<not> isIdentRune (CHR ''~'')" "\<not> isIdentRune dquote" "\<not> isIdentRune backquote"
  by (simp_all add: isIdentRune_def)

lemma isIdent_not_special:
  assumes "isIdentRune c"
  shows "\<not> isWS c" "punct c = None" "c \<notin> {dquote, backquote, CHR '':'', CHR ''='', CHR ''!'', CHR ''~''}"
proof -
  have "c \<noteq> d" if "\<not> isIdentRune d" for d using that assms by blast
  then show "\<not> isWS c" "punct c = None" "c \<notin> {dquote, backquote, CHR '':'', CHR ''='', CHR ''!'', CHR ''~''}"
    by (simp_all add: isWS_def punct_def)
qed

lemma takeWhile_stop:
  "list_all P w \<Longrightarrow> rest = [] \<or> \<not> P (hd rest) \<Longrightarrow> takeWhile P (w @ rest) = w"
  "list_all P w \<Longrightarrow> rest = [] \<or> \<not> P (hd rest) \<Longrightarrow> dropWhile P (w @ rest) = rest"
  by (induction w) (auto simp: takeWhile_eq_Nil_iff dropWhile_eq_self_iff)

lemma Next_ident: "w \<noteq> [] \<Longrightarrow> list_all isIdentRune w \<Longrightarrow> stop rest \<Longrightarrow> Next (w @ rest) = (Tok (keyword w) w, rest)"
  using isIdent_not_special [of "hd w"] takeWhile_stop [of isIdentRune w rest]
  by (cases w) (auto simp: Next_char scanIdent_def Let_def stop_def simp del: takeWhile.simps dropWhile.simps)

lemma Next_word [simp]: "identWord w \<Longrightarrow> stop rest \<Longrightarrow> Next (w @ rest) = (Tok TokIdent w, rest)"
  by (simp add: identWord_def Next_ident)

lemma isIdentRune_chars [simp]:
  "isIdentRune (CHR ''a'')" "isIdentRune (CHR ''b'')" "isIdentRune (CHR ''c'')" "isIdentRune (CHR ''d'')"
  "isIdentRune (CHR ''e'')" "isIdentRune (CHR ''f'')" "isIdentRune (CHR ''g'')" "isIdentRune (CHR ''h'')"
  "isIdentRune (CHR ''i'')" "isIdentRune (CHR ''j'')" "isIdentRune (CHR ''k'')" "isIdentRune (CHR ''l'')"
  "isIdentRune (CHR ''m'')" "isIdentRune (CHR ''n'')" "isIdentRune (CHR ''o'')" "isIdentRune (CHR ''p'')"
  "isIdentRune (CHR ''q'')" "isIdentRune (CHR ''r'')" "isIdentRune (CHR ''s'')" "isIdentRune (CHR ''t'')"
  "isIdentRune (CHR ''u'')" "isIdentRune (CHR ''v'')" "isIdentRune (CHR ''w'')" "isIdentRune (CHR ''x'')"
  "isIdentRune (CHR ''y'')" "isIdentRune (CHR ''z'')" "isIdentRune (CHR ''A'')" "isIdentRune (CHR ''B'')"
  "isIdentRune (CHR ''C'')" "isIdentRune (CHR ''D'')" "isIdentRune (CHR ''E'')" "isIdentRune (CHR ''F'')"
  "isIdentRune (CHR ''G'')" "isIdentRune (CHR ''H'')" "isIdentRune (CHR ''I'')" "isIdentRune (CHR ''J'')"
  "isIdentRune (CHR ''K'')" "isIdentRune (CHR ''L'')" "isIdentRune (CHR ''M'')" "isIdentRune (CHR ''N'')"
  "isIdentRune (CHR ''O'')" "isIdentRune (CHR ''P'')" "isIdentRune (CHR ''Q'')" "isIdentRune (CHR ''R'')"
  "isIdentRune (CHR ''S'')" "isIdentRune (CHR ''T'')" "isIdentRune (CHR ''U'')" "isIdentRune (CHR ''V'')"
  "isIdentRune (CHR ''W'')" "isIdentRune (CHR ''X'')" "isIdentRune (CHR ''Y'')" "isIdentRune (CHR ''Z'')"
  "isIdentRune (CHR ''0'')" "isIdentRune (CHR ''1'')" "isIdentRune (CHR ''2'')" "isIdentRune (CHR ''3'')"
  "isIdentRune (CHR ''4'')" "isIdentRune (CHR ''5'')" "isIdentRune (CHR ''6'')" "isIdentRune (CHR ''7'')"
  "isIdentRune (CHR ''8'')" "isIdentRune (CHR ''9'')" "isIdentRune (CHR ''_'')" "isIdentRune (CHR ''.'')"
  "isIdentRune (CHR ''-'')" "isIdentRune (CHR ''/'')"
  by (simp_all add: isIdentRune_def)

lemma Next_lit [simp]: "isIdentRune c \<Longrightarrow> Next (c # s) = scanIdent (c # s)"
  using isIdent_not_special [of c] by (simp add: Next_char)

lemma stop_simps [simp]: "stop []" "stop (c # s) \<longleftrightarrow> \<not> isIdentRune c"
  by (simp_all add: stop_def)

subsection \<open>Quoted values\<close>

definition escaped :: "char \<Rightarrow> string" where
  "escaped c = (if c = backslash \<or> c = dquote then [backslash, c] else [c])"

lemma quoteLogsQL_escaped: "quoteLogsQL v = dquote # concat (map escaped v) @ [dquote]"
proof -
  have "ReplaceByte (ReplaceByte v backslash [backslash, backslash]) dquote [backslash, dquote] = concat (map escaped v)"
    by (induction v) (simp_all add: ReplaceByte_def escaped_def)
  then show ?thesis by (simp add: quoteLogsQL_def Let_def)
qed

lemma scan_escaped: "scanQuotedLoop b (concat (map escaped v) @ dquote # rest) = (Tok TokString (b @ v), rest)"
  by (induction v arbitrary: b) (simp_all add: escaped_def unescape_def)

lemma Next_quoted [simp]: "Next (quoteLogsQL v @ rest) = (Tok TokString v, rest)"
  by (simp add: quoteLogsQL_escaped scan_escaped)

text \<open>\<open>closed w\<close>: a piece of a quoted string that neither ends the string nor escapes what comes after it.\<close>

definition closed_piece :: "string \<Rightarrow> bool" where
  "closed_piece w \<longleftrightarrow> (\<forall>b rest. \<exists>x. scanQuotedLoop b (w @ rest) = scanQuotedLoop (b @ x) rest)"

lemma closed_append: "closed_piece w \<Longrightarrow> closed_piece w' \<Longrightarrow> closed_piece (w @ w')"
  unfolding closed_piece_def by (metis append.assoc)

lemma closed_plain: "dquote \<notin> set w \<Longrightarrow> backslash \<notin> set w \<Longrightarrow> closed_piece w"
proof (induction w)
  case Nil
  show ?case unfolding closed_piece_def by (metis append_Nil append_Nil2)
next
  case (Cons c w)
  have "closed_piece [c]" unfolding closed_piece_def using Cons.prems by auto
  from closed_append [OF this] Cons show ?case by simp
qed

lemma closed_escape: "dquote \<notin> set w \<Longrightarrow> backslash \<notin> set w \<Longrightarrow> closed_piece (backslash # c # w)"
proof -
  have "closed_piece [backslash, c]" unfolding closed_piece_def by auto
  then show "dquote \<notin> set w \<Longrightarrow> backslash \<notin> set w \<Longrightarrow> closed_piece (backslash # c # w)"
    using closed_append [of "[backslash, c]" w] closed_plain by simp
qed

lemma hex_digit_plain: "hex_digit (x mod 16) \<noteq> dquote" "hex_digit (x mod 16) \<noteq> backslash"
proof -
  have "\<forall>d\<in>set [0..<16]. hex_digit d \<noteq> dquote \<and> hex_digit d \<noteq> backslash" by code_simp
  then show "hex_digit (x mod 16) \<noteq> dquote" "hex_digit (x mod 16) \<noteq> backslash" by auto
qed

lemma to_hex_plain: "dquote \<notin> set (to_hex n x)" "backslash \<notin> set (to_hex n x)"
  using hex_digit_plain [THEN not_sym] by (induction n x rule: to_hex.induct) auto

lemma encodeRune_high:
  assumes "128 \<le> r" "c \<in> set (encodeRune r)"
  shows "128 \<le> byte_of c"
proof -
  have b: "128 \<le> byte_of (char_of (n :: nat) :: char)" if "128 \<le> n" "n < 256" for n
    using that by simp
  consider "r < 2048" | "2048 \<le> r" "\<not> ValidRune r" | "2048 \<le> r" "ValidRune r" "r < 65536" | "ValidRune r" "65536 \<le> r"
    by linarith
  then show ?thesis
  proof cases
    case 1
    then have "c = char_of (192 + r div 64) \<or> c = char_of (128 + r mod 64)" using assms by (auto simp: encodeRune_def)
    with 1 show ?thesis by (auto intro!: b simp del: char_of_nat of_char_of)
  next
    case 2
    then show ?thesis using assms by (auto simp: encodeRune_def)
  next
    case 3
    then have "c = char_of (224 + r div 4096) \<or> c = char_of (128 + r div 64 mod 64) \<or> c = char_of (128 + r mod 64)"
      using assms by (auto simp: encodeRune_def)
    with 3 show ?thesis by (auto intro!: b simp del: char_of_nat of_char_of)
  next
    case 4
    then have "c = char_of (240 + r div 262144) \<or> c = char_of (128 + r div 4096 mod 64) \<or>
        c = char_of (128 + r div 64 mod 64) \<or> c = char_of (128 + r mod 64)"
      using assms by (auto simp: encodeRune_def)
    with 4 show ?thesis by (auto intro!: b simp: ValidRune_def simp del: char_of_nat of_char_of)
  qed
qed

lemma encodeRune_plain:
  assumes "r \<noteq> 34" "r \<noteq> 92"
  shows "dquote \<notin> set (encodeRune r)" "backslash \<notin> set (encodeRune r)"
proof -
  have "char_of r \<noteq> dquote \<and> char_of r \<noteq> backslash" if "r < 128"
  proof -
    have "byte_of (char_of r :: char) = r" "byte_of dquote = 34" "byte_of backslash = 92" using that by simp_all
    with assms show ?thesis by metis
  qed
  then show "dquote \<notin> set (encodeRune r)" "backslash \<notin> set (encodeRune r)"
    using encodeRune_high [of r] by (cases "r < 128"; force simp: encodeRune_ascii)+
qed

lemma closed_if: "closed_piece x \<Longrightarrow> closed_piece y \<Longrightarrow> closed_piece (if b then x else y)"
  by simp

lemma escapeRune_closed: "closed_piece (escapeRune U r)"
proof (cases "r = 34 \<or> r = 92")
  case True
  then show ?thesis by (auto simp: escapeRune_def intro!: closed_escape)
next
  case False
  have e: "closed_piece (encodeRune r)" using False encodeRune_plain [of r] by (simp add: closed_plain)
  show ?thesis
    unfolding escapeRune_def Let_def if_not_P [OF False]
    by (intro closed_if e closed_escape to_hex_plain) simp_all
qed

lemma quoteBody_closed: "closed_piece (quoteBody U s)"
proof (induction U s rule: quoteBody.induct)
  case (1 U s)
  show ?case
  proof (cases "s = []")
    case True
    then show ?thesis by (simp add: quoteBody.simps closed_plain)
  next
    case False
    obtain r w where d: "decodeRune s = (r, w)" by (cases "decodeRune s")
    have "closed_piece (backslash # CHR ''x'' # to_hex 2 (byte_of (hd s)))"
      by (rule closed_escape) (rule to_hex_plain)+
    then show ?thesis
      using 1 [OF False refl d [symmetric]] escapeRune_closed [of U r] False d
      by (subst quoteBody.simps) (auto intro: closed_append [of "_ # _ # _", simplified] closed_append)
  qed
qed

lemma Next_pattern: "\<exists>w. Next (quoteLogsQLPattern U p @ rest) = (Tok TokString w, rest)"
proof -
  obtain x where "scanQuotedLoop [] (quoteBody U p @ dquote # rest) = scanQuotedLoop ([] @ x) (dquote # rest)"
    using quoteBody_closed [of U p] unfolding closed_piece_def by blast
  then show ?thesis by (auto simp: quoteLogsQLPattern_def Quote_def)
qed


text \<open>
  C33. The pattern of an \<^verbatim>\<open>extract_regexp\<close> pipe does not: it is printed between backquotes as it
  is, so the first backquote in it ends the string and the rest of the pattern is read as part of the
  query.
\<close>

theorem backquote_ends_pattern:
  assumes "backquote \<notin> set pre"
  shows "\<exists>q. Pipe_String U (PipeExtractRegexp (pre @ [backquote] @ post) from) = ''| extract_regexp '' @ q \<and>
    Next q = (Tok TokRawString pre, post @ [backquote] @ '' from '' @ from)"
proof -
  have "takeWhile (\<lambda>c. c \<noteq> backquote) (pre @ backquote # r) = pre"
    "dropWhile (\<lambda>c. c \<noteq> backquote) (pre @ backquote # r) = backquote # r" for r
    using assms by (induction pre) auto
  then show ?thesis by (auto simp: PipeExtractRegexp_String_def scanRaw_def Let_def)
qed

theorem backquote_ends_pattern_witness:
  "\<exists>q. Pipe_String (\<lparr>u_letter = \<lambda>_. False, u_digit = \<lambda>_. False, u_print = \<lambda>_. False\<rparr>)
      (PipeExtractRegexp (''x'' @ [backquote] @ '' from _msg | limit 0 | extract_regexp '' @ [backquote]) ''_msg'') =
      ''| extract_regexp '' @ q \<and>
    Next q = (Tok TokRawString ''x'',
      ('' from _msg | limit 0 | extract_regexp '' @ [backquote]) @ [backquote] @ '' from '' @ ''_msg'')"
  by (rule backquote_ends_pattern) simp

subsection \<open>Math pipes\<close>

lemmas lex_simps = peek_def skip_def advance_def scanIdent_def keyword_def atWord_def

lemma parse_wildcard:
  assumes "peekTyp rest = TokPipe"
  shows "parseFilterExpr U (CHR ''*'' # rest) = Ok (Wildcard, rest)"
proof -
  have "\<exists>n. filterFuel (CHR ''*'' # rest) = Suc (Suc (Suc (Suc (Suc n))))"
    by (simp add: filterFuel_def)
  then show ?thesis
    using assms by (auto simp: parseFilterExpr_def parseAtom_def peek_def skip_def advance_def)
qed

lemma parse_star_pipe:
  assumes "Next s = (Tok TokPipe ''|'', t)"
  shows "Parse U lo (CHR ''*'' # s) =
    bindR (pipesLoop U lo (length s + 1) [] s) (\<lambda>(pipes, s2).
      if peekTyp s2 \<noteq> TokEOF then Err (Errorf (''logsql: unexpected token '' @ Quote U (Val (peek s2)) @ '' after query''))
      else Ok \<lparr>q_Filter = Some Wildcard, q_Pipes = pipes\<rparr>)"
  using assms parse_wildcard [of s U] by (simp add: Parse_def parseQuery_def peek_def)

lemma parsePipe_math: "parsePipe U lo ('' math'' @ CHR '' '' # r) = parsePipeMath U lo (CHR '' '' # r)"
  by (simp add: parsePipe_def lex_simps pipeParsers_def)

lemma bad_chunk: "rawStage ('' '' @ [CHR 0xFF, CHR 0xFF] @ '' as x'') = ([CHR 0xFF, CHR 0xFF] @ '' as x'', [])"
  by (simp add: rawStage_def Remaining_def AdvanceTo_def TrimSpace_def space_prefix_def is_ascii_space_def unicode_spaces_def
      HasPrefix_def skip_def advance_def)

lemma lowerRunes_step:
  assumes "decodeRune (c # s) = (r, Suc 0)"
  shows "lowerRunes lo (c # s) = encodeRune (lowerRune lo r) @ lowerRunes lo s"
  by (subst lowerRunes.simps) (simp add: assms del: decodeRune.simps)

lemma encode_RuneError: "encodeRune RuneError = [CHR 0xEF, CHR 0xBF, CHR 0xBD]"
proof -
  have "(of_char (CHR 0xEF) :: nat) = 239" "(of_char (CHR 0xBF) :: nat) = 191" "(of_char (CHR 0xBD) :: nat) = 189"
    by simp_all
  then have "char_of (239::nat) = CHR 0xEF" "char_of (191::nat) = CHR 0xBF" "char_of (189::nat) = CHR 0xBD"
    by (metis char_of_char)+
  then show ?thesis by (simp add: encodeRune_def ValidRune_def RuneError_def)
qed

lemma lower_lower:
  assumes "byte_of c < 128" "\<not> (65 \<le> byte_of c \<and> byte_of c \<le> 90)"
  shows "lowerRunes lo (c # s) = c # lowerRunes lo s"
proof -
  have "encodeRune (lowerRune lo (byte_of c)) = [c]"
    using assms by (auto simp: lowerRune_def encodeRune_ascii)
  then show ?thesis
    using lowerRunes_step [of c s "byte_of c" lo] assms by simp
qed

lemma bad_lower:
  "ToLowerString lo ([CHR 0xFF, CHR 0xFF] @ '' as x'') =
     [CHR 0xEF, CHR 0xBF, CHR 0xBD, CHR 0xEF, CHR 0xBF, CHR 0xBD] @ '' as x''"
proof -
  have "lowerRunes lo (CHR 0xFF # s) = [CHR 0xEF, CHR 0xBF, CHR 0xBD] @ lowerRunes lo s" for s
    using lowerRunes_step [of "CHR 0xFF" s RuneError lo] encode_RuneError by (simp add: lowerRune_def) (simp add: RuneError_def)
  moreover have "lowerRunes lo [] = []" by (subst lowerRunes.simps) simp
  ultimately show ?thesis by (simp add: ToLowerString_def lower_lower)
qed

lemma bad_math: "mathAssign ([CHR 0xFF, CHR 0xFF] @ '' as x'') = None" "mathAs U lo ([CHR 0xFF, CHR 0xFF] @ '' as x'') = Panic"
  unfolding mathAs_def bad_lower by (simp_all add: mathAssign_def HasPrefix_def)


lemma IndexByte_first: "c \<notin> set a \<Longrightarrow> IndexByte (a @ c # b) c = Some (length a)"
  by (induction a) auto

lemma rawStage_bar:
  assumes "CHR ''|'' \<notin> set a"
  shows "rawStage (a @ CHR ''|'' # b) = (TrimSpace a, b)"
proof -
  have "dropWhile (\<lambda>c. c \<noteq> CHR ''|'') (a @ CHR ''|'' # b) = CHR ''|'' # b"
    using assms by (induction a) auto
  then show ?thesis
    using IndexByte_first [OF assms, of b] by (simp add: rawStage_def Remaining_def AdvanceTo_def skip_def advance_def)
qed



end
