(* ===== verification/Spec2Isabelle.thy ===== *)
theory Spec2Isabelle
  imports CircuitBreaker RateLimiter Coalescer LruCache DiskCache PeerCache LogqlTypes Memlimit Budgets
    WindowFetch LogsqlLex
begin

text \<open>
  Verification of the Loki-VL-proxy, which answers the HTTP API of Grafana Loki from a VictoriaLogs
  backend. A request passes the limiter and the coalescer of
  \<^verbatim>\<open>src/internal/middleware\<close>; its LogQL text is parsed by
  \<^verbatim>\<open>src/internal/logql\<close>; \<^verbatim>\<open>src/internal/proxy\<close> splits long ranges into
  windows, fetches each of them from the tiers of \<^verbatim>\<open>src/internal/cache\<close> or, behind the circuit
  breaker and within the budgets, from the backend, and puts the answer together.

  \<^bold>\<open>Conventions.\<close> A Go string is a list of bytes. An instant or a duration is an integer of
  nanoseconds; \<^verbatim>\<open>time.Now()\<close> is an argument. Where 64-bit arithmetic can wrap around,
  \<open>int64\<close> is written out; counters are mathematical integers. A struct is a record, an interface a
  datatype with one constructor per implementation, an error a value with the text that the code
  builds, a run-time panic a value too. A mutex turns each critical section into one operation; where
  code works without one, the atomic steps are the steps of an inductive relation. Third-party code is
  an argument: the \<open>singleflight\<close> group of the coalescer, bbolt (\<open>bolt_laws\<close>) and gzip (\<open>gzip_laws\<close>) of
  the disk tier, the codecs of the peers (\<open>codec_laws\<close>), the backend's answers. Each law that a theorem
  assumes is shown to hold of a concrete instance by the theorem's witness.

  \<^bold>\<open>Shared theories.\<close> \<open>Prelude\<close> (runs of machines, the locales \<open>invariant_machine\<close> and its
  extensions, weights of association lists), \<open>GoStrings\<close>, \<open>GoUtf8\<close>, \<open>GoNumbers\<close>, \<open>GoNetip\<close> (what the
  code uses of Go's standard library), \<open>GoResult\<close> (results of parsers), \<open>Sha256\<close>.

  \<^bold>\<open>Middleware.\<close>
  \<^item> \<open>CircuitBreaker\<close> (\<^verbatim>\<open>circuitbreaker.go\<close>): \<open>Allow\<close>, \<open>RecordSuccess\<close>,
    \<open>RecordFailure\<close> over the record of the struct. The breaker refines a specification with a window
    of failure times; half-open probes are bounded; a probe that reports no outcome leaves the breaker
    shut for good.
  \<^item> \<open>RateLimiter\<close> (\<^verbatim>\<open>ratelimiter.go\<close>): the token buckets grant at most burst plus rate times
    elapsed time; under every interleaving of the atomic additions no more requests run than allowed.
  \<^item> \<open>Coalescer\<close> (\<^verbatim>\<open>coalescer.go\<close>): counts of waiting requests and one backend call per
    group; the guard can be bypassed after a call has returned.

  \<^bold>\<open>Cache.\<close>
  \<^item> \<open>LruCache\<close> (the memory tier of \<^verbatim>\<open>cache.go\<close>): bounds in entries and bytes,
    refinement of a map with expiry, least recently used eviction, the hot-key index.
  \<^item> \<open>DiskCache\<close> (\<^verbatim>\<open>disk.go\<close>): a flush does not change what is read, the cap holds, and
    a rejected overwrite uncovers the old value.
  \<^item> \<open>HashRing\<close> and \<open>PeerCache\<close> (\<^verbatim>\<open>peer.go\<close>, client): one owner per key, keys move to a
    joining peer only, the read-ahead stays within its budget.
  \<^item> \<open>TieredCache\<close> (\<^verbatim>\<open>cache.go\<close> across the tiers, \<^verbatim>\<open>peer.go\<close> server):
    a shared read returns the first fresh value and never prolongs it, a value crosses from its owner
    unchanged; reads by \<open>Get\<close> renew disk entries without bound, and pushed times to live are cut.

  \<^bold>\<open>LogQL.\<close>
  \<^item> \<open>LogqlScanner\<close>, \<open>LogqlAst\<close>, \<open>LogqlParser\<close>, \<open>LogqlExprParser\<close>
    (\<^verbatim>\<open>scanner.go\<close>, \<^verbatim>\<open>ast.go\<close>, \<^verbatim>\<open>parser.go\<close>,
    \<^verbatim>\<open>ip_filter.go\<close>): one definition per method. The mutually recursive methods take fuel;
    \<open>Parse\<close> starts them with \<open>4 * length input + 8\<close>, which \<open>LogqlTotal\<close> shows to be enough for every
    input, because no four nested calls go by without a token.
  \<^item> \<open>LogqlTypes\<close>: which trees \<open>Parse\<close> can return. \<open>LogqlLex\<close>, \<open>LogqlRoundtrip\<close>,
    \<open>LogqlExprRoundtrip\<close>: what the printer prints is read back as the same tree.

  \<^bold>\<open>Proxy.\<close>
  \<^item> \<open>QueryWindows\<close> and \<open>WindowFetch\<close> (\<^verbatim>\<open>query_range_windowing.go\<close>): windows tile the
    range; the windowed query returns what one query would (in the locale \<open>fragment_store\<close>, interpreted
    on the memory tier); each fetch reports at most one outcome to the breaker; a fragment cut by the
    limit is served for the whole window.
  \<^item> \<open>Budgets\<close> (\<^verbatim>\<open>manual_scan_budget.go\<close>, \<^verbatim>\<open>backend_budget.go\<close>,
    \<^verbatim>\<open>binary_budget.go\<close>): the shared budgets hold under every interleaving.
  \<^item> \<open>Memlimit\<close> (\<^verbatim>\<open>src/internal/memlimit\<close>): the memory limit that is chosen at start-up.

  \<^bold>\<open>Not modelled.\<close> HTTP plumbing, JSON rewriting, metrics, logging and the commands have no
  contract beyond their output. The string-based translator from LogQL to LogsQL is a list of textual
  rewritings whose meaning is that of VictoriaLogs, which is not part of the repository. Checks and
  stages that run Go's \<^verbatim>\<open>regexp\<close> and \<^verbatim>\<open>text/template\<close>, the evaluation of metrics in
  floating point, and the heuristics of pattern detection are left out.
\<close>

end
